(* ===== verification/Prelude.thy ===== *)
theory Prelude
  imports Main "HOL-Library.AList" "HOL-Library.Char_ord" "HOL-Library.List_Lexorder"
    "HOL-Library.Product_Lexorder"
begin

text \<open>
  What every component theory shares: the outcomes of a Go call, Go's maps, strings and
  integers, and lemmas on lists and association lists.

  A Go call can return, panic, or run for ever (a loop that never ends, or a recursion that
  exhausts the stack).  All three are values of \<open>'a go\<close>.  A function that returns
  \<open>(T, error)\<close> returns a value of \<open>go_error + 'a\<close>, with \<open>Inl\<close> the error, unless the
  caller also uses the value that comes with an error; then it is a pair.

  A Go map is an association list with distinct keys.  Its order is the order in which a
  \<open>range\<close> loop meets the entries, which Go leaves open: a theorem over all association lists
  covers every iteration order.  Go's strings are byte sequences, compared byte by byte,
  which is the lexicographic order on lists of characters.
\<close>

section \<open>Collections of facts\<close>

named_theorems go_defs "definitions of the model that proofs unfold"
named_theorems gomap_simps "what a lookup returns after an update of a Go map"

section \<open>Outcomes of a Go call\<close>

datatype 'a go = Ret 'a | Panic | Hang

fun go_bind :: "'a go \<Rightarrow> ('a \<Rightarrow> 'b go) \<Rightarrow> 'b go" where
  "go_bind (Ret x) f = f x"
| "go_bind Panic f = Panic"
| "go_bind Hang f = Hang"

text \<open>A loop or recursion that may never end is a partial function; \<open>None\<close> is a run that does
  not end.\<close>

definition of_loop :: "'a option \<Rightarrow> 'a go" where
  "of_loop r = (case r of None \<Rightarrow> Hang | Some x \<Rightarrow> Ret x)"

definition of_go_loop :: "'a go option \<Rightarrow> 'a go" where
  "of_go_loop r = (case r of None \<Rightarrow> Hang | Some x \<Rightarrow> x)"

lemma of_loop_simps [simp]: "of_loop None = Hang" "of_loop (Some x) = Ret x"
  by (simp_all add: of_loop_def)

lemma of_go_loop_simps [simp]: "of_go_loop None = Hang" "of_go_loop (Some x) = x"
  by (simp_all add: of_go_loop_def)

lemma go_bind_Ret_iff: "go_bind m f = Ret y \<longleftrightarrow> (\<exists>x. m = Ret x \<and> f x = Ret y)"
  by (cases m) auto

section \<open>Errors\<close>

text \<open>An error made by \<open>fmt.Errorf\<close> or \<open>errors.New\<close> is its message; the pending error has a type of
  its own in the source, which its callers test for.\<close>

datatype go_error = Errorf string | ErrPendingState string

fun error_msg :: "go_error \<Rightarrow> string" where
  "error_msg (Errorf m) = m"
| "error_msg (ErrPendingState m) = m"

fun is_pending :: "go_error \<Rightarrow> bool" where
  "is_pending (ErrPendingState m) = True"
| "is_pending (Errorf m) = False"

section \<open>Integers\<close>

text \<open>Go's \<open>int\<close> has 64 bits and wraps around; where a sum can leave that range, it is taken back
  into it.\<close>

definition wrap64 :: "int \<Rightarrow> int" where
  "wrap64 x = (x + 2 ^ 63) mod 2 ^ 64 - 2 ^ 63"

lemma wrap64_id [simp]: "- (2 ^ 63) \<le> x \<Longrightarrow> x < 2 ^ 63 \<Longrightarrow> wrap64 x = x"
  by (simp add: wrap64_def)

section \<open>Decimal numerals, as \<open>%d\<close> and \<open>fmt.Sprint\<close> print them\<close>

definition digit :: "nat \<Rightarrow> char" where
  "digit d = char_of (48 + d)"

fun dec_nat :: "nat \<Rightarrow> string" where
  "dec_nat n = (if n < 10 then [digit n] else dec_nat (n div 10) @ [digit (n mod 10)])"

declare dec_nat.simps [simp del]

definition dec_int :: "int \<Rightarrow> string" where
  "dec_int i = (if i < 0 then ''-'' @ dec_nat (nat (- i)) else dec_nat (nat i))"

definition dec_value :: "string \<Rightarrow> nat" where
  "dec_value cs = foldl (\<lambda>a c. 10 * a + (of_char c - 48)) 0 cs"

lemma of_char_digit: "d < 10 \<Longrightarrow> of_char (digit d) = (48 + d :: nat)"
  by (simp add: digit_def)

lemma dec_value_snoc: "dec_value (cs @ [c]) = 10 * dec_value cs + (of_char c - 48)"
  by (simp add: dec_value_def)

lemma dec_value_dec_nat [simp]: "dec_value (dec_nat n) = n"
proof (induction n rule: dec_nat.induct)
  case (1 n)
  show ?case
  proof (cases "n < 10")
    case True
    then show ?thesis
      by (simp add: dec_nat.simps [of n] dec_value_def of_char_digit)
  next
    case False
    with 1 have "dec_value (dec_nat (n div 10)) = n div 10" by simp
    with False show ?thesis
      by (simp add: dec_nat.simps [of n] dec_value_snoc of_char_digit)
  qed
qed

lemma dec_nat_inject [simp]: "dec_nat m = dec_nat n \<longleftrightarrow> m = n"
  by (metis dec_value_dec_nat)

lemma dec_nat_digits: "c \<in> set (dec_nat n) \<Longrightarrow> \<exists>d<10. c = digit d"
proof (induction n rule: dec_nat.induct)
  case (1 n)
  show ?case
  proof (cases "n < 10")
    case True
    with 1 show ?thesis by (auto simp: dec_nat.simps [of n])
  next
    case False
    with 1 show ?thesis
      by (auto simp: dec_nat.simps [of n]) (metis mod_less_divisor zero_less_numeral)
  qed
qed

lemma dec_nat_of_char: "c \<in> set (dec_nat n) \<Longrightarrow> 48 \<le> (of_char c :: nat) \<and> (of_char c :: nat) < 58"
  by (auto dest!: dec_nat_digits simp: of_char_digit)

lemma dec_nat_not_minus: "CHR ''-'' \<notin> set (dec_nat n)"
  by (auto dest: dec_nat_of_char)

lemma dec_nat_not_underscore: "CHR ''_'' \<notin> set (dec_nat n)"
  by (auto dest: dec_nat_of_char)

lemma dec_nat_neq_minus: "dec_nat n \<noteq> CHR ''-'' # cs"
  using dec_nat_not_minus [of n] by auto

lemma dec_int_inject [simp]: "dec_int i = dec_int j \<longleftrightarrow> i = j"
  using dec_nat_neq_minus dec_nat_neq_minus [symmetric]
  by (auto simp: dec_int_def)

lemma dec_int_not_underscore: "CHR ''_'' \<notin> set (dec_int i)"
  by (auto simp: dec_int_def dec_nat_not_underscore)

section \<open>Joining strings\<close>

text \<open>\<open>strings.Join\<close>.\<close>

fun str_join :: "string \<Rightarrow> string list \<Rightarrow> string" where
  "str_join sep [] = ''''"
| "str_join sep [x] = x"
| "str_join sep (x # y # zs) = x @ sep @ str_join sep (y # zs)"

section \<open>Association lists\<close>

lemma set_update_subset: "set (AList.update k v m) \<subseteq> insert (k, v) (set m)"
  by (induction m) auto

lemma map_of_update [gomap_simps]: "map_of (AList.update k v m) x = (if x = k then Some v else map_of m x)"
  by (simp add: update_conv')

lemma keys_update: "fst ` set (AList.update k v m) = insert k (fst ` set m)"
  by (simp add: dom_update)

section \<open>Lists\<close>

text \<open>Two strings that end in a separator and a part free of it split there.\<close>

lemma append_sep_eq_iff:
  assumes "c \<notin> set d" and "c \<notin> set e"
  shows "x @ c # d = y @ c # e \<longleftrightarrow> x = y \<and> d = e"
proof
  assume eq: "x @ c # d = y @ c # e"
  have "takeWhile (\<lambda>z. z \<noteq> c) (rev (x @ c # d)) = rev d"
    and "takeWhile (\<lambda>z. z \<noteq> c) (rev (y @ c # e)) = rev e"
    using assms by (auto simp: takeWhile_append)
  with eq have "d = e" by simp
  with eq show "x = y \<and> d = e" by simp
qed simp

lemma list_of_image: "set xs \<subseteq> f ` A \<Longrightarrow> \<exists>ys. xs = map f ys \<and> set ys \<subseteq> A"
proof (induction xs)
  case (Cons x xs)
  then obtain y ys where "x = f y" "y \<in> A" "xs = map f ys" "set ys \<subseteq> A" by auto
  then show ?case by (intro exI [of _ "y # ys"]) simp
qed simp

end
