(* ===== verification/Clock.thy ===== *)
theory Clock
  imports Prelude
begin

text \<open>
  \<open>cvrdt/clock.go\<close>: the vector clock a site keeps.  \<open>localId\<close> names the site, \<open>clocks\<close> is the Go
  map from site ids to counters.  Counters are Go \<open>int\<close>s; the only arithmetic on them is the
  increment, which is guarded by \<open>MaxValue\<close>, so they never wrap and are modelled as \<open>int\<close>.

  A clock is read through \<open>clk_val\<close>, which is Go's indexing of a map (0 for a missing key).  The
  lemmas show that \<open>Update\<close> is the join of the pointwise order on counters, that \<open>Increment\<close>
  moves strictly up in it until it saturates, and that both keep the well-formedness
  \<open>clk_ok\<close> (distinct keys, counters between 0 and \<open>MaxValue\<close>).
\<close>

section \<open>The code\<close>

type_synonym clock_map = "(string \<times> int) list"

definition MaxValue :: int where
  "MaxValue = 2 ^ 31 - 1"

definition MinValue :: int where
  "MinValue = 0"

record vector_clock =
  localId :: string
  clocks :: clock_map

text \<open>Go's \<open>m[k]\<close> on a map of ints: 0 for a missing key.\<close>

definition clk_val :: "clock_map \<Rightarrow> string \<Rightarrow> int" where
  "clk_val m s = (case map_of m s of None \<Rightarrow> 0 | Some c \<Rightarrow> c)"

definition NewVectorClock :: "string \<Rightarrow> vector_clock" where
  "NewVectorClock siteId = \<lparr>localId = siteId, clocks = [(siteId, MinValue)]\<rparr>"

definition vc_Value :: "vector_clock \<Rightarrow> int" where
  "vc_Value v = clk_val (clocks v) (localId v)"

definition vc_Increment :: "vector_clock \<Rightarrow> int \<times> vector_clock" where
  "vc_Increment v =
     (let v' = (if clk_val (clocks v) (localId v) < MaxValue
                then v\<lparr>clocks := AList.update (localId v) (clk_val (clocks v) (localId v) + 1) (clocks v)\<rparr>
                else v)
      in (clk_val (clocks v') (localId v'), v'))"

text \<open>The body of the loop of \<open>Update\<close>, for one entry of the received map.\<close>

fun merge_entry :: "clock_map \<Rightarrow> string \<times> int \<Rightarrow> clock_map" where
  "merge_entry m (site, clock) =
     (case map_of m site of
        Some currentClock \<Rightarrow> (if clock > currentClock then AList.update site clock m else m)
      | None \<Rightarrow> AList.update site clock m)"

definition vc_Update :: "vector_clock \<Rightarrow> clock_map \<Rightarrow> vector_clock" where
  "vc_Update v receivedVector = v\<lparr>clocks := foldl merge_entry (clocks v) receivedVector\<rparr>"

text \<open>\<open>Copy\<close> fills a new map entry by entry.\<close>

definition vc_Copy :: "vector_clock \<Rightarrow> clock_map" where
  "vc_Copy v = foldl (\<lambda>m (site, clock). AList.update site clock m) [] (clocks v)"

definition vc_Get :: "vector_clock \<Rightarrow> string \<Rightarrow> int" where
  "vc_Get v siteId = clk_val (clocks v) siteId"

section \<open>Well-formedness and the order on clocks\<close>

definition clk_ok :: "clock_map \<Rightarrow> bool" where
  "clk_ok m \<longleftrightarrow> distinct (map fst m) \<and> list_all (\<lambda>(s, c). 0 \<le> c \<and> c \<le> MaxValue) m"

definition clk_le :: "clock_map \<Rightarrow> clock_map \<Rightarrow> bool" where
  "clk_le a b \<longleftrightarrow> (\<forall>s. clk_val a s \<le> clk_val b s)"

lemma clk_val_Nil [simp]: "clk_val [] s = 0"
  by (simp add: clk_val_def)

lemma clk_val_update [gomap_simps]:
  "clk_val (AList.update k c m) s = (if s = k then c else clk_val m s)"
  by (simp add: clk_val_def update_conv')

lemma clk_le_refl [simp, intro]: "clk_le a a"
  by (simp add: clk_le_def)

lemma clk_le_trans [trans]: "clk_le a b \<Longrightarrow> clk_le b c \<Longrightarrow> clk_le a c"
  by (meson clk_le_def order_trans)

lemma clk_leD: "clk_le a b \<Longrightarrow> clk_val a s \<le> clk_val b s"
  by (simp add: clk_le_def)

lemma clk_ok_distinct: "clk_ok m \<Longrightarrow> distinct (map fst m)"
  by (simp add: clk_ok_def)

lemma clk_ok_range:
  assumes "clk_ok m"
  shows "0 \<le> clk_val m s" and "clk_val m s \<le> MaxValue"
  using assms
  by (auto simp: clk_ok_def clk_val_def list_all_iff MaxValue_def dest!: map_of_SomeD
      split: option.splits)

lemma clk_ok_update: "clk_ok m \<Longrightarrow> 0 \<le> c \<Longrightarrow> c \<le> MaxValue \<Longrightarrow> clk_ok (AList.update k c m)"
  using set_update_subset [of k c m]
  by (auto simp: clk_ok_def distinct_update list_all_iff)

lemma clk_val_Some: "map_of m s = Some c \<Longrightarrow> clk_val m s = c"
  by (simp add: clk_val_def)

lemma clk_val_None: "map_of m s = None \<Longrightarrow> clk_val m s = 0"
  by (simp add: clk_val_def)

section \<open>Update is the join\<close>

lemma map_of_merge_entry:
  "map_of (merge_entry m (k, c)) s =
     (if s = k then Some (case map_of m k of None \<Rightarrow> c | Some c0 \<Rightarrow> max c0 c) else map_of m s)"
  by (auto simp: gomap_simps split: option.splits)

lemma map_of_merge_all:
  assumes "distinct (map fst r)"
  shows "map_of (foldl merge_entry m r) s =
    (case map_of r s of None \<Rightarrow> map_of m s
     | Some c \<Rightarrow> Some (case map_of m s of None \<Rightarrow> c | Some c0 \<Rightarrow> max c0 c))"
  using assms
proof (induction r arbitrary: m)
  case Nil
  then show ?case by simp
next
  case (Cons e r)
  obtain k c where e: "e = (k, c)" by (cases e)
  from Cons.prems e have "map_of r k = None" by (auto simp: map_of_eq_None_iff)
  with Cons e show ?case
    by (simp add: map_of_merge_entry del: merge_entry.simps split: option.splits)
qed

lemma clk_val_merge_all:
  assumes "clk_ok m" and "clk_ok r"
  shows "clk_val (foldl merge_entry m r) s = max (clk_val m s) (clk_val r s)"
  using clk_ok_range [OF assms(1), of s] clk_ok_range [OF assms(2), of s]
    map_of_merge_all [OF clk_ok_distinct [OF assms(2)], of m s]
  by (auto simp: clk_val_def split: option.splits)

lemma clk_ok_merge_entry:
  "clk_ok m \<Longrightarrow> 0 \<le> c \<Longrightarrow> c \<le> MaxValue \<Longrightarrow> clk_ok (merge_entry m (k, c))"
  by (auto intro: clk_ok_update split: option.splits)

lemma clk_ok_merge_all: "clk_ok m \<Longrightarrow> list_all (\<lambda>(s, c). 0 \<le> c \<and> c \<le> MaxValue) r
  \<Longrightarrow> clk_ok (foldl merge_entry m r)"
  by (induction r arbitrary: m)
    (auto simp del: merge_entry.simps simp: clk_ok_merge_entry split: prod.splits)

lemma vc_Update_localId [simp]: "localId (vc_Update v r) = localId v"
  by (simp add: vc_Update_def)

lemma clk_ok_vc_Update: "clk_ok (clocks v) \<Longrightarrow> clk_ok r \<Longrightarrow> clk_ok (clocks (vc_Update v r))"
  by (simp add: vc_Update_def clk_ok_merge_all clk_ok_def [of r])

lemma clk_val_vc_Update:
  "clk_ok (clocks v) \<Longrightarrow> clk_ok r \<Longrightarrow>
   clk_val (clocks (vc_Update v r)) s = max (clk_val (clocks v) s) (clk_val r s)"
  by (simp add: vc_Update_def clk_val_merge_all)

text \<open>The merge of a received clock is the least upper bound of the two clocks.\<close>

lemma vc_Update_lub:
  assumes "clk_ok (clocks v)" and "clk_ok r"
  shows "clk_le u (clocks (vc_Update v r)) \<longleftrightarrow> (\<forall>s. clk_val u s \<le> max (clk_val (clocks v) s) (clk_val r s))"
    and "clk_le (clocks (vc_Update v r)) u \<longleftrightarrow> clk_le (clocks v) u \<and> clk_le r u"
  using assms by (auto simp: clk_le_def clk_val_vc_Update)

section \<open>Increment\<close>

lemma vc_Increment_value: "fst (vc_Increment v) = vc_Value (snd (vc_Increment v))"
  by (simp add: vc_Increment_def vc_Value_def Let_def)

lemma vc_Increment_localId [simp]: "localId (snd (vc_Increment v)) = localId v"
  by (simp add: vc_Increment_def Let_def)

lemma clk_val_vc_Increment:
  "clk_val (clocks (snd (vc_Increment v))) s =
     (if s = localId v \<and> clk_val (clocks v) s < MaxValue then clk_val (clocks v) s + 1
      else clk_val (clocks v) s)"
  by (simp add: vc_Increment_def Let_def gomap_simps)

lemma clk_ok_vc_Increment: "clk_ok (clocks v) \<Longrightarrow> clk_ok (clocks (snd (vc_Increment v)))"
  using clk_ok_range [of "clocks v" "localId v"]
  by (auto simp: vc_Increment_def Let_def intro!: clk_ok_update)

lemma clk_le_vc_Increment: "clk_le (clocks v) (clocks (snd (vc_Increment v)))"
  by (simp add: clk_le_def clk_val_vc_Increment)

section \<open>Copy\<close>

lemma copy_eq: "distinct (map fst (a @ m)) \<Longrightarrow>
   foldl (\<lambda>m (site, clock). AList.update site clock m) a m = a @ m"
proof (induction m arbitrary: a)
  case (Cons e m)
  obtain k c where e: "e = (k, c)" by (cases e)
  have "k \<notin> fst ` set a \<Longrightarrow> AList.update k c a = a @ [(k, c)]"
    by (induction a) auto
  with Cons e show ?case by simp
qed simp

text \<open>A copy has the entries of the clock, in the order of the copying loop.\<close>

lemma vc_Copy_eq: "clk_ok (clocks v) \<Longrightarrow> vc_Copy v = clocks v"
  by (simp add: vc_Copy_def copy_eq clk_ok_def)

section \<open>Properties\<close>

text \<open>\<open>Update\<close> computes the least upper bound of the two clocks in the pointwise order, keeps the
  site and the well-formedness, whatever order the loop over the received map takes.\<close>

theorem Update_is_join:
  assumes "clk_ok (clocks v)" and "clk_ok r"
  shows "clk_ok (clocks (vc_Update v r)) \<and> localId (vc_Update v r) = localId v \<and>
    clk_le (clocks v) (clocks (vc_Update v r)) \<and> clk_le r (clocks (vc_Update v r)) \<and>
    (\<forall>u. clk_le (clocks v) u \<and> clk_le r u \<longrightarrow> clk_le (clocks (vc_Update v r)) u)"
  using assms by (simp add: clk_ok_vc_Update clk_le_def clk_val_vc_Update)

theorem Update_is_join_witness:
  "clk_le [(''b'', 2)] (clocks (vc_Update \<lparr>localId = ''a'', clocks = [(''a'', 1)]\<rparr> [(''b'', 2)]))"
  using Update_is_join [of "\<lparr>localId = ''a'', clocks = [(''a'', 1)]\<rparr>" "[(''b'', 2)]"]
  by (simp add: clk_ok_def MaxValue_def)

text \<open>C30. \<open>Increment\<close> adds one to the site's own counter, and to no other, until the counter is
  \<open>MaxValue\<close>, where it stays; the counters stay in their range and the returned value is the new
  counter.\<close>

theorem Increment_saturates:
  assumes "clk_ok (clocks v)"
  shows "clk_ok (clocks (snd (vc_Increment v))) \<and>
    fst (vc_Increment v) = vc_Value (snd (vc_Increment v)) \<and>
    vc_Value (snd (vc_Increment v)) = min (vc_Value v + 1) MaxValue \<and>
    (\<forall>s. s \<noteq> localId v \<longrightarrow> vc_Get (snd (vc_Increment v)) s = vc_Get v s)"
  using clk_ok_vc_Increment [OF assms] vc_Increment_value [of v] clk_ok_range(2) [OF assms, of "localId v"]
  by (auto simp: vc_Value_def vc_Get_def clk_val_vc_Increment)

theorem Increment_saturates_witness:
  "vc_Value (snd (vc_Increment \<lparr>localId = ''a'', clocks = [(''a'', MaxValue)]\<rparr>)) = MaxValue"
  using Increment_saturates [of "\<lparr>localId = ''a'', clocks = [(''a'', MaxValue)]\<rparr>"]
  by (simp add: clk_ok_def MaxValue_def vc_Value_def clk_val_def)

end
