(* ===== verification/Characters.thy ===== *)
theory Characters
  imports Clock
begin

text \<open>
  \<open>cvrdt/character.go\<close>: the identifiers and cells of a WOOT string.  An identifier is a pair of a
  site and that site's counter; \<open>Less\<close> orders identifiers by counter and then by site, which is a
  linear order and is made one here by \<open>instantiation\<close>.  \<open>WCharacterIdEquals\<close>, the comparison
  the string uses for lookup, identifies all start markers (counter 0) and all end markers
  (counter \<open>MaxValue\<close>); the map \<open>cid_norm\<close> into \<open>cell_ref\<close> is its quotient.
\<close>

section \<open>Identifiers\<close>

datatype wchar_id = WCharacterId (SiteId: string) (IdClock: int)

definition wid_Less :: "wchar_id \<Rightarrow> wchar_id \<Rightarrow> bool" where
  "wid_Less wid other =
     (if IdClock wid < IdClock other then True
      else if IdClock wid > IdClock other then False
      else SiteId wid < SiteId other)"

definition wid_Equals :: "wchar_id \<Rightarrow> wchar_id \<Rightarrow> bool" where
  "wid_Equals wid other \<longleftrightarrow> SiteId wid = SiteId other \<and> IdClock wid = IdClock other"

definition SPECIAL_START_CHAR :: string where
  "SPECIAL_START_CHAR = ''<START>''"

definition SPECIAL_END_CHAR :: string where
  "SPECIAL_END_CHAR = ''<END>''"

definition SPECIAL_START_CHAR_CLOCK :: int where
  "SPECIAL_START_CHAR_CLOCK = 0"

definition SPECIAL_END_CHAR_CLOCK :: int where
  "SPECIAL_END_CHAR_CLOCK = MaxValue"

definition SPECIAL_MISSING_CHAR_CLOCK :: int where
  "SPECIAL_MISSING_CHAR_CLOCK = -1"

definition WCharacterIdEquals :: "wchar_id \<Rightarrow> wchar_id \<Rightarrow> bool" where
  "WCharacterIdEquals id1 id2 =
     (if IdClock id1 = SPECIAL_START_CHAR_CLOCK \<and> IdClock id2 = SPECIAL_START_CHAR_CLOCK \<or>
         IdClock id1 = SPECIAL_END_CHAR_CLOCK \<and> IdClock id2 = SPECIAL_END_CHAR_CLOCK
      then True
      else wid_Equals id1 id2)"

section \<open>Cells\<close>

record wcharacter =
  wid :: wchar_id
  alphaValue :: string
  visible :: bool
  previousId :: wchar_id
  nextId :: wchar_id

text \<open>The serialised form, with exported fields.\<close>

record wcharacter_data =
  data_Id :: wchar_id
  data_AlphaValue :: string
  data_Visible :: bool
  data_PreviousId :: wchar_id
  data_NextId :: wchar_id

definition GetNewSpecialStartWChar :: "string \<Rightarrow> wcharacter" where
  "GetNewSpecialStartWChar siteId =
     \<lparr>wid = WCharacterId siteId SPECIAL_START_CHAR_CLOCK,
      alphaValue = SPECIAL_START_CHAR,
      visible = True,
      previousId = WCharacterId siteId SPECIAL_MISSING_CHAR_CLOCK,
      nextId = WCharacterId siteId SPECIAL_END_CHAR_CLOCK\<rparr>"

definition GetNewSpecialEndWChar :: "string \<Rightarrow> wcharacter" where
  "GetNewSpecialEndWChar siteId =
     \<lparr>wid = WCharacterId siteId SPECIAL_END_CHAR_CLOCK,
      alphaValue = SPECIAL_END_CHAR,
      visible = True,
      previousId = WCharacterId siteId SPECIAL_START_CHAR_CLOCK,
      nextId = WCharacterId siteId SPECIAL_MISSING_CHAR_CLOCK\<rparr>"

definition wchar_Less :: "wcharacter \<Rightarrow> wcharacter \<Rightarrow> bool" where
  "wchar_Less w other = wid_Less (wid w) (wid other)"

text \<open>The method has a pointer receiver and answers \<open>false\<close> on \<open>nil\<close>.\<close>

definition IsSpecialWChar :: "wcharacter option \<Rightarrow> bool" where
  "IsSpecialWChar w = (case w of None \<Rightarrow> False
     | Some c \<Rightarrow> alphaValue c = SPECIAL_START_CHAR \<or> alphaValue c = SPECIAL_END_CHAR)"

definition wchar_Export :: "wcharacter \<Rightarrow> wcharacter_data" where
  "wchar_Export w =
     \<lparr>data_Id = wid w, data_AlphaValue = alphaValue w, data_Visible = visible w,
      data_PreviousId = previousId w, data_NextId = nextId w\<rparr>"

definition wchar_Import :: "wcharacter_data \<Rightarrow> wcharacter" where
  "wchar_Import d =
     \<lparr>wid = data_Id d, alphaValue = data_AlphaValue d, visible = data_Visible d,
      previousId = data_PreviousId d, nextId = data_NextId d\<rparr>"

lemmas special_clock_defs =
  SPECIAL_START_CHAR_CLOCK_def SPECIAL_END_CHAR_CLOCK_def SPECIAL_MISSING_CHAR_CLOCK_def

section \<open>Less is a linear order on identifiers\<close>

lemma wchar_id_eq_iff: "a = b \<longleftrightarrow> SiteId a = SiteId b \<and> IdClock a = IdClock b"
  by (cases a; cases b) auto

instantiation wchar_id :: linorder
begin

definition less_wchar_id_def: "(a :: wchar_id) < b \<longleftrightarrow> wid_Less a b"

definition less_eq_wchar_id_def: "(a :: wchar_id) \<le> b \<longleftrightarrow> wid_Less a b \<or> a = b"

instance
  by standard
    (auto simp: less_wchar_id_def less_eq_wchar_id_def wid_Less_def wchar_id_eq_iff
      split: if_splits)

end

lemma wid_Equals_iff: "wid_Equals a b \<longleftrightarrow> a = b"
  by (auto simp: wid_Equals_def wchar_id_eq_iff)

lemma wid_Less_alt: "wid_Less a b \<longleftrightarrow> (IdClock a, SiteId a) < (IdClock b, SiteId b)"
  by (auto simp: wid_Less_def)

section \<open>The quotient by WCharacterIdEquals\<close>

datatype cell_ref = Start | Cell wchar_id | End

definition cid_norm :: "wchar_id \<Rightarrow> cell_ref" where
  "cid_norm i = (if IdClock i = SPECIAL_START_CHAR_CLOCK then Start
     else if IdClock i = SPECIAL_END_CHAR_CLOCK then End else Cell i)"

lemma WCharacterIdEquals_norm: "WCharacterIdEquals a b \<longleftrightarrow> cid_norm a = cid_norm b"
  by (auto simp: WCharacterIdEquals_def cid_norm_def wid_Equals_iff special_clock_defs MaxValue_def)

lemma cid_norm_start [simp]: "cid_norm (WCharacterId s SPECIAL_START_CHAR_CLOCK) = Start"
  by (simp add: cid_norm_def)

lemma cid_norm_end [simp]: "cid_norm (WCharacterId s SPECIAL_END_CHAR_CLOCK) = End"
  by (simp add: cid_norm_def special_clock_defs MaxValue_def)

lemma cid_norm_Cell: "cid_norm i = Cell j \<Longrightarrow> i = j"
  by (simp add: cid_norm_def split: if_splits)

lemma cid_norm_proper:
  "0 < IdClock i \<Longrightarrow> IdClock i < MaxValue \<Longrightarrow> cid_norm i = Cell i"
  by (simp add: cid_norm_def special_clock_defs)

lemma special_cells [simp]:
  "wid (GetNewSpecialStartWChar s) = WCharacterId s SPECIAL_START_CHAR_CLOCK"
  "wid (GetNewSpecialEndWChar s) = WCharacterId s SPECIAL_END_CHAR_CLOCK"
  "IsSpecialWChar (Some (GetNewSpecialStartWChar s))"
  "IsSpecialWChar (Some (GetNewSpecialEndWChar s))"
  by (simp_all add: GetNewSpecialStartWChar_def GetNewSpecialEndWChar_def IsSpecialWChar_def)

text \<open>Export and Import are inverse to each other.\<close>

lemma wchar_Import_Export [simp]: "wchar_Import (wchar_Export w) = w"
  by (simp add: wchar_Import_def wchar_Export_def)

lemma wchar_Export_Import [simp]: "wchar_Export (wchar_Import d) = d"
  by (simp add: wchar_Import_def wchar_Export_def)

end
