(* ===== verification/WStrings.thy ===== *)
theory WStrings
  imports Characters
begin

text \<open>
  \<open>cvrdt/string.go\<close>: the WOOT string, a sequence of pointers to cells.  A pointer into the sequence is
  the index of the cell it points to; the code only holds one between a lookup and its use, with no
  insertion in between.  \<open>GetPos\<close> answers \<open>-1\<close> for an absent identifier, so positions are \<open>int\<close>, and
  the occurrence argument of \<open>GetIthVisibleValue\<close> is the Go \<open>int\<close> its caller computed.
\<close>

section \<open>The code\<close>

type_synonym wstring = "wcharacter list"

definition NewWString :: "string \<Rightarrow> wstring" where
  "NewWString siteId = [GetNewSpecialStartWChar siteId, GetNewSpecialEndWChar siteId]"

fun getById_from :: "nat \<Rightarrow> wstring \<Rightarrow> wchar_id \<Rightarrow> nat option" where
  "getById_from i [] charId = None"
| "getById_from i (c # cs) charId =
     (if WCharacterIdEquals (wid c) charId then Some i else getById_from (Suc i) cs charId)"

text \<open>The pointer \<open>GetById\<close> returns: the index of the cell, or \<open>nil\<close>.\<close>

definition wstr_GetById :: "wstring \<Rightarrow> wchar_id \<Rightarrow> nat option" where
  "wstr_GetById w charId = getById_from 0 w charId"

definition wstr_GetLen :: "wstring \<Rightarrow> int" where
  "wstr_GetLen w = int (length w)"

fun getPos_from :: "int \<Rightarrow> wstring \<Rightarrow> wchar_id \<Rightarrow> int" where
  "getPos_from pos [] charId = -1"
| "getPos_from pos (el # els) charId =
     (if WCharacterIdEquals (wid el) charId then pos else getPos_from (pos + 1) els charId)"

definition wstr_GetPos :: "wstring \<Rightarrow> wchar_id \<Rightarrow> int" where
  "wstr_GetPos w charId = getPos_from 0 w charId"

definition wstr_Insert :: "wstring \<Rightarrow> wcharacter \<Rightarrow> int \<Rightarrow> go_error + wstring" where
  "wstr_Insert w char position =
     (if position < 0 \<or> position > wstr_GetLen w
      then Inl (Errorf (''index '' @ dec_int position @ '' out of bound''))
      else Inr (take (nat position) w @ char # drop (nat position) w))"

text \<open>\<open>nil\<close> and the empty slice are both the empty list: the callers only take their length.\<close>

definition wstr_SubSeq :: "wstring \<Rightarrow> wcharacter \<Rightarrow> wcharacter \<Rightarrow> wcharacter list" where
  "wstr_SubSeq w startChar endChar =
     (let startPos = wstr_GetPos w (wid startChar); endPos = wstr_GetPos w (wid endChar)
      in if startPos = -1 \<or> endPos = -1 \<or> startPos \<ge> endPos then []
         else take (nat endPos - Suc (nat startPos)) (drop (Suc (nat startPos)) w))"

definition wstr_Contains :: "wstring \<Rightarrow> wchar_id \<Rightarrow> bool" where
  "wstr_Contains w element = list_ex (\<lambda>char. WCharacterIdEquals (wid char) element) w"

text \<open>The indices of the visible cells, without the special ones if these are excluded.\<close>

definition visible_at :: "wstring \<Rightarrow> bool \<Rightarrow> nat list" where
  "visible_at w excludeLimiters =
     filter (\<lambda>i. visible (w ! i) \<and> \<not> (excludeLimiters \<and> IsSpecialWChar (Some (w ! i))))
       [0..<length w]"

definition wstr_GetIthVisibleValue :: "wstring \<Rightarrow> int \<Rightarrow> bool \<Rightarrow> go_error + nat" where
  "wstr_GetIthVisibleValue w occ excludeLimiters =
     (if occ < 0 then Inl (Errorf (''occurrence index '' @ dec_int occ @ '' out of range''))
      else let visibleChars = visible_at w excludeLimiters
        in if length visibleChars = 0
           then Inl (Errorf ''no elements are present to be deleted'')
           else Inr (visibleChars ! nat (min (int (length visibleChars) - 1) occ)))"

definition wstr_GetVisibleContent :: "wstring \<Rightarrow> string" where
  "wstr_GetVisibleContent w =
     foldl (\<lambda>visibleContent char.
       if visible char \<and> \<not> IsSpecialWChar (Some char) then visibleContent @ alphaValue char
       else visibleContent) '''' w"

section \<open>Lookup\<close>

text \<open>The references of a string, up to \<open>WCharacterIdEquals\<close>.\<close>

definition refs :: "wstring \<Rightarrow> cell_ref list" where
  "refs w = map (cid_norm \<circ> wid) w"

lemma refs_simps [simp]:
  "refs [] = []" "refs (c # w) = cid_norm (wid c) # refs w"
  "refs (v @ w) = refs v @ refs w" "length (refs w) = length w"
  by (simp_all add: refs_def)

lemma refs_nth: "i < length w \<Longrightarrow> refs w ! i = cid_norm (wid (w ! i))"
  by (simp add: refs_def)

lemma refs_take_drop: "refs (take n w) = take n (refs w)" "refs (drop n w) = drop n (refs w)"
  by (simp_all add: refs_def take_map drop_map)

lemma set_refs: "set (refs w) = (\<lambda>c. cid_norm (wid c)) ` set w"
  by (simp add: refs_def)

lemma wstr_Contains_iff: "wstr_Contains w i \<longleftrightarrow> cid_norm i \<in> set (refs w)"
  by (auto simp: wstr_Contains_def list_ex_iff WCharacterIdEquals_norm set_refs image_iff
      intro: sym)

lemma getById_from_None: "getById_from n w i = None \<longleftrightarrow> cid_norm i \<notin> set (refs w)"
  by (induction w arbitrary: n) (auto simp: WCharacterIdEquals_norm)

lemma getById_from_Some:
  "getById_from n w i = Some k \<Longrightarrow>
   n \<le> k \<and> k < n + length w \<and> refs w ! (k - n) = cid_norm i \<and> (\<forall>j<k - n. refs w ! j \<noteq> cid_norm i)"
proof (induction w arbitrary: n)
  case (Cons c w)
  show ?case
  proof (cases "cid_norm (wid c) = cid_norm i")
    case True
    with Cons.prems show ?thesis by (simp add: WCharacterIdEquals_norm)
  next
    case False
    with Cons.prems have "getById_from (Suc n) w i = Some k" by (simp add: WCharacterIdEquals_norm)
    from Cons.IH [OF this] False show ?thesis
      by (auto simp: nth_Cons' less_Suc_eq_0_disj)
  qed
qed simp

lemma getPos_from_getById:
  "getPos_from (int n) w i = (case getById_from n w i of None \<Rightarrow> -1 | Some k \<Rightarrow> int k)"
  by (induction w arbitrary: n) (auto simp: algebra_simps simp flip: of_nat_Suc)

lemma wstr_GetPos_getById:
  "wstr_GetPos w i = (case wstr_GetById w i of None \<Rightarrow> -1 | Some k \<Rightarrow> int k)"
  using getPos_from_getById [of 0 w i] by (simp add: wstr_GetPos_def wstr_GetById_def)

lemma wstr_GetById_None: "wstr_GetById w i = None \<longleftrightarrow> cid_norm i \<notin> set (refs w)"
  by (simp add: wstr_GetById_def getById_from_None)

lemma wstr_GetById_Some:
  "wstr_GetById w i = Some k \<Longrightarrow>
   k < length w \<and> refs w ! k = cid_norm i \<and> (\<forall>j<k. refs w ! j \<noteq> cid_norm i)"
  by (auto simp: wstr_GetById_def dest!: getById_from_Some)

lemma wstr_GetById_eq:
  assumes "distinct (refs w)" and "k < length w" and "refs w ! k = cid_norm i"
  shows "wstr_GetById w i = Some k"
proof (cases "wstr_GetById w i")
  case None
  then have "cid_norm i \<notin> set (refs w)" by (simp add: wstr_GetById_None)
  with assms show ?thesis by (metis length_map nth_mem refs_def)
next
  case (Some j)
  from wstr_GetById_Some [OF this] assms have "j = k"
    by (metis nth_eq_iff_index_eq refs_simps(4))
  with Some show ?thesis by simp
qed

lemma wstr_GetPos_eq:
  "distinct (refs w) \<Longrightarrow> k < length w \<Longrightarrow> refs w ! k = cid_norm i \<Longrightarrow> wstr_GetPos w i = int k"
  by (simp add: wstr_GetPos_getById wstr_GetById_eq)

lemma wstr_GetPos_missing: "wstr_GetPos w i = -1 \<longleftrightarrow> cid_norm i \<notin> set (refs w)"
  by (cases "wstr_GetById w i")
    (auto simp: wstr_GetPos_getById simp flip: wstr_GetById_None)

lemma wstr_GetPos_less: "wstr_GetPos w i < int (length w)"
  by (auto simp: wstr_GetPos_getById dest!: wstr_GetById_Some split: option.splits)

lemma wstr_GetPos_ge: "-1 \<le> wstr_GetPos w i"
  by (auto simp: wstr_GetPos_getById split: option.splits)

lemma wstr_GetPos_Some:
  assumes "cid_norm i \<in> set (refs w)"
  obtains k where "wstr_GetPos w i = int k" and "wstr_GetById w i = Some k" and "k < length w"
    and "refs w ! k = cid_norm i"
proof (cases "wstr_GetById w i")
  case None
  with assms show ?thesis by (simp add: wstr_GetById_None)
next
  case (Some k)
  with wstr_GetById_Some [OF Some] show ?thesis
    by (intro that [of k]) (simp_all add: wstr_GetPos_getById)
qed

lemma wstr_SubSeq_between:
  "wstr_GetPos w (wid p) = int l \<Longrightarrow> wstr_GetPos w (wid n) = int u \<Longrightarrow>
   wstr_SubSeq w p n = take (u - Suc l) (drop (Suc l) w)"
  by (auto simp: wstr_SubSeq_def Let_def)

lemma wstr_SubSeq_set:
  assumes "wstr_GetPos w (wid p) = int l" and "wstr_GetPos w (wid n) = int u" and "u \<le> length w"
  shows "set (wstr_SubSeq w p n) = {w ! k |k. l < k \<and> k < u}"
proof -
  have "set (take (u - Suc l) (drop (Suc l) w)) = {w ! k |k. l < k \<and> k < u}" (is "?L = ?R")
  proof (intro equalityI subsetI)
    fix x assume "x \<in> ?L"
    then obtain j where "j < u - Suc l" and "x = w ! (Suc l + j)"
      using assms(3) by (auto simp: in_set_conv_nth)
    then show "x \<in> ?R" by auto
  next
    fix x assume "x \<in> ?R"
    then obtain k where k: "l < k" "k < u" "x = w ! k" by blast
    then have "x = take (u - Suc l) (drop (Suc l) w) ! (k - Suc l)"
      and "k - Suc l < length (take (u - Suc l) (drop (Suc l) w))"
      using assms(3) by auto
    then show "x \<in> ?L" by (metis nth_mem)
  qed
  then show ?thesis by (simp add: wstr_SubSeq_between [OF assms(1,2)])
qed

section \<open>Insertion\<close>

lemma wstr_Insert_ok:
  "k \<le> length w \<Longrightarrow> wstr_Insert w c (int k) = Inr (take k w @ c # drop k w)"
  by (simp add: wstr_Insert_def wstr_GetLen_def)

lemma wstr_Insert_error:
  "wstr_Insert w c i = Inl e \<longleftrightarrow>
   (i < 0 \<or> i > wstr_GetLen w) \<and> e = Errorf (''index '' @ dec_int i @ '' out of bound'')"
  by (auto simp: wstr_Insert_def)

section \<open>Visible cells\<close>

abbreviation shown :: "wcharacter \<Rightarrow> bool" where
  "shown c \<equiv> visible c \<and> \<not> IsSpecialWChar (Some c)"

lemma content_concat:
  "wstr_GetVisibleContent w = concat (map alphaValue (filter shown w))"
proof -
  have "foldl (\<lambda>v c. if shown c then v @ alphaValue c else v) a w =
        a @ concat (map alphaValue (filter shown w))" for a
    by (induction w arbitrary: a) auto
  from this [of "[]"] show ?thesis
    by (simp add: wstr_GetVisibleContent_def)
qed

lemma visible_at_sorted: "sorted_wrt (<) (visible_at w x)"
  by (simp add: visible_at_def sorted_wrt_filter)

lemma visible_at_mem:
  "i \<in> set (visible_at w x) \<longleftrightarrow>
   i < length w \<and> visible (w ! i) \<and> \<not> (x \<and> IsSpecialWChar (Some (w ! i)))"
  by (auto simp: visible_at_def)

text \<open>The occurrence is capped at the last visible cell, so beyond the end every occurrence is
  the last cell.\<close>

lemma wstr_GetIth_Inr:
  assumes "wstr_GetIthVisibleValue w occ x = Inr k"
  shows "0 \<le> occ" and "k \<in> set (visible_at w x)" and "k < length w" and "visible (w ! k)"
    and "k = visible_at w x ! min (length (visible_at w x) - 1) (nat occ)"
proof -
  let ?v = "visible_at w x"
  from assms show "0 \<le> occ" by (auto simp: wstr_GetIthVisibleValue_def split: if_splits)
  from assms have ne: "?v \<noteq> []" and k: "k = ?v ! nat (min (int (length ?v) - 1) occ)"
    by (auto simp: wstr_GetIthVisibleValue_def Let_def split: if_splits)
  from ne \<open>0 \<le> occ\<close> have "nat (min (int (length ?v) - 1) occ) = min (length ?v - 1) (nat occ)"
    by (cases "length ?v") (auto simp: min_def)
  with k show eq: "k = ?v ! min (length ?v - 1) (nat occ)" by simp
  with ne show mem: "k \<in> set ?v" by (auto intro!: nth_mem simp: min_def)
  then show "k < length w" and "visible (w ! k)" by (auto simp: visible_at_mem)
qed

lemma wstr_GetIth_nonempty:
  "0 \<le> occ \<Longrightarrow> visible_at w x \<noteq> [] \<Longrightarrow> \<exists>k. wstr_GetIthVisibleValue w occ x = Inr k"
  by (simp add: wstr_GetIthVisibleValue_def Let_def)

lemma wstr_GetIth_error:
  "wstr_GetIthVisibleValue w occ x = Inl e \<longleftrightarrow>
     occ < 0 \<and> e = Errorf (''occurrence index '' @ dec_int occ @ '' out of range'') \<or>
     0 \<le> occ \<and> visible_at w x = [] \<and> e = Errorf ''no elements are present to be deleted''"
  by (auto simp: wstr_GetIthVisibleValue_def Let_def)

end
