(* ===== verification/Operations.thy ===== *)
theory Operations
  imports Characters
begin

text \<open>
  \<open>cvrdt/operations.go\<close>: operations and their order.  A \<open>LogicalId\<close> is a site with the vector clock
  of the operation; \<open>HappenedBefore\<close> compares two clocks, \<open>less\<close> breaks the tie of concurrent
  operations by site, and \<open>Compare\<close> is the three-way comparison the sorted state is searched with.
  A \<open>nil\<close> clock and an empty one behave alike in every method, so both are the empty list.

  On well-formed clocks \<open>HappenedBefore\<close> is the strict pointwise order, so a strict partial order.
  \<open>Compare\<close> is not an order: it can be cyclic on the operations of three sites.  It is a linear order
  on the operations of two sites, which is what \<open>two_site_history\<close> describes.
\<close>

section \<open>The code\<close>

datatype op_type = Insertion | Deletion | OtherOp int

definition OpType_String :: "op_type \<Rightarrow> string" where
  "OpType_String ot = (case ot of Insertion \<Rightarrow> ''Insertion'' | Deletion \<Rightarrow> ''Deletion''
     | OtherOp n \<Rightarrow> ''Unknown'')"

record logical_id =
  lid_SiteId :: string
  lid_Clock :: clock_map

definition GetLogicalClock :: "logical_id \<Rightarrow> int" where
  "GetLogicalClock lid = (if lid_Clock lid = [] then 0 else clk_val (lid_Clock lid) (lid_SiteId lid))"

definition lid_equals :: "logical_id \<Rightarrow> logical_id \<Rightarrow> bool" where
  "lid_equals lid other \<longleftrightarrow>
     lid_SiteId lid = lid_SiteId other \<and> GetLogicalClock lid = GetLogicalClock other"

definition lid_String :: "logical_id \<Rightarrow> string" where
  "lid_String lid = lid_SiteId lid @ ''_'' @ dec_int (GetLogicalClock lid)"

text \<open>The first loop of \<open>HappenedBefore\<close>: \<open>None\<close> is its early \<open>return false\<close>, \<open>Some\<close> the flag
  \<open>strictlyLess\<close> when it ends.\<close>

fun hb_entries :: "clock_map \<Rightarrow> bool \<Rightarrow> clock_map \<Rightarrow> bool option" where
  "hb_entries other strictlyLess [] = Some strictlyLess"
| "hb_entries other strictlyLess ((site, clock) # es) =
     (let otherClock = clk_val other site
      in if clock > otherClock then None
         else hb_entries other (if clock < otherClock then True else strictlyLess) es)"

fun hb_extra :: "clock_map \<Rightarrow> bool \<Rightarrow> clock_map \<Rightarrow> bool" where
  "hb_extra lidClock strictlyLess [] = strictlyLess"
| "hb_extra lidClock strictlyLess ((site, clock) # es) =
     hb_extra lidClock
       (if map_of lidClock site = None \<and> clock > 0 then True else strictlyLess) es"

definition HappenedBefore :: "logical_id \<Rightarrow> logical_id \<Rightarrow> bool" where
  "HappenedBefore lid other =
     (if lid_Clock lid = [] then False
      else case hb_entries (lid_Clock other) False (lid_Clock lid) of
          None \<Rightarrow> False
        | Some strictlyLess \<Rightarrow> hb_extra (lid_Clock lid) strictlyLess (lid_Clock other))"

definition lid_less :: "logical_id \<Rightarrow> logical_id \<Rightarrow> bool" where
  "lid_less lid other =
     (if HappenedBefore lid other then True
      else if HappenedBefore other lid then False
      else lid_SiteId lid < lid_SiteId other)"

definition lid_Compare :: "logical_id \<Rightarrow> logical_id \<Rightarrow> int" where
  "lid_Compare lid other =
     (if lid_equals lid other then 0 else if lid_less lid other then -1 else 1)"

record woot_operation =
  woot_Id :: logical_id
  woot_Type :: op_type
  woot_Character :: wcharacter_data

record local_operation =
  loc_opType :: op_type
  loc_pos :: int
  loc_content :: string
  loc_id :: string

definition CreateNewLocalOp :: "op_type \<Rightarrow> int \<Rightarrow> string \<Rightarrow> string \<Rightarrow> local_operation" where
  "CreateNewLocalOp opType pos content ident =
     \<lparr>loc_opType = opType, loc_pos = pos, loc_content = content, loc_id = ident\<rparr>"

text \<open>The interface \<open>CRDTOperation\<close> with its two implementations.\<close>

datatype crdt_operation = Woot woot_operation | Local local_operation

fun OpId :: "crdt_operation \<Rightarrow> logical_id" where
  "OpId (Woot w) = woot_Id w"
| "OpId (Local l) = \<lparr>lid_SiteId = loc_id l, lid_Clock = [(loc_id l, 0)]\<rparr>"

fun Op :: "crdt_operation \<Rightarrow> op_type" where
  "Op (Woot w) = woot_Type w"
| "Op (Local l) = loc_opType l"

fun Op_Char :: "crdt_operation \<Rightarrow> string" where
  "Op_Char (Woot w) = data_AlphaValue (woot_Character w)"
| "Op_Char (Local l) = loc_content l"

definition CompareOperation :: "crdt_operation \<Rightarrow> crdt_operation \<Rightarrow> int" where
  "CompareOperation w other = lid_Compare (OpId w) (OpId other)"

section \<open>HappenedBefore is the strict pointwise order\<close>

lemma GetLogicalClock_alt: "GetLogicalClock l = clk_val (lid_Clock l) (lid_SiteId l)"
  by (simp add: GetLogicalClock_def)

lemma hb_entries_eq:
  "hb_entries ob s es =
     (if \<forall>(k, c) \<in> set es. c \<le> clk_val ob k
      then Some (s \<or> (\<exists>(k, c) \<in> set es. c < clk_val ob k)) else None)"
  by (induction ob s es rule: hb_entries.induct) (auto simp: Let_def)

lemma hb_extra_eq:
  "hb_extra m s es \<longleftrightarrow> s \<or> (\<exists>(k, c) \<in> set es. map_of m k = None \<and> c > 0)"
  by (induction m s es rule: hb_extra.induct) auto

definition clk_less :: "clock_map \<Rightarrow> clock_map \<Rightarrow> bool" where
  "clk_less a b \<longleftrightarrow> clk_le a b \<and> \<not> clk_le b a"

lemma clk_less_irrefl [simp]: "\<not> clk_less a a"
  by (simp add: clk_less_def)

lemma clk_less_trans: "clk_less a b \<Longrightarrow> clk_less b c \<Longrightarrow> clk_less a c"
  by (meson clk_le_trans clk_less_def)

lemma clk_le_less_trans: "clk_le a b \<Longrightarrow> clk_less b c \<Longrightarrow> clk_less a c"
  by (meson clk_le_trans clk_less_def)

lemma clk_val_mem: "distinct (map fst m) \<Longrightarrow> (k, c) \<in> set m \<Longrightarrow> clk_val m k = c"
  by (simp add: clk_val_def)

lemma entries_le_iff:
  assumes "clk_ok a" and "clk_ok b"
  shows "(\<forall>(k, c) \<in> set a. c \<le> clk_val b k) \<longleftrightarrow> clk_le a b"
proof
  assume all: "\<forall>(k, c) \<in> set a. c \<le> clk_val b k"
  show "clk_le a b"
    unfolding clk_le_def
  proof
    fix s
    show "clk_val a s \<le> clk_val b s"
    proof (cases "map_of a s")
      case None
      then show ?thesis using clk_ok_range(1) [OF assms(2)] by (simp add: clk_val_def)
    next
      case (Some c)
      then have "(s, c) \<in> set a" by (rule map_of_SomeD)
      with all Some show ?thesis by (auto simp: clk_val_def)
    qed
  qed
next
  assume "clk_le a b"
  then show "\<forall>(k, c) \<in> set a. c \<le> clk_val b k"
    using clk_val_mem [OF clk_ok_distinct [OF assms(1)]] by (fastforce simp: clk_le_def)
qed

lemma entries_less_iff:
  assumes "clk_ok a" and "clk_ok b" and "clk_le a b"
  shows "(\<exists>(k, c) \<in> set a. c < clk_val b k) \<or> (\<exists>(k, c) \<in> set b. map_of a k = None \<and> c > 0)
    \<longleftrightarrow> \<not> clk_le b a"
proof
  assume "(\<exists>(k, c) \<in> set a. c < clk_val b k) \<or> (\<exists>(k, c) \<in> set b. map_of a k = None \<and> c > 0)"
  then have "\<exists>s. clk_val a s < clk_val b s"
  proof
    assume "\<exists>(k, c) \<in> set a. c < clk_val b k"
    then show ?thesis
      using clk_val_mem [OF clk_ok_distinct [OF assms(1)]] by force
  next
    assume "\<exists>(k, c) \<in> set b. map_of a k = None \<and> c > 0"
    then obtain k c where "(k, c) \<in> set b" and "map_of a k = None" and "c > 0" by blast
    then show ?thesis
      using clk_val_mem [OF clk_ok_distinct [OF assms(2)], of k c] clk_val_None [of a k]
      by (intro exI [of _ k]) simp
  qed
  then show "\<not> clk_le b a" by (auto simp: clk_le_def not_le)
next
  assume "\<not> clk_le b a"
  then obtain s where s: "clk_val a s < clk_val b s" by (auto simp: clk_le_def not_le)
  show "(\<exists>(k, c) \<in> set a. c < clk_val b k) \<or> (\<exists>(k, c) \<in> set b. map_of a k = None \<and> c > 0)"
  proof (cases "map_of a s")
    case None
    with s have pos: "0 < clk_val b s" by (simp add: clk_val_def)
    then obtain c where "map_of b s = Some c" by (auto simp: clk_val_def split: option.splits)
    with pos None show ?thesis by (force simp: clk_val_def dest: map_of_SomeD)
  next
    case (Some c)
    with s show ?thesis by (force simp: clk_val_def dest: map_of_SomeD)
  qed
qed

lemma clk_less_empty: "clk_ok b \<Longrightarrow> clk_less [] b \<longleftrightarrow> (\<exists>s. 0 < clk_val b s)"
  using clk_ok_range(1) [of b] by (auto simp: clk_less_def clk_le_def not_le)

text \<open>The empty clock is below none: every clock of an operation has at least its site's entry.\<close>

lemma HappenedBefore_iff:
  assumes "clk_ok (lid_Clock a)" and "clk_ok (lid_Clock b)"
  shows "HappenedBefore a b \<longleftrightarrow> lid_Clock a \<noteq> [] \<and> clk_less (lid_Clock a) (lid_Clock b)"
proof (cases "clk_le (lid_Clock a) (lid_Clock b)")
  case True
  with entries_less_iff [OF assms True] show ?thesis
    by (simp add: HappenedBefore_def hb_entries_eq hb_extra_eq entries_le_iff [OF assms] clk_less_def)
next
  case False
  then show ?thesis
    by (simp add: HappenedBefore_def hb_entries_eq entries_le_iff [OF assms] clk_less_def)
qed

definition lid_ok :: "logical_id \<Rightarrow> bool" where
  "lid_ok l \<longleftrightarrow> clk_ok (lid_Clock l) \<and> 0 < GetLogicalClock l"

lemma lid_okD: "lid_ok l \<Longrightarrow> clk_ok (lid_Clock l)" "lid_ok l \<Longrightarrow> lid_Clock l \<noteq> []"
  by (auto simp: lid_ok_def GetLogicalClock_def)

lemma HappenedBefore_less:
  "lid_ok a \<Longrightarrow> lid_ok b \<Longrightarrow> HappenedBefore a b \<longleftrightarrow> clk_less (lid_Clock a) (lid_Clock b)"
  by (simp add: HappenedBefore_iff lid_okD)

lemma HappenedBefore_irrefl: "lid_ok a \<Longrightarrow> \<not> HappenedBefore a a"
  by (simp add: HappenedBefore_less)

lemma HappenedBefore_trans:
  "lid_ok a \<Longrightarrow> lid_ok b \<Longrightarrow> lid_ok c \<Longrightarrow> HappenedBefore a b \<Longrightarrow> HappenedBefore b c \<Longrightarrow>
   HappenedBefore a c"
  by (simp add: HappenedBefore_less) (rule clk_less_trans)

lemma HappenedBefore_asym:
  "lid_ok a \<Longrightarrow> lid_ok b \<Longrightarrow> HappenedBefore a b \<Longrightarrow> \<not> HappenedBefore b a"
  by (meson HappenedBefore_irrefl HappenedBefore_trans)

section \<open>The printed name of an operation\<close>

text \<open>\<open>String\<close> is the key of the history graph: two identifiers print alike exactly when \<open>equals\<close>
  identifies them.\<close>

lemma lid_String_eq_iff: "lid_String a = lid_String b \<longleftrightarrow> lid_equals a b"
  by (auto simp: lid_String_def lid_equals_def append_sep_eq_iff dec_int_not_underscore)

section \<open>Histories: operations whose clocks record causality\<close>

text \<open>
  The facts a set of operations made by \<open>GenerateIns\<close> and \<open>GenerateDel\<close> has: clocks are
  well-formed and count their own operation; an operation that knows another (its clock reaches
  the other's counter) knows all the other knew; and different operations have different clocks.
\<close>

definition history_ok :: "logical_id set \<Rightarrow> bool" where
  "history_ok H \<longleftrightarrow>
     (\<forall>a\<in>H. lid_ok a) \<and>
     (\<forall>a\<in>H. \<forall>b\<in>H. GetLogicalClock a \<le> clk_val (lid_Clock b) (lid_SiteId a) \<longrightarrow>
        clk_le (lid_Clock a) (lid_Clock b)) \<and>
     (\<forall>a\<in>H. \<forall>b\<in>H. clk_le (lid_Clock a) (lid_Clock b) \<and> clk_le (lid_Clock b) (lid_Clock a) \<longrightarrow> a = b)"

definition two_site_history :: "string \<Rightarrow> string \<Rightarrow> logical_id set \<Rightarrow> bool" where
  "two_site_history s t H \<longleftrightarrow> history_ok H \<and> (\<forall>a\<in>H. lid_SiteId a = s \<or> lid_SiteId a = t)"

lemma history_okD:
  assumes "history_ok H" and "a \<in> H"
  shows "lid_ok a"
    and "b \<in> H \<Longrightarrow> GetLogicalClock a \<le> clk_val (lid_Clock b) (lid_SiteId a) \<Longrightarrow>
      clk_le (lid_Clock a) (lid_Clock b)"
    and "b \<in> H \<Longrightarrow> clk_le (lid_Clock a) (lid_Clock b) \<Longrightarrow> clk_le (lid_Clock b) (lid_Clock a) \<Longrightarrow> a = b"
  using assms by (auto simp: history_ok_def)

lemma history_ok_subset: "history_ok H \<Longrightarrow> G \<subseteq> H \<Longrightarrow> history_ok G"
  unfolding history_ok_def by blast

lemma same_site_cases:
  assumes H: "history_ok H" "a \<in> H" "b \<in> H" and site: "lid_SiteId a = lid_SiteId b"
  shows "a = b \<or> HappenedBefore a b \<or> HappenedBefore b a"
proof -
  have "clk_le (lid_Clock a) (lid_Clock b) \<or> clk_le (lid_Clock b) (lid_Clock a)"
    using history_okD(2) [OF H] history_okD(2) [OF H(1,3,2)] site
    by (metis GetLogicalClock_alt linear)
  then show ?thesis
    using history_okD(3) [OF H] history_okD(1) [OF H(1,2)] history_okD(1) [OF H(1,3)]
    by (auto simp: HappenedBefore_less clk_less_def)
qed

lemma lid_equals_history:
  assumes "history_ok H" and "a \<in> H" and "b \<in> H"
  shows "lid_equals a b \<longleftrightarrow> a = b"
proof
  assume "lid_equals a b"
  then have "clk_le (lid_Clock a) (lid_Clock b)" and "clk_le (lid_Clock b) (lid_Clock a)"
    using history_okD(2) [OF assms] history_okD(2) [OF assms(1,3,2)]
    by (auto simp: lid_equals_def GetLogicalClock_alt)
  then show "a = b" by (rule history_okD(3) [OF assms])
qed (simp add: lid_equals_def)

lemma HB_lid_less: "HappenedBefore a b \<Longrightarrow> lid_less a b"
  by (simp add: lid_less_def)

lemma lid_less_cases:
  "lid_less a b \<Longrightarrow> HappenedBefore a b \<or>
     \<not> HappenedBefore a b \<and> \<not> HappenedBefore b a \<and> lid_SiteId a < lid_SiteId b"
  by (auto simp: lid_less_def split: if_splits)

lemma lid_less_total:
  "history_ok H \<Longrightarrow> a \<in> H \<Longrightarrow> b \<in> H \<Longrightarrow> a \<noteq> b \<Longrightarrow> lid_less a b \<or> lid_less b a"
  using same_site_cases [of H a b] linorder_neqE [of "lid_SiteId a" "lid_SiteId b"]
  by (auto simp: lid_less_def)

lemma lid_less_asym:
  "history_ok H \<Longrightarrow> a \<in> H \<Longrightarrow> b \<in> H \<Longrightarrow> lid_less a b \<Longrightarrow> \<not> lid_less b a"
  using HappenedBefore_asym [of a b] history_okD(1) [of H]
  by (auto simp: lid_less_def split: if_splits)

text \<open>A cycle of three operations needs three sites.\<close>

lemma no_cycle_same_site:
  assumes H: "history_ok H" "x \<in> H" "y \<in> H" "z \<in> H"
    and lt: "lid_less x y" "lid_less y z" "lid_less z x" and site: "lid_SiteId x = lid_SiteId y"
  shows False
proof -
  note ok = history_okD(1) [OF H(1,2)] history_okD(1) [OF H(1,3)] history_okD(1) [OF H(1,4)]
  have xy: "HappenedBefore x y"
    using lid_less_cases [OF lt(1)] site by auto
  have "\<not> HappenedBefore y z"
    using HappenedBefore_trans [OF ok xy] HB_lid_less lid_less_asym [OF H(1,4,2) lt(3)] by blast
  then have "lid_SiteId y < lid_SiteId z"
    using lid_less_cases [OF lt(2)] by blast
  moreover have "\<not> HappenedBefore z x"
    using HappenedBefore_trans [OF ok(3,1,2) _ xy] HB_lid_less lid_less_asym [OF H(1,3,4) lt(2)] by blast
  then have "lid_SiteId z < lid_SiteId x"
    using lid_less_cases [OF lt(3)] by blast
  ultimately show False using site by simp
qed

lemma lid_less_trans_two_sites:
  assumes H: "two_site_history s t H" "a \<in> H" "b \<in> H" "c \<in> H"
    and lt: "lid_less a b" "lid_less b c"
  shows "lid_less a c"
proof (rule ccontr)
  assume not: "\<not> lid_less a c"
  from H(1) have ok: "history_ok H" by (simp add: two_site_history_def)
  have "a \<noteq> c" using lid_less_asym [OF ok H(2,3) lt(1)] lt(2) by blast
  then have ca: "lid_less c a" using lid_less_total [OF ok H(2,4)] not by blast
  from H have "lid_SiteId a = lid_SiteId b \<or> lid_SiteId b = lid_SiteId c \<or> lid_SiteId c = lid_SiteId a"
    unfolding two_site_history_def by metis
  then show False
    using no_cycle_same_site [OF ok H(2,3,4) lt ca] no_cycle_same_site [OF ok H(3,4,2) lt(2) ca lt(1)]
      no_cycle_same_site [OF ok H(4,2,3) ca lt] by blast
qed

section \<open>Properties\<close>

text \<open>C29. On the clocks operations have, \<open>HappenedBefore\<close> is the strict pointwise order of vector
  clocks: the two loops over the maps and the early returns compute exactly that, in any order
  of iteration.\<close>

theorem HappenedBefore_is_causality:
  assumes "lid_ok a" and "lid_ok b"
  shows "HappenedBefore a b \<longleftrightarrow>
    (\<forall>s. clk_val (lid_Clock a) s \<le> clk_val (lid_Clock b) s) \<and>
    (\<exists>s. clk_val (lid_Clock a) s < clk_val (lid_Clock b) s)"
  using assms by (auto simp: HappenedBefore_less clk_less_def clk_le_def not_le)

theorem HappenedBefore_is_causality_witness:
  "HappenedBefore \<lparr>lid_SiteId = ''a'', lid_Clock = [(''a'', 1)]\<rparr>
     \<lparr>lid_SiteId = ''b'', lid_Clock = [(''b'', 1), (''a'', 1)]\<rparr>"
  by (subst HappenedBefore_is_causality)
    (auto simp: lid_ok_def clk_ok_def MaxValue_def GetLogicalClock_def clk_val_def)

text \<open>Two identifiers print alike exactly when \<open>equals\<close> identifies them, so the printed name is a
  faithful key, whatever characters the site ids contain.\<close>

theorem String_names_operation: "lid_String a = lid_String b \<longleftrightarrow> lid_equals a b"
  by (rule lid_String_eq_iff)

text \<open>\<open>Compare\<close> is not an order once three sites edit: there are three well-formed operations of a
  causal history each of which comes before the next in a circle.\<close>

theorem Compare_cycle:
  "\<exists>a b c. history_ok {a, b, c} \<and> lid_Compare a b < 0 \<and> lid_Compare b c < 0 \<and> lid_Compare c a < 0"
proof -
  define a where "a = \<lparr>lid_SiteId = ''3'', lid_Clock = [(''3'', 1)]\<rparr>"
  define b where "b = \<lparr>lid_SiteId = ''1'', lid_Clock = [(''3'', 1), (''1'', 1)]\<rparr>"
  define c where "c = \<lparr>lid_SiteId = ''2'', lid_Clock = [(''2'', 1)]\<rparr>"
  have val: "clk_val (lid_Clock a) s = (if s = ''3'' then 1 else 0)"
    "clk_val (lid_Clock b) s = (if s = ''3'' \<or> s = ''1'' then 1 else 0)"
    "clk_val (lid_Clock c) s = (if s = ''2'' then 1 else 0)" for s
    by (simp_all add: a_def b_def c_def clk_val_def)
  have ids: "lid_SiteId a = ''3''" "lid_SiteId b = ''1''" "lid_SiteId c = ''2''"
    by (simp_all add: a_def b_def c_def)
  have ok: "clk_ok (lid_Clock a)" "clk_ok (lid_Clock b)" "clk_ok (lid_Clock c)"
    by (simp_all add: a_def b_def c_def clk_ok_def MaxValue_def)
  have "\<not> clk_le (lid_Clock b) (lid_Clock a)" "\<not> clk_le (lid_Clock c) (lid_Clock a)"
    "\<not> clk_le (lid_Clock a) (lid_Clock c)" "\<not> clk_le (lid_Clock b) (lid_Clock c)"
    "\<not> clk_le (lid_Clock c) (lid_Clock b)" "clk_le (lid_Clock a) (lid_Clock b)"
    using clk_leD [of _ "lid_Clock a" "''1''"] clk_leD [of _ "lid_Clock a" "''2''"]
      clk_leD [of "lid_Clock a" _ "''3''"] clk_leD [of "lid_Clock b" _ "''3''"] clk_leD [of _ "lid_Clock b" "''2''"]
    by (fastforce simp: val, fastforce simp: val, fastforce simp: val, fastforce simp: val,
      fastforce simp: val, simp add: clk_le_def val)
  moreover have "lid_ok a" "lid_ok b" "lid_ok c"
    using ok by (simp_all add: lid_ok_def GetLogicalClock_alt val ids)
  ultimately have "history_ok {a, b, c}"
    by (simp add: history_ok_def GetLogicalClock_alt val ids)
  moreover have "lid_Compare a b < 0" "lid_Compare b c < 0" "lid_Compare c a < 0"
    unfolding a_def b_def c_def by code_simp+
  ultimately show ?thesis by blast
qed

end
