(* ===== verification/Sites.thy ===== *)
theory Sites
  imports WStrings Operations
begin

text \<open>
  \<open>cvrdt/site.go\<close>: a site of the WOOT algorithm, its clock, its string and the operations that wait
  for their context.  A method that changes the site returns the changed site; \<open>ComputeOp\<close> returns
  the operation and the error, since \<open>UpdateState\<close> uses both.  \<open>IntegrateIns\<close> and
  \<open>tryComputePendings\<close> recurse without a bound, so they are partial functions: a call of theirs that
  never ends is \<open>None\<close> and makes its caller \<open>Hang\<close>.

  Cells are passed by value where the code passes pointers: nothing writes to a cell between the
  lookup that yields the pointer and its last use, except \<open>IntegrateDel\<close>, whose pointer is the
  index of the cell in the string.
\<close>

section \<open>The code\<close>

record site =
  site_id :: string
  site_clock :: vector_clock
  characters :: wstring
  pendingOps :: "woot_operation list"

definition NewSite :: "string \<Rightarrow> site" where
  "NewSite siteId =
     \<lparr>site_id = siteId, site_clock = NewVectorClock siteId, characters = NewWString siteId,
      pendingOps = []\<rparr>"

text \<open>Go's zero value \<open>WootOperation{}\<close>, which goes with an error.\<close>

definition zero_wid :: wchar_id where
  "zero_wid = WCharacterId '''' 0"

definition zero_woot :: woot_operation where
  "zero_woot =
     \<lparr>woot_Id = \<lparr>lid_SiteId = '''', lid_Clock = []\<rparr>, woot_Type = Insertion,
      woot_Character =
        \<lparr>data_Id = zero_wid, data_AlphaValue = '''', data_Visible = False,
         data_PreviousId = zero_wid, data_NextId = zero_wid\<rparr>\<rparr>"

definition IsExecutable :: "site \<Rightarrow> woot_operation \<Rightarrow> bool" where
  "IsExecutable s op =
     (let targetWChar = wchar_Import (woot_Character op);
          special = (\<lambda>i. IsSpecialWChar
            (case wstr_GetById (characters s) i of None \<Rightarrow> None | Some k \<Rightarrow> Some (characters s ! k)))
      in woot_Type op = Deletion \<and> wstr_Contains (characters s) (wid targetWChar) \<or>
         (wstr_Contains (characters s) (previousId targetWChar) \<or> special (previousId targetWChar)) \<and>
         (wstr_Contains (characters s) (nextId targetWChar) \<or> special (nextId targetWChar)))"

text \<open>The cells of \<open>L\<close> that the loop of \<open>IntegrateIns\<close> keeps.\<close>

definition encloses :: "wstring \<Rightarrow> wcharacter \<Rightarrow> wcharacter \<Rightarrow> wcharacter \<Rightarrow> bool" where
  "encloses w wprev wnext di =
     (let posCPDi = wstr_GetPos w (previousId di); posCNDi = wstr_GetPos w (nextId di);
          posCP = wstr_GetPos w (wid wprev); posCN = wstr_GetPos w (wid wnext)
      in posCPDi \<noteq> -1 \<and> posCNDi \<noteq> -1 \<and> posCPDi \<le> posCP \<and> posCN \<le> posCNDi)"

function scan_less :: "wcharacter list \<Rightarrow> wcharacter \<Rightarrow> nat \<Rightarrow> nat" where
  "scan_less L wchar i =
     (if i < length L - 1 \<and> wchar_Less (L ! i) wchar then scan_less L wchar (i + 1) else i)"
  by pat_completeness auto
termination
  by (relation "measure (\<lambda>(L, wchar, i). length L - i)") auto

declare scan_less.simps [simp del]

text \<open>The string after the integration; the error of \<open>Insert\<close> is dropped, as in the code.\<close>

partial_function (option) integrate_ins ::
  "wstring \<Rightarrow> wcharacter \<Rightarrow> wcharacter \<Rightarrow> wcharacter \<Rightarrow> wstring option" where
  [code]: "integrate_ins w wchar wprev wnext =
     (let subStr = wstr_SubSeq w wprev wnext
      in if length subStr = 0
         then Some (case wstr_Insert w wchar (wstr_GetPos w (wid wnext)) of
              Inl err \<Rightarrow> w | Inr w' \<Rightarrow> w')
         else let L = [wprev] @ filter (encloses w wprev wnext) subStr @ [wnext];
                  i = scan_less L wchar 1
              in integrate_ins w wchar (L ! (i - 1)) (L ! i))"

definition IntegrateIns :: "site \<Rightarrow> wcharacter \<Rightarrow> wcharacter \<Rightarrow> wcharacter \<Rightarrow> site go" where
  "IntegrateIns s wchar wprev wnext =
     go_bind (of_loop (integrate_ins (characters s) wchar wprev wnext))
       (\<lambda>w. Ret (s\<lparr>characters := w\<rparr>))"

text \<open>The pointer is \<open>nil\<close> if the lookup failed; writing through it panics.\<close>

definition IntegrateDel :: "site \<Rightarrow> nat option \<Rightarrow> site go" where
  "IntegrateDel s p = (case p of None \<Rightarrow> Panic
     | Some k \<Rightarrow> Ret (s\<lparr>characters := (characters s)[k := (characters s ! k)\<lparr>visible := False\<rparr>]\<rparr>))"

definition pending_msg :: "woot_operation \<Rightarrow> string" where
  "pending_msg op =
     ''Operation with id '' @ lid_String (woot_Id op) @ '' cannot currently be executed''"

definition computeExtOp :: "site \<Rightarrow> woot_operation \<Rightarrow> (site \<times> go_error option) go" where
  "computeExtOp s op =
     (if IsExecutable s op then
        let s1 = s\<lparr>site_clock := vc_Update (site_clock s) (lid_Clock (woot_Id op))\<rparr>;
            char = wchar_Import (woot_Character op)
        in go_bind
             (if woot_Type op = Deletion then IntegrateDel s1 (wstr_GetById (characters s1) (wid char))
              else case (wstr_GetById (characters s1) (previousId char),
                         wstr_GetById (characters s1) (nextId char)) of
                  (Some p, Some n) \<Rightarrow> IntegrateIns s1 char (characters s1 ! p) (characters s1 ! n)
                | _ \<Rightarrow> Panic)
             (\<lambda>s2. Ret (s2, None))
      else Ret (s\<lparr>pendingOps := pendingOps s @ [op]\<rparr>, Some (ErrPendingState (pending_msg op))))"

text \<open>The loop of \<open>tryComputePendings\<close> from index \<open>i\<close>, with its restart on success.\<close>

partial_function (option) try_pendings :: "site \<Rightarrow> nat \<Rightarrow> site go option" where
  [code]: "try_pendings s i =
     (if i < length (pendingOps s) then
        (case computeExtOp s (pendingOps s ! i) of
           Ret (s', err) \<Rightarrow>
             (if err = None
              then try_pendings
                (s'\<lparr>pendingOps := take i (pendingOps s') @ drop (i + 1) (pendingOps s')\<rparr>) 0
              else try_pendings s' (i + 1))
         | Panic \<Rightarrow> Some Panic
         | Hang \<Rightarrow> Some Hang)
      else Some (Ret s))"

definition tryComputePendings :: "site \<Rightarrow> site go" where
  "tryComputePendings s = of_go_loop (try_pendings s 0)"

definition GenerateIns :: "site \<Rightarrow> int \<Rightarrow> string \<Rightarrow> (site \<times> woot_operation \<times> go_error option) go" where
  "GenerateIns s pos str =
     (let s1 = s\<lparr>site_clock := snd (vc_Increment (site_clock s))\<rparr>;
          clockSnapshot = vc_Copy (site_clock s1);
          lamportClock = vc_Value (site_clock s1)
      in case wstr_GetIthVisibleValue (characters s1) pos False of
           Inl err \<Rightarrow> Ret (s1, zero_woot, Some err)
         | Inr p \<Rightarrow>
             (case wstr_GetIthVisibleValue (characters s1) (wrap64 (pos + 1)) False of
                Inl err \<Rightarrow> Ret (s1, zero_woot, Some err)
              | Inr n \<Rightarrow>
                  let prevChar = characters s1 ! p; nextChar = characters s1 ! n;
                      wchar = \<lparr>wid = WCharacterId (site_id s1) lamportClock, alphaValue = str,
                        visible = True, previousId = wid prevChar, nextId = wid nextChar\<rparr>
                  in go_bind (IntegrateIns s1 wchar prevChar nextChar)
                       (\<lambda>s2. Ret (s2,
                          \<lparr>woot_Id = \<lparr>lid_SiteId = site_id s1, lid_Clock = clockSnapshot\<rparr>,
                           woot_Type = Insertion, woot_Character = wchar_Export wchar\<rparr>, None))))"

definition GenerateDel :: "site \<Rightarrow> int \<Rightarrow> (site \<times> woot_operation \<times> go_error option) go" where
  "GenerateDel s pos =
     (case wstr_GetIthVisibleValue (characters s) pos True of
        Inl err \<Rightarrow> Ret (s, zero_woot, Some err)
      | Inr k \<Rightarrow>
          let s1 = s\<lparr>site_clock := snd (vc_Increment (site_clock s))\<rparr>;
              clockSnapshot = vc_Copy (site_clock s1)
          in go_bind (IntegrateDel s1 (Some k))
               (\<lambda>s2. Ret (s2,
                  \<lparr>woot_Id = \<lparr>lid_SiteId = site_id s2, lid_Clock = clockSnapshot\<rparr>,
                   woot_Type = Deletion, woot_Character = wchar_Export (characters s2 ! k)\<rparr>, None)))"

definition ComputeOp :: "site \<Rightarrow> crdt_operation \<Rightarrow> (site \<times> woot_operation \<times> go_error option) go" where
  "ComputeOp s operation =
     (case operation of
        Woot op \<Rightarrow>
          go_bind (computeExtOp s op)
            (\<lambda>(s1, err). if err = None
               then go_bind (tryComputePendings s1) (\<lambda>s2. Ret (s2, op, err))
               else Ret (s1, op, err))
      | Local op \<Rightarrow>
          if loc_opType op = Insertion then GenerateIns s (loc_pos op) (loc_content op)
          else GenerateDel s (loc_pos op))"

definition GetCurrentData :: "site \<Rightarrow> string" where
  "GetCurrentData s = wstr_GetVisibleContent (characters s)"

section \<open>Executability\<close>

text \<open>The test for special cells adds nothing: a cell that is not contained is not found.\<close>

lemma special_missing: "wstr_GetById w i = None \<Longrightarrow> \<not> IsSpecialWChar
    (case wstr_GetById w i of None \<Rightarrow> None | Some k \<Rightarrow> Some (w ! k))"
  by (simp add: IsSpecialWChar_def)

lemma contains_special:
  "wstr_Contains w i \<or> IsSpecialWChar (case wstr_GetById w i of None \<Rightarrow> None | Some k \<Rightarrow> Some (w ! k))
   \<longleftrightarrow> cid_norm i \<in> set (refs w)"
  using special_missing [of w i] by (auto simp: wstr_Contains_iff wstr_GetById_None)

lemma IsExecutable_iff:
  "IsExecutable s op \<longleftrightarrow>
     woot_Type op = Deletion \<and> cid_norm (data_Id (woot_Character op)) \<in> set (refs (characters s)) \<or>
     cid_norm (data_PreviousId (woot_Character op)) \<in> set (refs (characters s)) \<and>
     cid_norm (data_NextId (woot_Character op)) \<in> set (refs (characters s))"
  unfolding IsExecutable_def Let_def contains_special
  by (simp add: wstr_Contains_iff wchar_Import_def)

section \<open>Pending operations\<close>

lemma computeExtOp_pending:
  "\<not> IsExecutable s op \<Longrightarrow>
   computeExtOp s op = Ret (s\<lparr>pendingOps := pendingOps s @ [op]\<rparr>, Some (ErrPendingState (pending_msg op)))"
  by (simp add: computeExtOp_def)

lemma IsExecutable_pendingOps [simp]: "IsExecutable (s\<lparr>pendingOps := ps\<rparr>) op = IsExecutable s op"
  by (simp add: IsExecutable_iff)

lemma try_pendings_Nil: "pendingOps s = [] \<Longrightarrow> try_pendings s i = Some (Ret s)"
  by (simp add: try_pendings.simps)

lemma tryComputePendings_Nil: "pendingOps s = [] \<Longrightarrow> tryComputePendings s = Ret s"
  by (simp add: tryComputePendings_def try_pendings_Nil)

text \<open>The loop appends the operation it could not run, so it meets a pending operation at every
  later index: with no executable one it never ends.\<close>

lemma try_pendings_stuck:
  assumes "try_pendings s i = Some r"
  shows "i < length (pendingOps s) \<longrightarrow> (\<exists>op\<in>set (pendingOps s). IsExecutable s op)"
proof (rule try_pendings.raw_induct [where P = "\<lambda>s i r. i < length (pendingOps s) \<longrightarrow>
    (\<exists>op\<in>set (pendingOps s). IsExecutable s op)", OF _ assms])
  fix rec :: "site \<Rightarrow> nat \<Rightarrow> site go option" and s i r
  assume IH: "\<And>s i r. rec s i = Some r \<Longrightarrow> i < length (pendingOps s) \<longrightarrow>
      (\<exists>op\<in>set (pendingOps s). IsExecutable s op)"
    and step: "(if i < length (pendingOps s) then
        (case computeExtOp s (pendingOps s ! i) of
           Ret (s', err) \<Rightarrow>
             (if err = None
              then rec (s'\<lparr>pendingOps := take i (pendingOps s') @ drop (i + 1) (pendingOps s')\<rparr>) 0
              else rec s' (i + 1))
         | Panic \<Rightarrow> Some Panic
         | Hang \<Rightarrow> Some Hang)
      else Some (Ret s)) = Some r"
  let ?s = "s\<lparr>pendingOps := pendingOps s @ [pendingOps s ! i]\<rparr>"
  show "i < length (pendingOps s) \<longrightarrow> (\<exists>op\<in>set (pendingOps s). IsExecutable s op)"
  proof (intro impI, rule ccontr)
    assume i: "i < length (pendingOps s)" and no: "\<not> (\<exists>op\<in>set (pendingOps s). IsExecutable s op)"
    then have "\<not> IsExecutable s (pendingOps s ! i)" using nth_mem by blast
    with step i have "rec ?s (i + 1) = Some r" by (simp add: computeExtOp_pending)
    from IH [OF this] i no show False by auto
  qed
qed

lemma tryComputePendings_hang:
  "pendingOps s \<noteq> [] \<Longrightarrow> (\<forall>op\<in>set (pendingOps s). \<not> IsExecutable s op) \<Longrightarrow>
   tryComputePendings s = Hang"
  using try_pendings_stuck [of s 0] by (cases "try_pendings s 0") (auto simp: tryComputePendings_def)

section \<open>When the code panics or never ends\<close>

text \<open>\<open>IntegrateIns\<close> calls itself with the same arguments when there are cells between the neighbours
  but none of them encloses: it never ends.\<close>

lemma integrate_ins_stuck:
  assumes "integrate_ins w c p n = Some r"
  shows "wstr_SubSeq w p n \<noteq> [] \<longrightarrow> filter (encloses w p n) (wstr_SubSeq w p n) \<noteq> []"
proof (rule integrate_ins.raw_induct [where P = "\<lambda>w c p n r. wstr_SubSeq w p n \<noteq> [] \<longrightarrow>
    filter (encloses w p n) (wstr_SubSeq w p n) \<noteq> []", OF _ assms])
  fix rec :: "wstring \<Rightarrow> wcharacter \<Rightarrow> wcharacter \<Rightarrow> wcharacter \<Rightarrow> wstring option" and w c p n r
  assume IH: "\<And>w c p n r. rec w c p n = Some r \<Longrightarrow> wstr_SubSeq w p n \<noteq> [] \<longrightarrow>
      filter (encloses w p n) (wstr_SubSeq w p n) \<noteq> []"
    and step: "(let subStr = wstr_SubSeq w p n
      in if length subStr = 0
         then Some (case wstr_Insert w c (wstr_GetPos w (wid n)) of Inl err \<Rightarrow> w | Inr w' \<Rightarrow> w')
         else let L = [p] @ filter (encloses w p n) subStr @ [n]; i = scan_less L c 1
              in rec w c (L ! (i - 1)) (L ! i)) = Some r"
  show "wstr_SubSeq w p n \<noteq> [] \<longrightarrow> filter (encloses w p n) (wstr_SubSeq w p n) \<noteq> []"
  proof (intro impI notI)
    assume sub: "wstr_SubSeq w p n \<noteq> []" and none: "filter (encloses w p n) (wstr_SubSeq w p n) = []"
    have "scan_less [p, n] c 1 = 1" by (simp add: scan_less.simps)
    with step sub none have "rec w c p n = Some r" by simp
    from IH [OF this] sub none show False by simp
  qed
qed

lemma integrate_ins_hang:
  "wstr_SubSeq w p n \<noteq> [] \<Longrightarrow> filter (encloses w p n) (wstr_SubSeq w p n) = [] \<Longrightarrow>
   integrate_ins w c p n = None"
  using integrate_ins_stuck [of w c p n] by (cases "integrate_ins w c p n") auto

lemma computeExtOp_executable_ins:
  assumes "IsExecutable s op" and "woot_Type op \<noteq> Deletion"
  shows "computeExtOp s op \<noteq> Panic"
proof -
  from assms obtain p n where "wstr_GetById (characters s) (data_PreviousId (woot_Character op)) = Some p"
    and "wstr_GetById (characters s) (data_NextId (woot_Character op)) = Some n"
    by (auto simp: IsExecutable_iff elim!: wstr_GetPos_Some)
  then show ?thesis
    using assms
    by (cases "integrate_ins (characters s) (wchar_Import (woot_Character op)) (characters s ! p) (characters s ! n)")
      (simp_all add: computeExtOp_def Let_def IntegrateIns_def wchar_Import_def)
qed

text \<open>The precedence in \<open>IsExecutable\<close>: a deletion whose target is absent counts as executable when
  the neighbours of its target are there.\<close>

lemma computeExtOp_panics:
  "computeExtOp s op = Panic \<longleftrightarrow>
     woot_Type op = Deletion \<and> \<not> wstr_Contains (characters s) (data_Id (woot_Character op)) \<and>
     wstr_Contains (characters s) (data_PreviousId (woot_Character op)) \<and>
     wstr_Contains (characters s) (data_NextId (woot_Character op))"
proof (cases "IsExecutable s op")
  case False
  then show ?thesis by (auto simp: computeExtOp_def IsExecutable_iff wstr_Contains_iff)
next
  case True
  show ?thesis
  proof (cases "woot_Type op = Deletion")
    case False
    with computeExtOp_executable_ins [OF True] show ?thesis by simp
  next
    case del: True
    have "computeExtOp s op = Panic \<longleftrightarrow> wstr_GetById (characters s) (data_Id (woot_Character op)) = None"
      using True del
      by (cases "wstr_GetById (characters s) (data_Id (woot_Character op))")
        (simp_all add: computeExtOp_def Let_def IntegrateDel_def wchar_Import_def)
    with True del show ?thesis by (auto simp: wstr_GetById_None wstr_Contains_iff IsExecutable_iff)
  qed
qed

section \<open>Properties\<close>

text \<open>A site that holds nothing, and operations on it.\<close>

definition stray_ins :: woot_operation where
  "stray_ins = \<lparr>woot_Id = \<lparr>lid_SiteId = ''b'', lid_Clock = [(''b'', 2)]\<rparr>, woot_Type = Insertion,
     woot_Character = \<lparr>data_Id = WCharacterId ''b'' 2, data_AlphaValue = ''y'', data_Visible = True,
       data_PreviousId = WCharacterId ''b'' 1, data_NextId = WCharacterId ''b'' MaxValue\<rparr>\<rparr>"

definition stray_del :: woot_operation where
  "stray_del = \<lparr>woot_Id = \<lparr>lid_SiteId = ''b'', lid_Clock = [(''b'', 2)]\<rparr>, woot_Type = Deletion,
     woot_Character = \<lparr>data_Id = WCharacterId ''b'' 1, data_AlphaValue = ''y'', data_Visible = False,
       data_PreviousId = WCharacterId ''b'' 0, data_NextId = WCharacterId ''b'' MaxValue\<rparr>\<rparr>"

definition good_ins :: woot_operation where
  "good_ins = \<lparr>woot_Id = \<lparr>lid_SiteId = ''c'', lid_Clock = [(''c'', 1)]\<rparr>, woot_Type = Insertion,
     woot_Character = \<lparr>data_Id = WCharacterId ''c'' 1, data_AlphaValue = ''z'', data_Visible = True,
       data_PreviousId = WCharacterId ''c'' 0, data_NextId = WCharacterId ''c'' MaxValue\<rparr>\<rparr>"

text \<open>C33. Once an operation is pending, the next operation that succeeds makes the site loop for ever,
  unless one of the pending operations has become executable: \<open>tryComputePendings\<close> appends what it
  cannot run to the list it walks through.\<close>

theorem ComputeOp_hangs:
  assumes "computeExtOp s op = Ret (s', None)" and "pendingOps s' \<noteq> []"
    and "\<forall>p\<in>set (pendingOps s'). \<not> IsExecutable s' p"
  shows "ComputeOp s (Woot op) = Hang"
  using assms by (simp add: ComputeOp_def tryComputePendings_hang)

theorem ComputeOp_hangs_witness:
  "ComputeOp ((NewSite ''a'')\<lparr>pendingOps := [stray_ins]\<rparr>) (Woot good_ins) = Hang"
proof -
  let ?s = "(NewSite ''a'')\<lparr>pendingOps := [stray_ins]\<rparr>"
  let ?s' = "\<lparr>site_id = ''a'', site_clock = \<lparr>localId = ''a'', clocks = [(''a'', 0), (''c'', 1)]\<rparr>,
     characters = [GetNewSpecialStartWChar ''a'', wchar_Import (woot_Character good_ins), GetNewSpecialEndWChar ''a''],
     pendingOps = [stray_ins]\<rparr>"
  have run: "computeExtOp ?s good_ins = Ret (?s', None)" by code_simp
  have pend: "pendingOps ?s' = [stray_ins]" by simp
  have "\<not> IsExecutable ?s' stray_ins" by code_simp
  then have "\<forall>p\<in>set (pendingOps ?s'). \<not> IsExecutable ?s' p" unfolding pend by simp
  moreover have "pendingOps ?s' \<noteq> []" unfolding pend by simp
  ultimately show ?thesis by (intro ComputeOp_hangs [OF run])
qed

text \<open>A received operation makes the site panic exactly when it is a deletion whose target has not
  arrived while the two cells around the target have; an insertion never does.\<close>

theorem computeExtOp_panic_iff:
  "computeExtOp s op = Panic \<longleftrightarrow>
     woot_Type op = Deletion \<and> \<not> wstr_Contains (characters s) (data_Id (woot_Character op)) \<and>
     wstr_Contains (characters s) (data_PreviousId (woot_Character op)) \<and>
     wstr_Contains (characters s) (data_NextId (woot_Character op))"
  by (rule computeExtOp_panics)

text \<open>C34. A deletion that overtakes its insertion panics the receiver, already on a new site; and three
  local edits, an insertion past the end, its deletion and an insertion at the start, end in a
  recursion without end.\<close>

theorem site_crashes:
  "ComputeOp (NewSite ''a'') (Woot stray_del) = Panic \<and>
   (\<exists>s1 op1 s2 op2.
     ComputeOp (NewSite ''a'') (Local (CreateNewLocalOp Insertion 1 ''x'' ''a'')) = Ret (s1, op1, None) \<and>
     ComputeOp s1 (Local (CreateNewLocalOp Deletion 0 '''' ''a'')) = Ret (s2, op2, None) \<and>
     ComputeOp s2 (Local (CreateNewLocalOp Insertion 0 ''y'' ''a'')) = Hang)"
proof
  show "ComputeOp (NewSite ''a'') (Woot stray_del) = Panic" by code_simp
  define x where "x = \<lparr>wid = WCharacterId ''a'' 1, alphaValue = ''x'', visible = False,
    previousId = WCharacterId ''a'' MaxValue, nextId = WCharacterId ''a'' MaxValue\<rparr>"
  define w where "w v = [GetNewSpecialStartWChar ''a'', x\<lparr>visible := v\<rparr>, GetNewSpecialEndWChar ''a'']" for v
  define st where "st k v = \<lparr>site_id = ''a'', site_clock = \<lparr>localId = ''a'', clocks = [(''a'', k)]\<rparr>,
    characters = w v, pendingOps = []\<rparr>" for k v
  note defs = st_def w_def x_def
  have "ComputeOp (NewSite ''a'') (Local (CreateNewLocalOp Insertion 1 ''x'' ''a'')) =
      Ret (st 1 True, \<lparr>woot_Id = \<lparr>lid_SiteId = ''a'', lid_Clock = [(''a'', 1)]\<rparr>, woot_Type = Insertion,
        woot_Character = wchar_Export (x\<lparr>visible := True\<rparr>)\<rparr>, None)"
    unfolding defs by code_simp
  moreover have "ComputeOp (st 1 True) (Local (CreateNewLocalOp Deletion 0 '''' ''a'')) =
      Ret (st 2 False, \<lparr>woot_Id = \<lparr>lid_SiteId = ''a'', lid_Clock = [(''a'', 2)]\<rparr>, woot_Type = Deletion,
        woot_Character = wchar_Export x\<rparr>, None)"
    unfolding defs by code_simp
  moreover have "ComputeOp (st 2 False) (Local (CreateNewLocalOp Insertion 0 ''y'' ''a'')) = Hang"
  proof -
    let ?w = "w False" and ?p = "GetNewSpecialStartWChar ''a''" and ?n = "GetNewSpecialEndWChar ''a''"
    have sub: "wstr_SubSeq ?w ?p ?n = [x]" unfolding defs by code_simp
    have no: "filter (encloses ?w ?p ?n) [x] = []" unfolding defs by code_simp
    have hang: "integrate_ins ?w c ?p ?n = None" for c
      by (rule integrate_ins_hang) (simp add: sub, simp only: sub no)
    have ith: "wstr_GetIthVisibleValue ?w 0 False = Inr 0" "wstr_GetIthVisibleValue ?w (wrap64 (0 + 1)) False = Inr 2"
      unfolding defs by code_simp+
    have "?w ! 0 = ?p" "?w ! 2 = ?n" by (simp_all add: w_def)
    then show ?thesis
      using hang ith
      by (simp add: ComputeOp_def CreateNewLocalOp_def GenerateIns_def Let_def st_def IntegrateIns_def)
  qed
  ultimately show "\<exists>s1 op1 s2 op2.
     ComputeOp (NewSite ''a'') (Local (CreateNewLocalOp Insertion 1 ''x'' ''a'')) = Ret (s1, op1, None) \<and>
     ComputeOp s1 (Local (CreateNewLocalOp Deletion 0 '''' ''a'')) = Ret (s2, op2, None) \<and>
     ComputeOp s2 (Local (CreateNewLocalOp Insertion 0 ''y'' ''a'')) = Hang"
    by blast
qed

end
