(* ===== verification/Keys.thy ===== *)
theory Keys
  imports Characters
begin

text \<open>
  Sort keys: a dense order in which every cell of a WOOT string gets a place that depends only on its
  identifier and on the places of its two neighbours at creation.  A key is a path in a tree in
  which, at each level, the identifiers are laid out in their order and every identifier has a gap
  before it (\<open>Lft\<close>) and a gap after it (\<open>Rgt\<close>), each holding a copy of the tree.  The place of
  an identifier in an interval is the one nearest to the root.

  The locale \<open>sort_keys\<close> states the three laws by which the integration of cells is proved to be
  independent of the order of arrival; \<open>psi\<close> is the instance.  Nothing in this theory models code.
\<close>

section \<open>Keys and their order\<close>

datatype key = Mid wchar_id | Lft wchar_id key | Rgt wchar_id key

fun key_id :: "key \<Rightarrow> wchar_id" where
  "key_id (Mid a) = a" | "key_id (Lft a k) = a" | "key_id (Rgt a k) = a"

fun key_less :: "key \<Rightarrow> key \<Rightarrow> bool" where
  "key_less (Mid a) (Mid b) \<longleftrightarrow> a < b"
| "key_less (Mid a) (Lft b _) \<longleftrightarrow> a < b"
| "key_less (Mid a) (Rgt b _) \<longleftrightarrow> a \<le> b"
| "key_less (Lft a _) (Mid b) \<longleftrightarrow> a \<le> b"
| "key_less (Lft a k) (Lft b l) \<longleftrightarrow> a < b \<or> a = b \<and> key_less k l"
| "key_less (Lft a _) (Rgt b _) \<longleftrightarrow> a \<le> b"
| "key_less (Rgt a _) (Mid b) \<longleftrightarrow> a < b"
| "key_less (Rgt a _) (Lft b _) \<longleftrightarrow> a < b"
| "key_less (Rgt a k) (Rgt b l) \<longleftrightarrow> a < b \<or> a = b \<and> key_less k l"

instantiation key :: linorder
begin

definition less_key_def: "(a :: key) < b \<longleftrightarrow> key_less a b"

definition less_eq_key_def: "(a :: key) \<le> b \<longleftrightarrow> key_less a b \<or> a = b"

lemma key_less_irrefl: "\<not> key_less k k"
  by (induction k) auto

lemma key_less_trans: "key_less a b \<Longrightarrow> key_less b c \<Longrightarrow> key_less a c"
proof (induction a arbitrary: b c)
  case (Mid a)
  then show ?case by (cases b; cases c) auto
next
  case (Lft a k)
  then show ?case by (cases b; cases c) (auto intro: order_less_imp_le)
next
  case (Rgt a k)
  then show ?case by (cases b; cases c) auto
qed

lemma key_less_total: "key_less a b \<or> a = b \<or> key_less b a"
proof (induction a arbitrary: b)
  case (Mid a)
  then show ?case by (cases b) auto
next
  case (Lft a k)
  then show ?case by (cases b) auto
next
  case (Rgt a k)
  then show ?case by (cases b) auto
qed

instance
  by standard
    (use key_less_irrefl key_less_trans key_less_total in
      \<open>auto simp: less_key_def less_eq_key_def; blast\<close>)+

end

lemma less_key_simps [simp]:
  "Mid a < Mid b \<longleftrightarrow> a < b" "Mid a < Lft b l \<longleftrightarrow> a < b" "Mid a < Rgt b l \<longleftrightarrow> a \<le> b"
  "Lft a k < Mid b \<longleftrightarrow> a \<le> b" "Lft a k < Lft b l \<longleftrightarrow> a < b \<or> a = b \<and> k < l"
  "Lft a k < Rgt b l \<longleftrightarrow> a \<le> b"
  "Rgt a k < Mid b \<longleftrightarrow> a < b" "Rgt a k < Lft b l \<longleftrightarrow> a < b"
  "Rgt a k < Rgt b l \<longleftrightarrow> a < b \<or> a = b \<and> k < l"
  by (simp_all add: less_key_def)

section \<open>Intervals: a missing bound is unbounded\<close>

datatype bound = Lo | At key | Hi

fun bound_less :: "bound \<Rightarrow> bound \<Rightarrow> bool" where
  "bound_less (At k) (At l) \<longleftrightarrow> k < l"
| "bound_less Lo b \<longleftrightarrow> b \<noteq> Lo"
| "bound_less Hi b \<longleftrightarrow> False"
| "bound_less (At k) Hi \<longleftrightarrow> True"
| "bound_less (At k) Lo \<longleftrightarrow> False"

instantiation bound :: linorder
begin

definition less_bound_def: "(a :: bound) < b \<longleftrightarrow> bound_less a b"

definition less_eq_bound_def: "(a :: bound) \<le> b \<longleftrightarrow> bound_less a b \<or> a = b"

instance
proof
  fix a b c :: bound
  show "(a < b) = (a \<le> b \<and> \<not> b \<le> a)"
    by (cases a; cases b) (auto simp: less_bound_def less_eq_bound_def)
  show "a \<le> a" by (simp add: less_eq_bound_def)
  show "a \<le> b \<Longrightarrow> b \<le> c \<Longrightarrow> a \<le> c"
    by (cases a; cases b; cases c) (auto simp: less_eq_bound_def)
  show "a \<le> b \<Longrightarrow> b \<le> a \<Longrightarrow> a = b"
    by (cases a; cases b) (auto simp: less_eq_bound_def)
  show "a \<le> b \<or> b \<le> a"
    by (cases a; cases b) (auto simp: less_eq_bound_def)
qed

end

lemma less_bound_simps [simp]:
  "At k < At l \<longleftrightarrow> k < l" "Lo < At k" "At k < Hi" "Lo < Hi"
  "\<not> At k < Lo" "\<not> Hi < b" "\<not> b < Lo"
  by (simp_all add: less_bound_def) (cases b; simp)+

lemma le_bound_simps [simp]:
  "At k \<le> At l \<longleftrightarrow> k \<le> l" "Lo \<le> b" "b \<le> Hi" "\<not> At k \<le> Lo" "\<not> Hi \<le> At k" "\<not> Hi \<le> Lo"
  by (auto simp: less_eq_bound_def order.order_iff_strict less_bound_def) (cases b; simp)+

section \<open>The interface\<close>

locale sort_keys =
  fixes place :: "bound \<Rightarrow> bound \<Rightarrow> wchar_id \<Rightarrow> key"
  assumes elem: "l < u \<Longrightarrow> l < At (place l u i) \<and> At (place l u i) < u"
    and narrow: "l \<le> l' \<Longrightarrow> u' \<le> u \<Longrightarrow> l' < At (place l u i) \<Longrightarrow> At (place l u i) < u' \<Longrightarrow>
      place l' u' i = place l u i"
    and mono: "l < u \<Longrightarrow> i < j \<Longrightarrow> place l u i < place l u j"
begin

text \<open>Two places that lie in an interval inside both of their own are in the order of the
  identifiers: the comparison \<open>IntegrateIns\<close> makes in the list it filters.\<close>

lemma compare_in:
  assumes "l1 \<le> l" "u \<le> u1" "l < At (place l1 u1 i)" "At (place l1 u1 i) < u"
    and "l2 \<le> l" "u \<le> u2" "l < At (place l2 u2 j)" "At (place l2 u2 j) < u"
  shows "place l1 u1 i < place l2 u2 j \<longleftrightarrow> i < j"
proof -
  have eq: "place l1 u1 i = place l u i" "place l2 u2 j = place l u j"
    using narrow [OF assms(1-4)] narrow [OF assms(5-8)] by simp_all
  have "l < u" using assms(3,4) by (rule less_trans)
  from mono [OF this, of i j] mono [OF this, of j i] show ?thesis
    unfolding eq by (metis less_asym linorder_neqE)
qed

end

section \<open>The place nearest to the root\<close>

fun lft_low :: "wchar_id \<Rightarrow> bound \<Rightarrow> bound" where
  "lft_low a (At (Lft b k)) = (if a = b then At k else Lo)"
| "lft_low a _ = Lo"

fun lft_high :: "wchar_id \<Rightarrow> bound \<Rightarrow> bound" where
  "lft_high a (At (Lft b k)) = (if a = b then At k else Hi)"
| "lft_high a _ = Hi"

fun rgt_low :: "wchar_id \<Rightarrow> bound \<Rightarrow> bound" where
  "rgt_low a (At (Rgt b k)) = (if a = b then At k else Lo)"
| "rgt_low a _ = Lo"

fun rgt_high :: "wchar_id \<Rightarrow> bound \<Rightarrow> bound" where
  "rgt_high a (At (Rgt b k)) = (if a = b then At k else Hi)"
| "rgt_high a _ = Hi"

fun bsize :: "bound \<Rightarrow> nat" where
  "bsize (At k) = Suc (size k)" | "bsize _ = 0"

lemma bsize_tails: "bsize (lft_low a b) \<le> bsize b" "bsize (lft_high a b) \<le> bsize b"
  "bsize (rgt_low a b) \<le> bsize b" "bsize (rgt_high a b) \<le> bsize b"
  by (cases "(a, b)" rule: lft_low.cases; auto)
    (cases "(a, b)" rule: rgt_low.cases; auto)+

function psi :: "bound \<Rightarrow> bound \<Rightarrow> wchar_id \<Rightarrow> key" where
  "psi l u i =
     (if \<not> l < At (Mid i) then
        (case l of
           At (Mid a) \<Rightarrow> Rgt a (psi Lo (rgt_high a u) i)
         | At (Lft a k) \<Rightarrow> Lft a (psi (At k) (lft_high a u) i)
         | At (Rgt a k) \<Rightarrow> Rgt a (psi (At k) (rgt_high a u) i)
         | _ \<Rightarrow> Mid i)
      else if \<not> At (Mid i) < u then
        (case u of
           At (Mid a) \<Rightarrow> Lft a (psi (lft_low a l) Hi i)
         | At (Lft a k) \<Rightarrow> Lft a (psi (lft_low a l) (At k) i)
         | At (Rgt a k) \<Rightarrow> Rgt a (psi (rgt_low a l) (At k) i)
         | _ \<Rightarrow> Mid i)
      else Mid i)"
  by pat_completeness auto
termination
  by (relation "measure (\<lambda>(l, u, i). bsize l + bsize u)")
    (use bsize_tails in \<open>auto simp: less_Suc_eq_le add_mono trans_le_add1\<close>)

declare psi.simps [simp del]

lemma psi_mid: "l < At (Mid i) \<Longrightarrow> At (Mid i) < u \<Longrightarrow> psi l u i = Mid i"
  by (simp add: psi.simps [of l u i])

lemma psi_low:
  "i \<le> a \<Longrightarrow> psi (At (Mid a)) u i = Rgt a (psi Lo (rgt_high a u) i)"
  "i < a \<Longrightarrow> psi (At (Lft a k)) u i = Lft a (psi (At k) (lft_high a u) i)"
  "i \<le> a \<Longrightarrow> psi (At (Rgt a k)) u i = Rgt a (psi (At k) (rgt_high a u) i)"
  by (simp_all add: psi.simps [of _ u i] not_le not_less)

lemma psi_high:
  "l < At (Mid i) \<Longrightarrow> a \<le> i \<Longrightarrow> psi l (At (Mid a)) i = Lft a (psi (lft_low a l) Hi i)"
  "l < At (Mid i) \<Longrightarrow> a \<le> i \<Longrightarrow> psi l (At (Lft a k)) i = Lft a (psi (lft_low a l) (At k) i)"
  "l < At (Mid i) \<Longrightarrow> a < i \<Longrightarrow> psi l (At (Rgt a k)) i = Rgt a (psi (rgt_low a l) (At k) i)"
  by (simp_all add: psi.simps [of l _ i] not_le not_less)

lemma psi_elem: "l < u \<Longrightarrow> l < At (psi l u i) \<and> At (psi l u i) < u"
proof (induction l u i rule: psi.induct)
  case (1 l u i)
  note IH = "1.IH" and less = "1.prems"
  show ?case
  proof (cases "l < At (Mid i)")
    case False
    then obtain k where k: "l = At k" using less by (cases l) auto
    show ?thesis
    proof (cases k)
      case (Mid a)
      with IH(1) [OF False k Mid] False less k show ?thesis
        by (cases "(a, u)" rule: rgt_high.cases) (auto simp: psi_low split: if_splits)
    next
      case (Lft a k')
      with IH(2) [OF False k Lft] False less k show ?thesis
        by (cases "(a, u)" rule: lft_high.cases) (auto simp: psi_low split: if_splits)
    next
      case (Rgt a k')
      with IH(3) [OF False k Rgt] False less k show ?thesis
        by (cases "(a, u)" rule: rgt_high.cases) (auto simp: psi_low split: if_splits)
    qed
  next
    case True
    then have l: "\<not> \<not> l < At (Mid i)" by simp
    show ?thesis
    proof (cases "At (Mid i) < u")
      case False
      then obtain k where k: "u = At k" using less by (cases u) auto
      show ?thesis
      proof (cases k)
        case (Mid a)
        with IH(4) [OF l False k Mid] True False less k show ?thesis
          by (cases "(a, l)" rule: lft_low.cases) (auto simp: psi_high split: if_splits)
      next
        case (Lft a k')
        with IH(5) [OF l False k Lft] True False less k show ?thesis
          by (cases "(a, l)" rule: lft_low.cases) (auto simp: psi_high split: if_splits)
      next
        case (Rgt a k')
        with IH(6) [OF l False k Rgt] True False less k show ?thesis
          by (cases "(a, l)" rule: rgt_low.cases) (auto simp: psi_high split: if_splits)
      qed
    next
      case True
      with l show ?thesis by (simp add: psi_mid)
    qed
  qed
qed

lemma rgt_high_mono: "u' \<le> u \<Longrightarrow> At (Rgt a y) < u' \<Longrightarrow>
    rgt_high a u' \<le> rgt_high a u \<and> At y < rgt_high a u'"
  by (cases "(a, u)" rule: rgt_high.cases; cases "(a, u')" rule: rgt_high.cases)
    (auto simp: order.order_iff_strict)

lemma lft_high_mono: "u' \<le> u \<Longrightarrow> At (Lft a y) < u' \<Longrightarrow>
    lft_high a u' \<le> lft_high a u \<and> At y < lft_high a u'"
  by (cases "(a, u)" rule: lft_high.cases; cases "(a, u')" rule: lft_high.cases)
    (auto simp: order.order_iff_strict)

lemma rgt_low_mono: "l \<le> l' \<Longrightarrow> l' < At (Rgt a y) \<Longrightarrow>
    rgt_low a l \<le> rgt_low a l' \<and> rgt_low a l' < At y"
  by (cases "(a, l)" rule: rgt_low.cases; cases "(a, l')" rule: rgt_low.cases)
    (auto simp: order.order_iff_strict)

lemma lft_low_mono: "l \<le> l' \<Longrightarrow> l' < At (Lft a y) \<Longrightarrow>
    lft_low a l \<le> lft_low a l' \<and> lft_low a l' < At y"
  by (cases "(a, l)" rule: lft_low.cases; cases "(a, l')" rule: lft_low.cases)
    (auto simp: order.order_iff_strict)

lemma bound_exhaust [case_names Lo Hi Mid Lft Rgt]:
  assumes "b = Lo \<Longrightarrow> P" "b = Hi \<Longrightarrow> P" "\<And>a. b = At (Mid a) \<Longrightarrow> P" "\<And>a k. b = At (Lft a k) \<Longrightarrow> P"
    "\<And>a k. b = At (Rgt a k) \<Longrightarrow> P"
  shows P
proof (cases b)
  case (At k)
  with assms show ?thesis by (cases k) auto
qed (use assms in auto)

text \<open>The bounds that can stand beside a place inside the interval.\<close>

lemma low_in_gap:
  "At (Mid a) \<le> l \<Longrightarrow> l < At (Rgt a y) \<Longrightarrow> l = At (Mid a) \<or> (\<exists>k. l = At (Rgt a k) \<and> k < y)"
  "At (Lft a k) \<le> l \<Longrightarrow> l < At (Lft a y) \<Longrightarrow> \<exists>k'. l = At (Lft a k') \<and> k \<le> k' \<and> k' < y"
  "At (Rgt a k) \<le> l \<Longrightarrow> l < At (Rgt a y) \<Longrightarrow> \<exists>k'. l = At (Rgt a k') \<and> k \<le> k' \<and> k' < y"
  by (cases l rule: bound_exhaust; auto simp: order.order_iff_strict)+

lemma high_in_gap:
  "u \<le> At (Mid a) \<Longrightarrow> At (Lft a y) < u \<Longrightarrow> u = At (Mid a) \<or> (\<exists>k. u = At (Lft a k) \<and> y < k)"
  "u \<le> At (Lft a k) \<Longrightarrow> At (Lft a y) < u \<Longrightarrow> \<exists>k'. u = At (Lft a k') \<and> k' \<le> k \<and> y < k'"
  "u \<le> At (Rgt a k) \<Longrightarrow> At (Rgt a y) < u \<Longrightarrow> \<exists>k'. u = At (Rgt a k') \<and> k' \<le> k \<and> y < k'"
  by (cases u rule: bound_exhaust; auto simp: order.order_iff_strict)+

lemma psi_narrow:
  "l \<le> l' \<Longrightarrow> u' \<le> u \<Longrightarrow> l' < At (psi l u i) \<Longrightarrow> At (psi l u i) < u' \<Longrightarrow>
   psi l' u' i = psi l u i"
proof (induction l u i arbitrary: l' u' rule: psi.induct)
  case (1 l u i)
  note IH = "1.IH" and prems = "1.prems"
  have lu: "l < u" using prems by (meson le_less_trans less_le_trans less_trans)
  show ?case
  proof (cases "l < At (Mid i)")
    case False
    then obtain k where k: "l = At k" using lu by (cases l) auto
    show ?thesis
    proof (cases k)
      case (Mid a)
      with False k have i: "i \<le> a" by simp
      with Mid k have eq: "psi l u i = Rgt a (psi Lo (rgt_high a u) i)" by (simp add: psi_low)
      let ?y = "psi Lo (rgt_high a u) i"
      have hi: "rgt_high a u' \<le> rgt_high a u" "At ?y < rgt_high a u'"
        using rgt_high_mono [OF prems(2), of a ?y] prems(4) eq by simp_all
      from low_in_gap(1) [of a l' ?y] prems eq k Mid consider "l' = At (Mid a)"
        | k' where "l' = At (Rgt a k')" "k' < ?y" by auto
      then show ?thesis
        using IH(1) [OF False k Mid, of _ "rgt_high a u'"] hi eq i by cases (simp_all add: psi_low)
    next
      case (Lft a k')
      with False k have i: "i < a" by simp
      with Lft k have eq: "psi l u i = Lft a (psi (At k') (lft_high a u) i)" by (simp add: psi_low)
      let ?y = "psi (At k') (lft_high a u) i"
      have hi: "lft_high a u' \<le> lft_high a u" "At ?y < lft_high a u'"
        using lft_high_mono [OF prems(2), of a ?y] prems(4) eq by simp_all
      from low_in_gap(2) [of a k' l' ?y] prems eq k Lft obtain k''
        where "l' = At (Lft a k'')" "k' \<le> k''" "k'' < ?y" by auto
      then show ?thesis
        using IH(2) [OF False k Lft, of "At k''" "lft_high a u'"] hi eq i by (simp add: psi_low)
    next
      case (Rgt a k')
      with False k have i: "i \<le> a" by simp
      with Rgt k have eq: "psi l u i = Rgt a (psi (At k') (rgt_high a u) i)" by (simp add: psi_low)
      let ?y = "psi (At k') (rgt_high a u) i"
      have hi: "rgt_high a u' \<le> rgt_high a u" "At ?y < rgt_high a u'"
        using rgt_high_mono [OF prems(2), of a ?y] prems(4) eq by simp_all
      from low_in_gap(3) [of a k' l' ?y] prems eq k Rgt obtain k''
        where "l' = At (Rgt a k'')" "k' \<le> k''" "k'' < ?y" by auto
      then show ?thesis
        using IH(3) [OF False k Rgt, of "At k''" "rgt_high a u'"] hi eq i by (simp add: psi_low)
    qed
  next
    case True
    note low = True
    then have l: "\<not> \<not> l < At (Mid i)" by simp
    show ?thesis
    proof (cases "At (Mid i) < u")
      case False
      then obtain k where k: "u = At k" using lu by (cases u) auto
      show ?thesis
      proof (cases k)
        case (Mid a)
        with False k have i: "a \<le> i" by simp
        with Mid k low have eq: "psi l u i = Lft a (psi (lft_low a l) Hi i)" by (simp add: psi_high)
        with prems have "l' < At (Mid i)" using i by (cases l') (auto elim: less_trans)
        note l' = this
        let ?y = "psi (lft_low a l) Hi i"
        have lo: "lft_low a l \<le> lft_low a l'" "lft_low a l' < At ?y"
          using lft_low_mono [OF prems(1), of a ?y] prems(3) eq by simp_all
        from high_in_gap(1) [of u' a ?y] prems eq k Mid consider "u' = At (Mid a)"
          | k' where "u' = At (Lft a k')" "?y < k'" by auto
        then show ?thesis
          using IH(4) [OF l False k Mid, of "lft_low a l'"] lo eq i l' by cases (simp_all add: psi_high)
      next
        case (Lft a k')
        with False k have i: "a \<le> i" by simp
        with Lft k low have eq: "psi l u i = Lft a (psi (lft_low a l) (At k') i)" by (simp add: psi_high)
        with prems have "l' < At (Mid i)" using i by (cases l') (auto elim: less_trans)
        note l' = this
        let ?y = "psi (lft_low a l) (At k') i"
        have lo: "lft_low a l \<le> lft_low a l'" "lft_low a l' < At ?y"
          using lft_low_mono [OF prems(1), of a ?y] prems(3) eq by simp_all
        from high_in_gap(2) [of u' a k' ?y] prems eq k Lft obtain k''
          where "u' = At (Lft a k'')" "k'' \<le> k'" "?y < k''" by auto
        then show ?thesis
          using IH(5) [OF l False k Lft, of "lft_low a l'" "At k''"] lo eq i l' by (simp add: psi_high)
      next
        case (Rgt a k')
        with False k have i: "a < i" by simp
        with Rgt k low have eq: "psi l u i = Rgt a (psi (rgt_low a l) (At k') i)" by (simp add: psi_high)
        with prems have "l' < At (Mid i)" using i by (cases l') (auto elim: less_trans)
        note l' = this
        let ?y = "psi (rgt_low a l) (At k') i"
        have lo: "rgt_low a l \<le> rgt_low a l'" "rgt_low a l' < At ?y"
          using rgt_low_mono [OF prems(1), of a ?y] prems(3) eq by simp_all
        from high_in_gap(3) [of u' a k' ?y] prems eq k Rgt obtain k''
          where "u' = At (Rgt a k'')" "k'' \<le> k'" "?y < k''" by auto
        then show ?thesis
          using IH(6) [OF l False k Rgt, of "rgt_low a l'" "At k''"] lo eq i l' by (simp add: psi_high)
      qed
    next
      case True
      with prems l show ?thesis by (simp add: psi_mid)
    qed
  qed
qed

lemma tails_bounded [simp]: "Lo < rgt_high a u" "Lo < lft_high a u" "rgt_low a l < Hi" "lft_low a l < Hi"
proof -
  show "Lo < rgt_high a u" "Lo < lft_high a u" by (cases u rule: bound_exhaust; simp)+
  show "rgt_low a l < Hi" "lft_low a l < Hi" by (cases l rule: bound_exhaust; simp)+
qed

lemma psi_mono_low:
  assumes "\<not> l < At (Mid i)" and "l < At (Mid j)" and "l < u" and "i < j"
    and IH: "\<And>a k. l = At (Lft a k) \<Longrightarrow> At k < lft_high a u \<Longrightarrow> psi (At k) (lft_high a u) i < psi (At k) (lft_high a u) j"
      "\<And>a k. l = At (Mid a) \<Longrightarrow> psi Lo (rgt_high a u) i < psi Lo (rgt_high a u) j"
      "\<And>a k. l = At (Rgt a k) \<Longrightarrow> At k < rgt_high a u \<Longrightarrow> psi (At k) (rgt_high a u) i < psi (At k) (rgt_high a u) j"
  shows "psi l u i < psi l u j"
proof -
  obtain k where k: "l = At k" using assms(1-3) by (cases l) auto
  show ?thesis
  proof (cases "At (Mid j) < u")
    case True
    with assms k show ?thesis by (cases k) (auto simp: psi_low psi_mid)
  next
    case False
    then obtain k' where u: "u = At k'" using assms(3) by (cases u) auto
    with False assms k show ?thesis
      by (cases k; cases k') (auto simp: psi_low psi_high)
  qed
qed

lemma psi_mono: "l < u \<Longrightarrow> i < j \<Longrightarrow> psi l u i < psi l u j"
proof (induction l u i rule: psi.induct)
  case (1 l u i)
  note IH = "1.IH" and less = "1.prems"
  show ?case
  proof (cases "l < At (Mid i)")
    case False
    then obtain k where k: "l = At k" using less by (cases l) auto
    have sub: "At k' < lft_high a u \<Longrightarrow> psi (At k') (lft_high a u) i < psi (At k') (lft_high a u) j"
      if "l = At (Lft a k')" for a k' using IH(2) [OF False that refl] less(2) by simp
    have sub': "psi Lo (rgt_high a u) i < psi Lo (rgt_high a u) j"
      if "l = At (Mid a)" for a using IH(1) [OF False that refl] less(2) by simp
    have sub'': "At k' < rgt_high a u \<Longrightarrow> psi (At k') (rgt_high a u) i < psi (At k') (rgt_high a u) j"
      if "l = At (Rgt a k')" for a k' using IH(3) [OF False that refl] less(2) by simp
    show ?thesis
    proof (cases "l < At (Mid j)")
      case True
      show ?thesis
        by (rule psi_mono_low [OF False True less]) (rule sub sub' sub''; assumption)+
    next
      case j: False
      show ?thesis
      proof (cases k)
        case (Mid a)
        with IH(1) [OF False k Mid] j False less k show ?thesis by (simp add: psi_low)
      next
        case (Lft a k')
        with IH(2) [OF False k Lft] j False less k lft_high_mono [of u u a k'] show ?thesis
          by (simp add: psi_low)
      next
        case (Rgt a k')
        with IH(3) [OF False k Rgt] j False less k rgt_high_mono [of u u a k'] show ?thesis
          by (simp add: psi_low)
      qed
    qed
  next
    case True
    note low = True
    then have l: "\<not> \<not> l < At (Mid i)" and lj: "l < At (Mid j)"
      using less by (auto elim: less_trans)
    show ?thesis
    proof (cases "At (Mid i) < u")
      case False
      then obtain k where k: "u = At k" using less by (cases u) auto
      show ?thesis
      proof (cases k)
        case (Mid a)
        with IH(4) [OF l False k Mid] False less k low lj show ?thesis by (simp add: psi_high)
      next
        case (Lft a k')
        with IH(5) [OF l False k Lft] False less k low lj lft_low_mono [of l l a k'] show ?thesis
          by (simp add: psi_high)
      next
        case (Rgt a k')
        with IH(6) [OF l False k Rgt] False less k low lj rgt_low_mono [of l l a k'] show ?thesis
          by (simp add: psi_high)
      qed
    next
      case True
      show ?thesis
      proof (cases "At (Mid j) < u")
        case True
        with \<open>At (Mid i) < u\<close> low lj less show ?thesis by (simp add: psi_mid)
      next
        case False
        then obtain k where "u = At k" using less by (cases u) auto
        with False True low lj less show ?thesis by (cases k) (simp_all add: psi_mid psi_high)
      qed
    qed
  qed
qed

text \<open>A place remembers whose it is, so different identifiers never share one.\<close>

fun key_label :: "key \<Rightarrow> wchar_id" where
  "key_label (Mid a) = a" | "key_label (Lft a k) = key_label k" | "key_label (Rgt a k) = key_label k"

lemma psi_label: "key_label (psi l u i) = i"
proof (induction l u i rule: psi.induct)
  case (1 l u i)
  then show ?case
    by (subst psi.simps)
      (auto split: bound.split key.split
        simp del: lft_low.simps lft_high.simps rgt_low.simps rgt_high.simps)
qed

interpretation keys: sort_keys psi
  by unfold_locales (use psi_elem psi_narrow psi_mono in blast)+

end
