(* ===== verification/Convergence.thy ===== *)
theory Convergence
  imports Sites Keys
begin

text \<open>
  The invariant of a WOOT string and what \<open>IntegrateIns\<close> does under it.  Every reference of a string
  has a key: the markers have the two unbounded keys, a cell has the place of its identifier
  between the keys of the cells it was created between.  A string is well formed if its keys
  ascend and every cell was made after its two neighbours (the rank); then the recursion of
  \<open>IntegrateIns\<close> ends and puts the new cell at the only index that keeps the keys ascending.
\<close>

section \<open>The invariant\<close>

fun ref_bound :: "(wchar_id \<Rightarrow> key) \<Rightarrow> cell_ref \<Rightarrow> bound" where
  "ref_bound K Start = Lo"
| "ref_bound K End = Hi"
| "ref_bound K (Cell i) = At (K i)"

text \<open>A cell with its key and rank relative to the cells it was created between.\<close>

definition placed :: "(wchar_id \<Rightarrow> key) \<Rightarrow> (cell_ref \<Rightarrow> nat) \<Rightarrow> wchar_id \<Rightarrow> wchar_id \<Rightarrow> wchar_id \<Rightarrow> bool" where
  "placed K rank i p n \<longleftrightarrow>
     ref_bound K (cid_norm p) < ref_bound K (cid_norm n) \<and>
     K i = psi (ref_bound K (cid_norm p)) (ref_bound K (cid_norm n)) i \<and>
     rank (cid_norm p) < rank (Cell i) \<and> rank (cid_norm n) < rank (Cell i)"

definition woot_ok :: "(wchar_id \<Rightarrow> key) \<Rightarrow> (cell_ref \<Rightarrow> nat) \<Rightarrow> wstring \<Rightarrow> bool" where
  "woot_ok K rank w \<longleftrightarrow>
     Start \<in> set (refs w) \<and> End \<in> set (refs w) \<and>
     sorted_wrt (<) (map (ref_bound K) (refs w)) \<and>
     (\<forall>c\<in>set w. \<forall>i. cid_norm (wid c) = Cell i \<longrightarrow>
        cid_norm (previousId c) \<in> set (refs w) \<and> cid_norm (nextId c) \<in> set (refs w) \<and>
        placed K rank i (previousId c) (nextId c))"

abbreviation bnd :: "(wchar_id \<Rightarrow> key) \<Rightarrow> wstring \<Rightarrow> nat \<Rightarrow> bound" where
  "bnd K w j \<equiv> ref_bound K (refs w ! j)"

lemma placed_between:
  "placed K rank i p n \<Longrightarrow> ref_bound K (cid_norm p) < At (K i) \<and> At (K i) < ref_bound K (cid_norm n)"
  unfolding placed_def using keys.elem by metis

lemma woot_ok_less:
  "woot_ok K rank w \<Longrightarrow> i < j \<Longrightarrow> j < length w \<Longrightarrow> bnd K w i < bnd K w j"
  by (simp add: woot_ok_def sorted_wrt_iff_nth_less)

lemma woot_ok_less_iff:
  "woot_ok K rank w \<Longrightarrow> i < length w \<Longrightarrow> j < length w \<Longrightarrow> bnd K w i < bnd K w j \<longleftrightarrow> i < j"
  using woot_ok_less [of K rank w i j] woot_ok_less [of K rank w j i]
  by (metis less_asym less_irrefl linorder_neqE_nat)

lemma woot_ok_le_iff:
  "woot_ok K rank w \<Longrightarrow> i < length w \<Longrightarrow> j < length w \<Longrightarrow> bnd K w i \<le> bnd K w j \<longleftrightarrow> i \<le> j"
  using woot_ok_less_iff [of K rank w j i] by (simp flip: not_less)

lemma woot_ok_distinct: "woot_ok K rank w \<Longrightarrow> distinct (refs w)"
proof -
  assume ok: "woot_ok K rank w"
  have "distinct (map (ref_bound K) (refs w))"
    unfolding distinct_conv_nth using woot_ok_less [OF ok] by (auto simp: nat_neq_iff less_imp_neq)
      (metis less_imp_neq nat_neq_iff)
  then show ?thesis by (simp add: distinct_map)
qed

lemma woot_ok_cell:
  assumes "woot_ok K rank w" and "j < length w" and "refs w ! j = Cell i"
  obtains a b where "a < j" and "j < b" and "b < length w"
    and "refs w ! a = cid_norm (previousId (w ! j))" and "refs w ! b = cid_norm (nextId (w ! j))"
    and "K i = psi (bnd K w a) (bnd K w b) i"
    and "rank (refs w ! a) < rank (Cell i)" and "rank (refs w ! b) < rank (Cell i)"
proof -
  let ?c = "w ! j"
  from assms have "?c \<in> set w" and "cid_norm (wid ?c) = Cell i" by (simp_all add: refs_nth)
  with assms(1) have mem: "cid_norm (previousId ?c) \<in> set (refs w)" "cid_norm (nextId ?c) \<in> set (refs w)"
    and pl: "placed K rank i (previousId ?c) (nextId ?c)" by (auto simp: woot_ok_def)
  from mem obtain a b where ab: "a < length w" "b < length w"
    "refs w ! a = cid_norm (previousId ?c)" "refs w ! b = cid_norm (nextId ?c)"
    by (auto simp: in_set_conv_nth)
  from placed_between [OF pl] ab assms(3) have "bnd K w a < bnd K w j" "bnd K w j < bnd K w b"
    by simp_all
  then have "a < j" "j < b" using woot_ok_less_iff [OF assms(1)] ab assms(2) by blast+
  with ab pl show ?thesis by (intro that [of a b]) (simp_all add: placed_def)
qed

lemma woot_ok_first: "woot_ok K rank w \<Longrightarrow> j < length w \<Longrightarrow> refs w ! j = Start \<Longrightarrow> j = 0"
  using woot_ok_less [of K rank w 0 j] by (cases j) auto

lemma woot_ok_inner:
  assumes "woot_ok K rank w" and "l < j" and "j < u" and "u < length w"
  obtains i where "refs w ! j = Cell i" and "wid (w ! j) = i"
proof (cases "refs w ! j")
  case (Cell i)
  then have "wid (w ! j) = i" using assms by (intro cid_norm_Cell) (simp add: refs_nth)
  with Cell show ?thesis by (rule that)
next
  case Start
  with woot_ok_less [OF assms(1,2)] assms show ?thesis by simp
next
  case End
  with woot_ok_less [OF assms(1,3,4)] show ?thesis by simp
qed

section \<open>One round of IntegrateIns\<close>

lemma SubSeq_indices:
  assumes "woot_ok K rank w" and "l < u" and "u < length w"
  shows "wstr_SubSeq w (w ! l) (w ! u) = map ((!) w) [Suc l..<u]"
proof -
  have "take (u - Suc l) (drop (Suc l) w) = map ((!) w) [Suc l..<u]"
    using assms by (intro nth_equalityI) auto
  with assms show ?thesis
    by (subst wstr_SubSeq_between [of _ _ l _ u])
      (auto intro!: wstr_GetPos_eq woot_ok_distinct [of K rank] simp: refs_nth)
qed

lemma encloses_iff:
  assumes ok: "woot_ok K rank w" and l: "l < length w" and u: "u < length w"
    and a: "a < length w" "refs w ! a = cid_norm (previousId d)"
    and b: "b < length w" "refs w ! b = cid_norm (nextId d)"
  shows "encloses w (w ! l) (w ! u) d \<longleftrightarrow> a \<le> l \<and> u \<le> b"
proof -
  note pos = wstr_GetPos_eq [OF woot_ok_distinct [OF ok]]
  have "wstr_GetPos w (previousId d) = int a" "wstr_GetPos w (nextId d) = int b"
    "wstr_GetPos w (wid (w ! l)) = int l" "wstr_GetPos w (wid (w ! u)) = int u"
    using assms by (auto intro!: pos simp: refs_nth)
  then show ?thesis by (simp add: encloses_def)
qed

text \<open>The list \<open>L\<close>, by indices.\<close>

definition kept :: "wstring \<Rightarrow> nat \<Rightarrow> nat \<Rightarrow> nat list" where
  "kept w l u = filter (\<lambda>j. encloses w (w ! l) (w ! u) (w ! j)) [Suc l..<u]"

lemma kept_nonempty:
  assumes ok: "woot_ok K rank w" and "Suc l < u" and u: "u < length w"
  shows "kept w l u \<noteq> []"
proof -
  have "finite {Suc l..<u}" and "{Suc l..<u} \<noteq> {}" using assms(2) by auto
  from ex_is_arg_min_if_finite [OF this, of "\<lambda>j. rank (refs w ! j)"]
  obtain j where j: "j \<in> {Suc l..<u}"
    and least: "\<And>k. k \<in> {Suc l..<u} \<Longrightarrow> rank (refs w ! j) \<le> rank (refs w ! k)"
    by (auto simp: is_arg_min_linorder)
  from j obtain i where i: "refs w ! j = Cell i" using woot_ok_inner [OF ok _ _ u, of l j] by auto
  have jl: "j < length w" using j u by simp
  obtain a b where ab: "a < j" "j < b" "b < length w" "refs w ! a = cid_norm (previousId (w ! j))"
    "refs w ! b = cid_norm (nextId (w ! j))" "rank (refs w ! a) < rank (Cell i)"
    "rank (refs w ! b) < rank (Cell i)"
    by (rule woot_ok_cell [OF ok jl i]) blast
  have "a \<notin> {Suc l..<u}" using least [of a] ab(6) i by fastforce
  moreover have "b \<notin> {Suc l..<u}" using least [of b] ab(7) i by fastforce
  ultimately have "a \<le> l" and "u \<le> b" using ab(1,2) j by auto
  then have "encloses w (w ! l) (w ! u) (w ! j)"
    using encloses_iff [OF ok _ u _ ab(4) ab(3,5), of l] j u by auto
  with j show ?thesis by (auto simp: kept_def filter_empty_conv)
qed

text \<open>The scan stops at the first cell that does not come before the new one.\<close>

lemma scan_less_eq:
  "i + 1 \<le> length L \<Longrightarrow> scan_less L c i = i + length (takeWhile (\<lambda>d. wchar_Less d c) (drop i (butlast L)))"
proof (induction L c i rule: scan_less.induct)
  case (1 L c i)
  show ?case
  proof (cases "i < length L - 1")
    case True
    then have "drop i (butlast L) = L ! i # drop (i + 1) (butlast L)"
      by (simp add: Cons_nth_drop_Suc [symmetric] nth_butlast)
    with 1 True show ?thesis by (simp add: scan_less.simps [of L c i])
  next
    case False
    with 1 show ?thesis by (simp add: scan_less.simps [of L c i])
  qed
qed

lemma scan_less_middle:
  "scan_less (p # M @ [n]) c 1 = Suc (length (takeWhile (\<lambda>d. wchar_Less d c) M))"
  by (subst scan_less_eq) simp_all

section \<open>IntegrateIns under the invariant\<close>

text \<open>The bounds between which \<open>IntegrateIns\<close> looks, and the key the new cell has.\<close>

definition target :: "(wchar_id \<Rightarrow> key) \<Rightarrow> wstring \<Rightarrow> wchar_id \<Rightarrow> nat \<Rightarrow> nat \<Rightarrow> bool" where
  "target K w i l u \<longleftrightarrow> l < u \<and> u < length w \<and> bnd K w l < At (K i) \<and> At (K i) < bnd K w u \<and>
     (\<exists>lo hi. lo \<le> bnd K w l \<and> bnd K w u \<le> hi \<and> K i = psi lo hi i)"

lemma kept_less_iff:
  assumes ok: "woot_ok K rank w" and t: "target K w i l u" and j: "j \<in> set (kept w l u)"
    and c: "wid c = i"
  shows "wchar_Less (w ! j) c \<longleftrightarrow> bnd K w j < At (K i)"
proof -
  from j have lj: "l < j" "j < u" and enc: "encloses w (w ! l) (w ! u) (w ! j)"
    by (auto simp: kept_def)
  from t have u: "u < length w" by (simp add: target_def)
  obtain k where k: "refs w ! j = Cell k" "wid (w ! j) = k" using woot_ok_inner [OF ok lj u] .
  have jw: "j < length w" using lj u by simp
  obtain a b where ab: "a < j" "j < b" "b < length w" "refs w ! a = cid_norm (previousId (w ! j))"
    "refs w ! b = cid_norm (nextId (w ! j))" "K k = psi (bnd K w a) (bnd K w b) k"
    by (rule woot_ok_cell [OF ok jw k(1)]) blast
  have "a \<le> l" "u \<le> b" using encloses_iff [OF ok _ u _ ab(4) ab(3,5), of l] enc ab(1) jw lj by auto
  then have *: "bnd K w a \<le> bnd K w l" "bnd K w u \<le> bnd K w b"
    using woot_ok_le_iff [OF ok] ab(1,3) jw u lj by auto
  from t obtain lo hi where t': "lo \<le> bnd K w l" "bnd K w u \<le> hi" "K i = psi lo hi i"
    "bnd K w l < At (K i)" "At (K i) < bnd K w u" by (auto simp: target_def)
  have kk: "bnd K w l < At (K k)" "At (K k) < bnd K w u"
    using woot_ok_less [OF ok lj(1)] woot_ok_less [OF ok lj(2) u] jw k(1) by auto
  have "psi (bnd K w a) (bnd K w b) k < psi lo hi i \<longleftrightarrow> k < i"
    by (rule keys.compare_in [OF * _ _ t'(1,2)]) (use kk ab(6) t' in simp_all)
  then have "K k < K i \<longleftrightarrow> k < i" using ab(6) t'(3) by simp
  with k c show ?thesis by (simp add: wchar_Less_def less_wchar_id_def)
qed

text \<open>A round narrows the interval around the key of the new cell.\<close>

lemma round:
  assumes ok: "woot_ok K rank w" and t: "target K w i l u" and gap: "Suc l < u" and c: "wid c = i"
    and K: "\<And>j. j < length w \<Longrightarrow> bnd K w j \<noteq> At (K i)"
  obtains a b where "target K w i a b" and "b - a < u - l" and
    "integrate_ins w c (w ! l) (w ! u) = integrate_ins w c (w ! a) (w ! b)"
proof -
  from t have lu: "l < u" and u: "u < length w" by (auto simp: target_def)
  define M where "M = kept w l u"
  define P where "P = (\<lambda>j. wchar_Less (w ! j) c)"
  define q where "q = length (takeWhile P M)"
  define J where "J = l # M @ [u]"
  have MJ: "\<And>j. j \<in> set M \<Longrightarrow> l < j \<and> j < u" by (auto simp: M_def kept_def)
  have sorted: "sorted_wrt (<) J"
    using MJ lu sorted_wrt_upt [of "Suc l" u]
    by (auto simp: J_def sorted_wrt_append M_def kept_def sorted_wrt_filter)
  have q: "q \<le> length M" by (simp add: q_def length_takeWhile_le)
  have M: "M \<noteq> []" unfolding M_def by (rule kept_nonempty [OF ok gap u])
  define a b where "a = J ! q" and "b = J ! Suc q"
  have less: "P j \<longleftrightarrow> bnd K w j < At (K i)" if "j \<in> set M" for j
    unfolding P_def using kept_less_iff [OF ok t _ c] that by (simp add: M_def)
  have "Suc q < length J" using q by (simp add: J_def)
  then have ab: "a < b" unfolding a_def b_def by (intro sorted_wrt_nth_less [OF sorted]) simp_all
  have "q = 0 \<and> a = l \<or> a \<in> set M" using q by (cases q) (auto simp: a_def J_def nth_append)
  moreover have "q = length M \<and> b = u \<or> b \<in> set M" using q by (auto simp: b_def J_def nth_append)
  ultimately have la: "l \<le> a" "b \<le> u" "a \<noteq> l \<or> b \<noteq> u"
    using MJ M lu by (auto dest!: MJ)
  have low: "bnd K w a < At (K i)"
  proof (cases q)
    case 0
    then show ?thesis using t by (simp add: a_def J_def target_def)
  next
    case (Suc p)
    then have "a = M ! p" "p < length (takeWhile P M)" using q by (auto simp: a_def J_def nth_append q_def)
    then have "P a" "a \<in> set M" using q Suc
      by (metis nth_mem set_takeWhileD takeWhile_nth)+
    with less show ?thesis by simp
  qed
  have high: "At (K i) < bnd K w b"
  proof (cases "q = length M")
    case True
    then show ?thesis using t by (simp add: b_def J_def target_def nth_append)
  next
    case False
    with q have "b = M ! q" "q < length M" by (auto simp: b_def J_def nth_append)
    then have "\<not> P b" "b \<in> set M" using nth_length_takeWhile [of P M] by (auto simp: q_def)
    with less K [of b] MJ u show ?thesis by (metis less_trans linorder_neqE)
  qed
  have "bnd K w l \<le> bnd K w a" "bnd K w b \<le> bnd K w u"
    using woot_ok_le_iff [OF ok] la ab u by auto
  with t low high ab la u have "target K w i a b"
    unfolding target_def by (meson le_less_trans order_trans)
  moreover have "b - a < u - l" using la ab by auto
  moreover have "integrate_ins w c (w ! l) (w ! u) = integrate_ins w c (w ! a) (w ! b)"
  proof -
    have sub: "wstr_SubSeq w (w ! l) (w ! u) = map ((!) w) [Suc l..<u]"
      by (rule SubSeq_indices [OF ok lu u])
    have L: "[w ! l] @ filter (encloses w (w ! l) (w ! u)) (wstr_SubSeq w (w ! l) (w ! u)) @ [w ! u]
      = map ((!) w) J"
      by (simp add: sub J_def M_def kept_def filter_map o_def)
    have scan: "scan_less (map ((!) w) J) c 1 = Suc q"
      using scan_less_middle [of "w ! l" "map ((!) w) M" "w ! u" c]
      by (simp add: J_def q_def takeWhile_map P_def o_def)
    have "q < length J" "Suc q < length J" using q by (simp_all add: J_def)
    with gap show ?thesis
      by (subst integrate_ins.simps) (simp only: Let_def L scan, simp add: sub a_def b_def)
  qed
  ultimately show ?thesis by (rule that)
qed

lemma integrate_ins_place:
  assumes ok: "woot_ok K rank w" and c: "wid c = i"
    and K: "\<And>j. j < length w \<Longrightarrow> bnd K w j \<noteq> At (K i)"
    and t: "target K w i l u"
  shows "\<exists>k. integrate_ins w c (w ! l) (w ! u) = Some (take k w @ c # drop k w) \<and> k \<le> length w \<and>
    (\<forall>j<k. bnd K w j < At (K i)) \<and> (\<forall>j. k \<le> j \<and> j < length w \<longrightarrow> At (K i) < bnd K w j)"
  using t
proof (induction "u - l" arbitrary: l u rule: less_induct)
  case less
  from less.prems have lu: "l < u" "u < length w" by (auto simp: target_def)
  show ?case
  proof (cases "Suc l < u")
    case True
    from round [OF ok less.prems True c K] obtain a b where "target K w i a b" "b - a < u - l"
      and eq: "integrate_ins w c (w ! l) (w ! u) = integrate_ins w c (w ! a) (w ! b)" by blast
    with less.hyps show ?thesis by simp
  next
    case False
    with lu have u: "u = Suc l" by simp
    have sub: "wstr_SubSeq w (w ! l) (w ! u) = []"
      by (subst SubSeq_indices [OF ok lu]) (simp add: u)
    have "wstr_GetPos w (wid (w ! u)) = int u"
      using lu by (auto intro!: wstr_GetPos_eq woot_ok_distinct [OF ok] simp: refs_nth)
    then have "integrate_ins w c (w ! l) (w ! u) = Some (take u w @ c # drop u w)"
      using lu by (subst integrate_ins.simps) (simp add: sub wstr_Insert_ok)
    moreover have "bnd K w j < At (K i)" if "j < u" for j
    proof -
      have "bnd K w j \<le> bnd K w l" using woot_ok_le_iff [OF ok, of j l] that u lu by simp
      with less.prems show ?thesis by (auto simp: target_def intro: le_less_trans)
    qed
    moreover have "At (K i) < bnd K w j" if "u \<le> j" "j < length w" for j
    proof -
      have "bnd K w u \<le> bnd K w j" using woot_ok_le_iff [OF ok, of u j] that lu by simp
      with less.prems show ?thesis by (auto simp: target_def intro: less_le_trans)
    qed
    ultimately show ?thesis using lu by (intro exI [of _ u]) auto
  qed
qed

end
