(* ===== verification/SiteSpec.thy ===== *)
theory SiteSpec
  imports Convergence
begin

text \<open>
  The contract of a site.  The specification of a site's string is the set of operations it has
  applied: the string holds the markers and one cell per insertion, visible unless a deletion of its
  identifier was applied (\<open>holds_ops\<close>).  With the invariant \<open>woot_ok\<close> this set determines the
  visible text.  The lemmas show that applying an operation of either kind, received or generated,
  refines adding it to the set.
\<close>

section \<open>The specification\<close>

definition is_ins :: "woot_operation \<Rightarrow> bool" where
  "is_ins op \<longleftrightarrow> woot_Type op = Insertion"

definition is_del :: "woot_operation \<Rightarrow> bool" where
  "is_del op \<longleftrightarrow> woot_Type op = Deletion"

abbreviation op_cell :: "woot_operation \<Rightarrow> wchar_id" where
  "op_cell op \<equiv> data_Id (woot_Character op)"

definition deleted :: "woot_operation set \<Rightarrow> wchar_id \<Rightarrow> bool" where
  "deleted A i \<longleftrightarrow> (\<exists>d\<in>A. is_del d \<and> op_cell d = i)"

text \<open>The cell the operations \<open>A\<close> make of the insertion \<open>op\<close>.\<close>

definition cell_of :: "woot_operation set \<Rightarrow> woot_operation \<Rightarrow> wcharacter" where
  "cell_of A op = (wchar_Import (woot_Character op))\<lparr>visible := \<not> deleted A (op_cell op)\<rparr>"

definition holds_ops :: "woot_operation set \<Rightarrow> wstring \<Rightarrow> bool" where
  "holds_ops A w \<longleftrightarrow>
     set (refs w) = {Start, End} \<union> (\<lambda>op. Cell (op_cell op)) ` {op \<in> A. is_ins op} \<and>
     (\<forall>d\<in>A. is_del d \<longrightarrow> Cell (op_cell d) \<in> set (refs w)) \<and>
     (\<forall>c\<in>set w. case cid_norm (wid c) of
        Cell i \<Rightarrow> \<exists>op\<in>A. is_ins op \<and> op_cell op = i \<and> c = cell_of A op
      | _ \<Rightarrow> IsSpecialWChar (Some c) \<and> visible c)"

text \<open>What the operations of a run satisfy.\<close>

definition op_placed :: "(wchar_id \<Rightarrow> key) \<Rightarrow> (cell_ref \<Rightarrow> nat) \<Rightarrow> woot_operation \<Rightarrow> bool" where
  "op_placed K rank op \<longleftrightarrow> (is_ins op \<or> is_del op) \<and> cid_norm (op_cell op) = Cell (op_cell op) \<and>
     (is_ins op \<longrightarrow> data_Visible (woot_Character op) \<and>
        placed K rank (op_cell op) (data_PreviousId (woot_Character op)) (data_NextId (woot_Character op)))"

definition unique_cells :: "woot_operation set \<Rightarrow> bool" where
  "unique_cells A \<longleftrightarrow> (\<forall>a\<in>A. \<forall>b\<in>A. is_ins a \<and> is_ins b \<and> op_cell a = op_cell b \<longrightarrow> a = b)"

text \<open>The operation can be applied: its target, or its two neighbours, are in the string.\<close>

definition in_context :: "wstring \<Rightarrow> woot_operation \<Rightarrow> bool" where
  "in_context w op \<longleftrightarrow>
     (if is_del op then cid_norm (op_cell op) \<in> set (refs w)
      else cid_norm (data_PreviousId (woot_Character op)) \<in> set (refs w) \<and>
        cid_norm (data_NextId (woot_Character op)) \<in> set (refs w))"

lemma ins_not_del [simp]: "is_ins op \<Longrightarrow> \<not> is_del op"
  by (simp add: is_ins_def is_del_def)

section \<open>The set of operations determines the text\<close>

lemma refs_determined:
  assumes "woot_ok K rank v" and "woot_ok K rank w" and "set (refs v) = set (refs w)"
  shows "refs v = refs w"
proof -
  have sv: "sorted_wrt (<) (map (ref_bound K) (refs v))" and sw: "sorted_wrt (<) (map (ref_bound K) (refs w))"
    using assms by (simp_all add: woot_ok_def)
  then have eq: "map (ref_bound K) (refs v) = map (ref_bound K) (refs w)"
    using assms(3) by (intro strict_sorted_equal) auto
  have "inj_on (ref_bound K) (set (refs v))"
    using sv by (simp add: strict_sorted_iff distinct_map)
  with eq assms(3) show ?thesis by (intro inj_on_map_eq_map [THEN iffD1, of "ref_bound K"]) auto
qed

lemma holds_ops_cell:
  "holds_ops A w \<Longrightarrow> c \<in> set w \<Longrightarrow> cid_norm (wid c) = Cell i \<Longrightarrow>
   \<exists>op\<in>A. is_ins op \<and> op_cell op = i \<and> c = cell_of A op"
  by (auto simp: holds_ops_def)

lemma holds_ops_special:
  "holds_ops A w \<Longrightarrow> c \<in> set w \<Longrightarrow> cid_norm (wid c) \<in> {Start, End} \<Longrightarrow>
   IsSpecialWChar (Some c) \<and> visible c"
  by (auto simp: holds_ops_def)

lemma holds_ops_refs:
  "holds_ops A w \<Longrightarrow> set (refs w) = {Start, End} \<union> (\<lambda>op. Cell (op_cell op)) ` {op \<in> A. is_ins op}"
  by (simp add: holds_ops_def)

theorem content_determined:
  assumes "woot_ok K rank v" and "woot_ok K rank w" and "holds_ops A v" and "holds_ops A w"
    and "unique_cells A"
  shows "wstr_GetVisibleContent v = wstr_GetVisibleContent w"
proof -
  have refs: "refs v = refs w"
    using refs_determined [OF assms(1,2)] holds_ops_refs [OF assms(3)] holds_ops_refs [OF assms(4)] by simp
  then have len: "length v = length w" by (metis refs_simps(4))
  have "(if shown (v ! j) then alphaValue (v ! j) else []) = (if shown (w ! j) then alphaValue (w ! j) else [])"
    if j: "j < length v" for j
  proof -
    have norm: "cid_norm (wid (v ! j)) = refs v ! j" "cid_norm (wid (w ! j)) = refs v ! j"
      using j len refs by (simp_all add: refs_nth [symmetric])
    have mem: "v ! j \<in> set v" "w ! j \<in> set w" using j len by simp_all
    show ?thesis
    proof (cases "refs v ! j")
      case (Cell i)
      with norm holds_ops_cell [OF assms(3) mem(1), of i] holds_ops_cell [OF assms(4) mem(2), of i]
        assms(5) show ?thesis by (auto simp: unique_cells_def)
    qed (use norm holds_ops_special [OF assms(3) mem(1)] holds_ops_special [OF assms(4) mem(2)] in auto)
  qed
  then have "map (\<lambda>c. if shown c then alphaValue c else []) v = map (\<lambda>c. if shown c then alphaValue c else []) w"
    using len by (intro nth_equalityI) auto
  moreover have "concat (map alphaValue (filter shown u)) = concat (map (\<lambda>c. if shown c then alphaValue c else []) u)" for u
    by (induction u) auto
  ultimately show ?thesis by (simp add: content_concat)
qed

section \<open>A new site\<close>

lemma NewWString_ok: "woot_ok K rank (NewWString s)" "holds_ops {} (NewWString s)"
  by (auto simp: woot_ok_def holds_ops_def NewWString_def is_ins_def GetNewSpecialStartWChar_def
      GetNewSpecialEndWChar_def IsSpecialWChar_def)

section \<open>Applying an insertion\<close>

lemma cell_of_simps [simp]:
  "wid (cell_of A op) = op_cell op" "previousId (cell_of A op) = data_PreviousId (woot_Character op)"
  "nextId (cell_of A op) = data_NextId (woot_Character op)" "alphaValue (cell_of A op) = data_AlphaValue (woot_Character op)"
  "visible (cell_of A op) = (\<not> deleted A (op_cell op))"
  by (simp_all add: cell_of_def wchar_Import_def)

lemma deleted_insert [simp]: "is_ins op \<Longrightarrow> deleted (insert op A) i = deleted A i"
  by (auto simp: deleted_def)

lemma cell_of_insert [simp]: "is_ins op \<Longrightarrow> cell_of (insert op A) = cell_of A"
  by (simp add: cell_of_def fun_eq_iff)

lemma integrate_op:
  assumes ok: "woot_ok K rank w" and H: "holds_ops A w" and op: "op_placed K rank op" "is_ins op"
    and new: "Cell (op_cell op) \<notin> set (refs w)"
    and p: "p < length w" "refs w ! p = cid_norm (data_PreviousId (woot_Character op))"
    and n: "n < length w" "refs w ! n = cid_norm (data_NextId (woot_Character op))"
  shows "\<exists>w'. integrate_ins w (wchar_Import (woot_Character op)) (w ! p) (w ! n) = Some w' \<and>
    woot_ok K rank w' \<and> holds_ops (insert op A) w' \<and>
    (\<exists>k. p < k \<and> k \<le> n \<and> w' = take k w @ wchar_Import (woot_Character op) # drop k w)"
proof -
  define c where "c = wchar_Import (woot_Character op)"
  define i where "i = op_cell op"
  have wc: "wid c = i" and ci: "cid_norm i = Cell i" and ins: "is_ins op"
    using op by (simp_all add: c_def i_def wchar_Import_def op_placed_def)
  have pl: "placed K rank i (data_PreviousId (woot_Character op)) (data_NextId (woot_Character op))"
    using op by (simp add: op_placed_def i_def)
  have nd: "\<not> deleted A i" using H new by (auto simp: holds_ops_def deleted_def i_def)
  then have cc: "c = cell_of A op"
    using op by (simp add: c_def cell_of_def op_placed_def i_def wchar_Import_def)
  have t: "target K w i p n"
    using placed_between [OF pl] pl p n woot_ok_less_iff [OF ok p(1) n(1)]
    by (auto simp: target_def placed_def)
  have K: "bnd K w j \<noteq> At (K i)" if "j < length w" for j
  proof
    assume eq: "bnd K w j = At (K i)"
    then obtain k where k: "refs w ! j = Cell k" and "K k = K i" by (cases "refs w ! j") auto
    have "\<exists>lo hi. K k = psi lo hi k" by (rule woot_ok_cell [OF ok that k]) blast
    then obtain lo hi where "K k = psi lo hi k" by blast
    with pl \<open>K k = K i\<close> have "k = i" using psi_label unfolding placed_def by metis
    with k that new show False unfolding i_def by (metis nth_mem refs_simps(4))
  qed
  obtain k where int: "integrate_ins w c (w ! p) (w ! n) = Some (take k w @ c # drop k w)"
    and k: "k \<le> length w" "\<And>j. j < k \<Longrightarrow> bnd K w j < At (K i)"
      "\<And>j. k \<le> j \<Longrightarrow> j < length w \<Longrightarrow> At (K i) < bnd K w j"
    using integrate_ins_place [OF ok wc K t] by blast
  have pk: "p < k" using k(3) [of p] p(1) t unfolding target_def by (metis less_asym not_le)
  have kn: "k \<le> n" using k(2) [of n] t unfolding target_def by (metis less_asym not_le)
  let ?w = "take k w @ c # drop k w"
  have refs: "refs ?w = take k (refs w) @ Cell i # drop k (refs w)"
    by (simp add: refs_take_drop wc ci)
  have set_refs': "set (refs ?w) = insert (Cell i) (set (refs w))"
    unfolding refs using append_take_drop_id [of k "refs w"]
    by (metis Un_insert_right list.simps(15) set_append)
  have set_w: "set ?w = insert c (set w)"
    using append_take_drop_id [of k w] by (metis Un_insert_right list.simps(15) set_append)
  have below: "ref_bound K x < At (K i)" if "x \<in> set (take k (refs w))" for x
    using that k(1,2) by (auto simp: in_set_conv_nth)
  have above: "At (K i) < ref_bound K x" if "x \<in> set (drop k (refs w))" for x
    using that k(1,3) by (auto simp: in_set_conv_nth)
  have "sorted_wrt (<) (map (ref_bound K) (take k (refs w) @ drop k (refs w)))"
    using ok by (simp add: woot_ok_def)
  then have "sorted_wrt (<) (map (ref_bound K) (refs ?w))"
    unfolding refs using below above
    by (auto simp: sorted_wrt_append map_append simp del: append_take_drop_id)
  moreover have "cid_norm (previousId c) \<in> set (refs w)" "cid_norm (nextId c) \<in> set (refs w)"
    using p n by (auto simp: cc in_set_conv_nth)
  ultimately have "woot_ok K rank ?w"
    using ok pl ci wc unfolding woot_ok_def set_w set_refs' by (auto simp: cc)
  moreover have "holds_ops (insert op A) ?w"
  proof -
    have "set (refs ?w) = {Start, End} \<union> (\<lambda>op. Cell (op_cell op)) ` {op' \<in> insert op A. is_ins op'}"
      using holds_ops_refs [OF H] ins set_refs' by (auto simp: i_def)
    moreover have "\<forall>d\<in>insert op A. is_del d \<longrightarrow> Cell (op_cell d) \<in> set (refs ?w)"
      using H ins set_refs' by (auto simp: holds_ops_def)
    moreover have "case cid_norm (wid d) of
        Cell i \<Rightarrow> \<exists>op'\<in>insert op A. is_ins op' \<and> op_cell op' = i \<and> d = cell_of (insert op A) op'
      | _ \<Rightarrow> IsSpecialWChar (Some d) \<and> visible d" if "d \<in> set ?w" for d
    proof (cases "d = c")
      case True
      with ins ci wc show ?thesis by (auto simp: i_def cc)
    next
      case False
      with that set_w have "d \<in> set w" by auto
      with holds_ops_cell [OF H this] holds_ops_special [OF H this] show ?thesis
        using ins by (auto split: cell_ref.splits)
    qed
    ultimately show ?thesis unfolding holds_ops_def by blast
  qed
  ultimately show ?thesis using int pk kn unfolding c_def by blast
qed

section \<open>Applying a deletion\<close>

lemma refs_hide: "k < length w \<Longrightarrow> refs (w[k := (w ! k)\<lparr>visible := False\<rparr>]) = refs w"
  by (simp add: refs_def map_update) (metis (no_types, lifting) comp_apply length_map list_update_id nth_map
    wcharacter.select_convs(1) wcharacter.surjective wcharacter.update_convs(3))

lemma hide_op:
  assumes ok: "woot_ok K rank w" and H: "holds_ops A w" and del: "is_del op"
    and k: "k < length w" "refs w ! k = Cell (op_cell op)"
  shows "woot_ok K rank (w[k := (w ! k)\<lparr>visible := False\<rparr>])"
    and "holds_ops (insert op A) (w[k := (w ! k)\<lparr>visible := False\<rparr>])"
proof -
  let ?c = "(w ! k)\<lparr>visible := False\<rparr>"
  let ?w = "w[k := ?c]"
  have refs: "refs ?w = refs w" by (rule refs_hide [OF k(1)])
  have mem: "\<exists>d\<in>set w. wid c = wid d \<and> previousId c = previousId d \<and> nextId c = nextId d" if "c \<in> set ?w" for c
  proof (cases "c = ?c")
    case True
    then show ?thesis using k(1) by (intro bexI [of _ "w ! k"]) simp_all
  next
    case False
    with that show ?thesis using set_update_subset_insert [of w k ?c] by auto
  qed
  show "woot_ok K rank ?w"
    using ok mem unfolding woot_ok_def refs by metis
  have del_iff: "deleted (insert op A) i \<longleftrightarrow> deleted A i \<or> i = op_cell op" for i
    using del by (auto simp: deleted_def)
  have ins_iff: "{op' \<in> insert op A. is_ins op'} = {op' \<in> A. is_ins op'}"
    using del ins_not_del by auto
  have "case cid_norm (wid (?w ! j)) of
      Cell i \<Rightarrow> \<exists>op'\<in>insert op A. is_ins op' \<and> op_cell op' = i \<and> ?w ! j = cell_of (insert op A) op'
    | _ \<Rightarrow> IsSpecialWChar (Some (?w ! j)) \<and> visible (?w ! j)" if j: "j < length w" for j
  proof (cases "cid_norm (wid (w ! j))")
    case (Cell i)
    then obtain op' where op': "op' \<in> A" "is_ins op'" "op_cell op' = i" "w ! j = cell_of A op'"
      using holds_ops_cell [OF H _ Cell] j by auto
    have "i = op_cell op \<longleftrightarrow> j = k"
      using Cell k j nth_eq_iff_index_eq [OF woot_ok_distinct [OF ok], of j k] by (auto simp: refs_nth)
    then have "?w ! j = cell_of (insert op A) op'"
      using op' j k(1) by (auto simp: nth_list_update cell_of_def del_iff)
    moreover have "cid_norm i = Cell i"
      using Cell op' by (metis cell_of_simps(1))
    ultimately show ?thesis using op' by auto
  next
    case Start
    then have "j \<noteq> k" using k by (auto simp: refs_nth)
    with Start holds_ops_special [OF H, of "w ! j"] j show ?thesis by simp
  next
    case End
    then have "j \<noteq> k" using k by (auto simp: refs_nth)
    with End holds_ops_special [OF H, of "w ! j"] j show ?thesis by simp
  qed
  then have "\<forall>d\<in>set ?w. case cid_norm (wid d) of
      Cell i \<Rightarrow> \<exists>op'\<in>insert op A. is_ins op' \<and> op_cell op' = i \<and> d = cell_of (insert op A) op'
    | _ \<Rightarrow> IsSpecialWChar (Some d) \<and> visible d"
    by (auto simp: all_set_conv_all_nth)
  moreover have "Cell (op_cell op) \<in> set (refs w)" using k by (metis nth_mem refs_simps(4))
  ultimately show "holds_ops (insert op A) ?w"
    using H unfolding holds_ops_def refs ins_iff by blast
qed

section \<open>The operations of a site\<close>

text \<open>Receiving an operation in context adds it to the set: no error, no panic, no endless
  recursion.\<close>

lemma computeExtOp_refines:
  assumes ok: "woot_ok K rank (characters s)" and H: "holds_ops A (characters s)" and op: "op_placed K rank op"
    and ctx: "in_context (characters s) op" and new: "is_ins op \<Longrightarrow> Cell (op_cell op) \<notin> set (refs (characters s))"
  obtains w where "computeExtOp s op =
      Ret (s\<lparr>site_clock := vc_Update (site_clock s) (lid_Clock (woot_Id op)), characters := w\<rparr>, None)"
    and "woot_ok K rank w" and "holds_ops (insert op A) w"
proof -
  let ?w = "characters s"
  have exec: "IsExecutable s op"
    using ctx op by (auto simp: IsExecutable_iff in_context_def is_ins_def is_del_def op_placed_def)
  show ?thesis
  proof (cases "is_del op")
    case True
    with ctx op have "cid_norm (op_cell op) \<in> set (refs ?w)" "cid_norm (op_cell op) = Cell (op_cell op)"
      by (simp_all add: in_context_def op_placed_def)
    then obtain k where k: "wstr_GetById ?w (op_cell op) = Some k" "k < length ?w"
      "refs ?w ! k = Cell (op_cell op)" by (metis wstr_GetPos_Some)
    from True have t: "woot_Type op = Deletion" by (simp add: is_del_def)
    show ?thesis
      by (rule that [OF _ hide_op [OF ok H True k(2,3)]])
        (use exec t k in \<open>simp add: computeExtOp_def Let_def IntegrateDel_def wchar_Import_def\<close>)
  next
    case False
    with op have ins: "is_ins op" by (simp add: op_placed_def)
    with ctx obtain p n where p: "wstr_GetById ?w (data_PreviousId (woot_Character op)) = Some p" "p < length ?w"
        "refs ?w ! p = cid_norm (data_PreviousId (woot_Character op))"
      and n: "wstr_GetById ?w (data_NextId (woot_Character op)) = Some n" "n < length ?w"
        "refs ?w ! n = cid_norm (data_NextId (woot_Character op))"
      by (metis False in_context_def wstr_GetPos_Some)
    from integrate_op [OF ok H op ins new [OF ins] p(2,3) n(2,3)] obtain w where
      w: "integrate_ins ?w (wchar_Import (woot_Character op)) (?w ! p) (?w ! n) = Some w"
        "woot_ok K rank w" "holds_ops (insert op A) w" by blast
    show ?thesis
      by (rule that [OF _ w(2,3)])
        (use exec False p n w(1) in \<open>simp add: computeExtOp_def Let_def IntegrateIns_def is_del_def wchar_Import_def\<close>)
  qed
qed

section \<open>Generating an operation\<close>

text \<open>A position between two visible cells, the markers included: not beyond the end of the text.\<close>

definition in_range :: "site \<Rightarrow> int \<Rightarrow> bool" where
  "in_range s pos \<longleftrightarrow> 0 \<le> pos \<and> pos + 1 < 2 ^ 63 \<and>
     pos + 1 < int (length (visible_at (characters s) False))"

definition extend_keys ::
  "(wchar_id \<Rightarrow> key) \<Rightarrow> wchar_id \<Rightarrow> wchar_id \<Rightarrow> wchar_id \<Rightarrow> wchar_id \<Rightarrow> key" where
  "extend_keys K i p n = K(i := psi (ref_bound K (cid_norm p)) (ref_bound K (cid_norm n)) i)"

definition extend_rank ::
  "(cell_ref \<Rightarrow> nat) \<Rightarrow> wchar_id \<Rightarrow> wchar_id \<Rightarrow> wchar_id \<Rightarrow> cell_ref \<Rightarrow> nat" where
  "extend_rank rank i p n = rank(Cell i := Suc (max (rank (cid_norm p)) (rank (cid_norm n))))"

lemma placed_extend:
  assumes "placed K rank j a b" and "j \<noteq> i" and "cid_norm a \<noteq> Cell i" and "cid_norm b \<noteq> Cell i"
  shows "placed (extend_keys K i p n) (extend_rank rank i p n) j a b"
proof -
  have "ref_bound (extend_keys K i p n) r = ref_bound K r" if "r \<noteq> Cell i" for r
    using that by (cases r) (auto simp: extend_keys_def)
  with assms show ?thesis by (simp add: placed_def extend_rank_def) (simp add: extend_keys_def)
qed

lemma ref_bound_extend: "r \<noteq> Cell i \<Longrightarrow> ref_bound (extend_keys K i p n) r = ref_bound K r"
  by (cases r) (auto simp: extend_keys_def)

lemma placed_new:
  assumes "ref_bound K (cid_norm p) < ref_bound K (cid_norm n)"
    and "cid_norm p \<noteq> Cell i" and "cid_norm n \<noteq> Cell i"
  shows "placed (extend_keys K i p n) (extend_rank rank i p n) i p n"
  unfolding placed_def ref_bound_extend [OF assms(2)] ref_bound_extend [OF assms(3)]
  using assms by (simp add: extend_rank_def less_Suc_eq_le) (simp add: extend_keys_def)

lemma woot_ok_extend:
  assumes ok: "woot_ok K rank w" and new: "Cell i \<notin> set (refs w)"
  shows "woot_ok (extend_keys K i p n) (extend_rank rank i p n) w"
proof -
  have neq: "r \<noteq> Cell i" if "r \<in> set (refs w)" for r using that new by blast
  have map: "map (ref_bound (extend_keys K i p n)) (refs w) = map (ref_bound K) (refs w)"
    using neq ref_bound_extend by (intro map_cong) auto
  have "placed (extend_keys K i p n) (extend_rank rank i p n) j (previousId c) (nextId c)"
    if c: "c \<in> set w" "cid_norm (wid c) = Cell j" for c j
  proof (rule placed_extend)
    show "placed K rank j (previousId c) (nextId c)" using ok c by (simp add: woot_ok_def)
    show "cid_norm (previousId c) \<noteq> Cell i" "cid_norm (nextId c) \<noteq> Cell i"
      using ok c neq unfolding woot_ok_def by blast+
    have "Cell j \<in> set (refs w)" using c by (auto simp: set_refs intro: rev_image_eqI)
    then show "j \<noteq> i" using new by blast
  qed
  with ok show ?thesis unfolding woot_ok_def map by blast
qed

text \<open>The clock that names the next operation of a site.\<close>

definition next_clock :: "site \<Rightarrow> vector_clock" where
  "next_clock s = snd (vc_Increment (site_clock s))"

definition next_cell :: "site \<Rightarrow> wchar_id" where
  "next_cell s = WCharacterId (site_id s) (vc_Value (next_clock s))"

lemma GenerateIns_refines:
  assumes ok: "woot_ok K rank (characters s)" and H: "holds_ops A (characters s)"
    and range: "in_range s pos" and clk: "clk_ok (clocks (site_clock s))"
    and proper: "cid_norm (next_cell s) = Cell (next_cell s)"
    and new: "Cell (next_cell s) \<notin> set (refs (characters s))"
  obtains op w p n where "GenerateIns s pos str = Ret (s\<lparr>site_clock := next_clock s, characters := w\<rparr>, op, None)"
    and "woot_Id op = \<lparr>lid_SiteId = site_id s, lid_Clock = clocks (next_clock s)\<rparr>"
    and "is_ins op" and "op_cell op = next_cell s" and "data_AlphaValue (woot_Character op) = str"
    and "p = data_PreviousId (woot_Character op)" and "n = data_NextId (woot_Character op)"
    and "cid_norm p \<in> set (refs (characters s))" and "cid_norm n \<in> set (refs (characters s))"
    and "op_placed (extend_keys K (next_cell s) p n) (extend_rank rank (next_cell s) p n) op"
    and "woot_ok (extend_keys K (next_cell s) p n) (extend_rank rank (next_cell s) p n) w"
    and "holds_ops (insert op A) w"
    and "\<exists>k. visible_at (characters s) False ! nat pos < k \<and> k \<le> visible_at (characters s) False ! nat (pos + 1) \<and>
      w = take k (characters s) @ wchar_Import (woot_Character op) # drop k (characters s)"
proof -
  define w where "w = characters s"
  define V where "V = visible_at w False"
  define a b where "a = V ! nat pos" and "b = V ! nat (pos + 1)"
  define i where "i = next_cell s"
  define op where "op = \<lparr>woot_Id = \<lparr>lid_SiteId = site_id s, lid_Clock = clocks (next_clock s)\<rparr>,
    woot_Type = Insertion, woot_Character = \<lparr>data_Id = i, data_AlphaValue = str, data_Visible = True,
      data_PreviousId = wid (w ! a), data_NextId = wid (w ! b)\<rparr>\<rparr>"
  have range': "0 \<le> pos" "nat (pos + 1) < length V" "pos + 1 < 2 ^ 63"
    using range by (auto simp: in_range_def V_def w_def)
  have ith: "wstr_GetIthVisibleValue w pos False = Inr a" "wstr_GetIthVisibleValue w (wrap64 (pos + 1)) False = Inr b"
    using range' unfolding wstr_GetIthVisibleValue_def V_def [symmetric]
    by (auto simp: Let_def a_def b_def min_def intro!: arg_cong [where f = "(!) V"] arg_cong [where f = nat])
  have ab: "a < b" "b < length w"
    using range' sorted_wrt_nth_less [OF visible_at_sorted, of "nat pos" "nat (pos + 1)" w False] visible_at_mem [of b w False]
    by (auto simp: a_def b_def V_def simp del: visible_at_mem)
  have aw: "a < length w" using ab by simp
  define K' where "K' = extend_keys K i (wid (w ! a)) (wid (w ! b))"
  define rank' where "rank' = extend_rank rank i (wid (w ! a)) (wid (w ! b))"
  have ra: "refs w ! a = cid_norm (wid (w ! a))" "refs w ! b = cid_norm (wid (w ! b))"
    using aw ab by (simp_all add: refs_nth)
  then have mem: "cid_norm (wid (w ! a)) \<in> set (refs w)" "cid_norm (wid (w ! b)) \<in> set (refs w)"
    using aw ab by (metis nth_mem refs_simps(4))+
  with new have neq: "cid_norm (wid (w ! a)) \<noteq> Cell i" "cid_norm (wid (w ! b)) \<noteq> Cell i"
    unfolding i_def w_def by metis+
  have less: "ref_bound K (cid_norm (wid (w ! a))) < ref_bound K (cid_norm (wid (w ! b)))"
    using woot_ok_less [OF ok, folded w_def, OF ab] ra by simp
  have ok': "woot_ok K' rank' w"
    unfolding K'_def rank'_def using ok new unfolding w_def i_def by (rule woot_ok_extend)
  have pl: "op_placed K' rank' op"
    using placed_new [OF less neq] proper
    by (simp add: op_placed_def op_def is_ins_def K'_def rank'_def i_def)
  have ins: "is_ins op" by (simp add: op_def is_ins_def)
  have "Cell (op_cell op) \<notin> set (refs w)" using new by (simp add: op_def i_def w_def)
  from integrate_op [OF ok' H [folded w_def] pl ins this aw _ ab(2)] obtain w' where
    w': "integrate_ins w (wchar_Import (woot_Character op)) (w ! a) (w ! b) = Some w'"
      "woot_ok K' rank' w'" "holds_ops (insert op A) w'"
      "\<exists>k. a < k \<and> k \<le> b \<and> w' = take k w @ wchar_Import (woot_Character op) # drop k w"
    using ra by (auto simp: op_def)
  have copy: "vc_Copy (next_clock s) = clocks (next_clock s)"
    by (simp add: next_clock_def vc_Copy_eq clk_ok_vc_Increment clk)
  have "GenerateIns s pos str = Ret (s\<lparr>site_clock := next_clock s, characters := w'\<rparr>, op, None)"
    using ith w'(1) copy
    by (simp add: GenerateIns_def Let_def w_def [symmetric] next_clock_def [symmetric] IntegrateIns_def
        op_def wchar_Import_def wchar_Export_def i_def next_cell_def)
  then show ?thesis
    using that [of w' op "wid (w ! a)" "wid (w ! b)"] pl w' ins mem
    by (simp add: op_def i_def K'_def rank'_def w_def V_def a_def b_def)
qed

lemma GenerateDel_refines:
  assumes ok: "woot_ok K rank (characters s)" and H: "holds_ops A (characters s)"
    and clk: "clk_ok (clocks (site_clock s))"
    and ith: "wstr_GetIthVisibleValue (characters s) pos True = Inr k"
  obtains op w where "GenerateDel s pos = Ret (s\<lparr>site_clock := next_clock s, characters := w\<rparr>, op, None)"
    and "woot_Id op = \<lparr>lid_SiteId = site_id s, lid_Clock = clocks (next_clock s)\<rparr>"
    and "is_del op" and "op_placed K rank op" and "Cell (op_cell op) \<in> set (refs (characters s))"
    and "op_cell op = wid (characters s ! k)"
    and "woot_ok K rank w" and "holds_ops (insert op A) w"
    and "w = (characters s)[k := (characters s ! k)\<lparr>visible := False\<rparr>]"
proof -
  define w where "w = characters s"
  note k = wstr_GetIth_Inr [OF ith, folded w_def]
  then have kw: "k < length w" and sp: "\<not> IsSpecialWChar (Some (w ! k))" by (simp_all add: visible_at_mem)
  define c where "c = (w ! k)\<lparr>visible := False\<rparr>"
  define op where "op = \<lparr>woot_Id = \<lparr>lid_SiteId = site_id s, lid_Clock = clocks (next_clock s)\<rparr>,
    woot_Type = Deletion, woot_Character = wchar_Export c\<rparr>"
  have del: "is_del op" by (simp add: op_def is_del_def)
  have norm: "cid_norm (wid (w ! k)) = Cell (wid (w ! k))"
    using holds_ops_special [OF H, folded w_def, of "w ! k"] sp kw cid_norm_Cell
    by (cases "cid_norm (wid (w ! k))") auto
  have cell: "op_cell op = wid (w ! k)" by (simp add: op_def c_def wchar_Export_def)
  have r: "refs w ! k = Cell (op_cell op)" using kw norm cell by (simp add: refs_nth)
  note hide = hide_op [OF ok H del, folded w_def, OF kw r]
  have copy: "vc_Copy (next_clock s) = clocks (next_clock s)"
    by (simp add: next_clock_def vc_Copy_eq clk_ok_vc_Increment clk)
  have "GenerateDel s pos = Ret (s\<lparr>site_clock := next_clock s, characters := w[k := c]\<rparr>, op, None)"
    using ith copy kw
    by (simp add: GenerateDel_def Let_def w_def [symmetric] next_clock_def [symmetric] IntegrateDel_def
        op_def c_def)
  moreover have "Cell (op_cell op) \<in> set (refs w)" using r kw by (metis nth_mem refs_simps(4))
  moreover have "op_placed K rank op" using del norm cell ins_not_del by (auto simp: op_placed_def)
  ultimately show ?thesis
    using that [of "w[k := c]" op] hide del cell by (simp add: op_def c_def w_def)
qed

section \<open>What an edit does to the visible text\<close>

text \<open>The visible text as the list of the contents of its cells.\<close>

definition texts :: "wstring \<Rightarrow> string list" where
  "texts w = map alphaValue (filter shown w)"

definition plain :: "string \<Rightarrow> bool" where
  "plain str \<longleftrightarrow> str \<noteq> SPECIAL_START_CHAR \<and> str \<noteq> SPECIAL_END_CHAR"

definition plain_ops :: "woot_operation set \<Rightarrow> bool" where
  "plain_ops A \<longleftrightarrow> (\<forall>op\<in>A. is_ins op \<longrightarrow> plain (data_AlphaValue (woot_Character op)))"

lemma content_texts: "wstr_GetVisibleContent w = concat (texts w)"
  by (simp add: content_concat texts_def)

lemma special_iff: "IsSpecialWChar (Some c) \<longleftrightarrow> \<not> plain (alphaValue c)"
  by (auto simp: IsSpecialWChar_def plain_def)

lemma length_filter_indices:
  "k \<le> length w \<Longrightarrow> length (filter P (take k w)) = length (filter (\<lambda>j. P (w ! j)) [0..<k])"
proof -
  assume "k \<le> length w"
  then have "take k w = map ((!) w) [0..<k]" by (intro nth_equalityI) auto
  then show ?thesis by (simp add: filter_map o_def)
qed

text \<open>The visible cells before an index, in the list of the visible indices.\<close>

lemma visible_prefix:
  assumes "k \<le> length w"
  shows "length (filter (\<lambda>j. visible (w ! j) \<and> \<not> (x \<and> IsSpecialWChar (Some (w ! j)))) [0..<k]) =
    length (filter (\<lambda>j. j < k) (visible_at w x))"
proof -
  have "[0..<length w] = [0..<k] @ [k..<length w]" using assms upt_add_eq_append [of 0 k "length w - k"] by simp
  then show ?thesis
    unfolding visible_at_def filter_filter
    by (auto intro!: arg_cong [where f = length] filter_cong)
qed

lemma sorted_filter_less:
  assumes "sorted_wrt (<) (V :: nat list)" and "q < length V" and "V ! q < k"
    and "q + 1 < length V \<Longrightarrow> k \<le> V ! (q + 1)"
  shows "length (filter (\<lambda>j. j < k) V) = q + 1"
proof -
  have V: "V = take (q + 1) V @ drop (q + 1) V" by simp
  have "j < k" if "j \<in> set (take (q + 1) V)" for j
  proof -
    from that assms(2) obtain m where "m \<le> q" "j = V ! m" by (auto simp: in_set_conv_nth less_Suc_eq_le)
    then have "j \<le> V ! q" using sorted_wrt_nth_less [OF assms(1), of m q] assms(2) by (cases "m = q") auto
    with assms(3) show ?thesis by simp
  qed
  moreover have "\<not> j < k" if "j \<in> set (drop (q + 1) V)" for j
  proof -
    from that obtain m where m: "m < length V - (q + 1)" "j = V ! (q + 1 + m)" by (auto simp: in_set_conv_nth)
    then have "V ! (q + 1) \<le> j"
      using sorted_wrt_nth_less [OF assms(1), of "q + 1" "q + 1 + m"] by (cases m) (auto intro: less_imp_le)
    moreover have "q + 1 < length V" using m(1) by simp
    ultimately show ?thesis using assms(4) by simp
  qed
  ultimately have "filter (\<lambda>j. j < k) V = take (q + 1) V"
    by (subst V, simp only: filter_append) (simp add: filter_True filter_False del: append_take_drop_id)
  then show ?thesis using assms(2) by simp
qed

lemma texts_split:
  "k \<le> length w \<Longrightarrow> length (filter shown (take k w)) = m \<Longrightarrow>
   texts (take k w) = take m (texts w) \<and> texts (drop k w) = drop m (texts w)"
proof -
  assume k: "length (filter shown (take k w)) = m"
  have "texts w = texts (take k w) @ texts (drop k w)"
    by (simp add: texts_def flip: map_append filter_append)
  then show ?thesis using k by (simp add: texts_def)
qed

text \<open>The first visible cell is the start marker, the only special cell before the last one.\<close>

lemma shown_before:
  assumes ok: "woot_ok K rank w" and H: "holds_ops A w" and plain: "plain_ops A"
    and k: "0 < k" "k < length w"
  shows "length (filter shown (take k w)) + 1 = length (filter (\<lambda>j. j < k) (visible_at w False))"
proof -
  have first: "refs w ! 0 = Start"
  proof -
    from ok obtain j where j: "j < length w" "refs w ! j = Start" by (auto simp: woot_ok_def in_set_conv_nth)
    with woot_ok_first [OF ok] show ?thesis by blast
  qed
  have w0: "0 < length w" using k by linarith
  then have sp: "IsSpecialWChar (Some (w ! 0))" "visible (w ! 0)"
    using holds_ops_special [OF H, of "w ! 0"] first by (simp_all add: refs_nth)
  have inner: "\<not> IsSpecialWChar (Some (w ! j))" if j: "0 < j" "j < k" for j
  proof -
    obtain i where i: "refs w ! j = Cell i" by (rule woot_ok_inner [OF ok j k(2)])
    then have "cid_norm (wid (w ! j)) = Cell i" using j k by (simp add: refs_nth)
    from holds_ops_cell [OF H _ this] j k plain show ?thesis
      by (auto simp: special_iff plain_ops_def)
  qed
  have "[0..<k] = 0 # [1..<k]" using k(1) upt_conv_Cons by auto
  moreover have "filter (\<lambda>j. shown (w ! j)) [1..<k] = filter (\<lambda>j. visible (w ! j)) [1..<k]"
    using inner by (intro filter_cong) auto
  ultimately have "length (filter (\<lambda>j. shown (w ! j)) [0..<k]) + 1 = length (filter (\<lambda>j. visible (w ! j)) [0..<k])"
    using sp by simp
  then show ?thesis
    using visible_prefix [of k w False] length_filter_indices [of k w shown] k by simp
qed

lemma insertion_text:
  assumes ok: "woot_ok K rank w" and H: "holds_ops A w" and plain: "plain_ops A"
    and pos: "0 \<le> pos" "nat (pos + 1) < length (visible_at w False)"
    and k: "visible_at w False ! nat pos < k" "k \<le> visible_at w False ! nat (pos + 1)"
    and c: "visible c" "plain (alphaValue c)"
  shows "texts (take k w @ c # drop k w) = take (nat pos) (texts w) @ alphaValue c # drop (nat pos) (texts w)"
proof -
  let ?V = "visible_at w False"
  have "?V ! nat (pos + 1) < length w" using pos visible_at_mem nth_mem by metis
  then have kw: "0 < k" "k < length w" using k by auto
  have "length (filter (\<lambda>j. j < k) ?V) = nat pos + 1"
    using pos k by (intro sorted_filter_less visible_at_sorted) (auto simp: nat_add_distrib)
  with shown_before [OF ok H plain kw] have "length (filter shown (take k w)) = nat pos" by simp
  from texts_split [OF _ this] kw have t: "texts (take k w) = take (nat pos) (texts w)"
    "texts (drop k w) = drop (nat pos) (texts w)" by simp_all
  have "texts (take k w @ c # drop k w) = texts (take k w) @ alphaValue c # texts (drop k w)"
    using c by (simp add: texts_def special_iff)
  with t show ?thesis by simp
qed

lemma deletion_text:
  assumes ith: "wstr_GetIthVisibleValue w pos True = Inr k"
  defines "m \<equiv> min (length (texts w) - 1) (nat pos)"
  shows "texts (w[k := (w ! k)\<lparr>visible := False\<rparr>]) = take m (texts w) @ drop (Suc m) (texts w)"
proof -
  let ?V = "visible_at w True"
  note I = wstr_GetIth_Inr [OF ith]
  have lenV: "length ?V = length (texts w)"
    using visible_prefix [of "length w" w True] length_filter_indices [of "length w" w shown]
    by (simp add: texts_def visible_at_def)
  have "?V \<noteq> []" using I(2) by auto
  then have "0 < length ?V" by simp
  then have "m < length ?V" unfolding m_def lenV [symmetric] by linarith
  then have k: "k = ?V ! m" "m < length ?V" using I(5) unfolding m_def lenV [symmetric] by simp_all
  have count: "length (filter shown (take k w)) = m"
  proof -
    have sk: "length (filter (\<lambda>j. j < Suc k) ?V) = m + 1"
      using k sorted_wrt_nth_less [OF visible_at_sorted, of m "m + 1" w True]
      by (intro sorted_filter_less visible_at_sorted) (auto simp: Suc_le_eq)
    have "shown (w ! k)" using I(2) by (auto simp: visible_at_mem)
    then have "length (filter shown (take (Suc k) w)) = length (filter shown (take k w)) + 1"
      using I(3) by (simp add: take_Suc_conv_app_nth)
    with sk visible_prefix [of "Suc k" w True] length_filter_indices [of "Suc k" w shown] I(3) show ?thesis by simp
  qed
  note t = texts_split [OF less_imp_le [OF I(3)] count]
  have w: "w = take k w @ w ! k # drop (Suc k) w" using I(3) by (simp add: id_take_nth_drop)
  have "shown (w ! k)" using I(2) by (auto simp: visible_at_mem)
  moreover have "drop k w = w ! k # drop (Suc k) w" using I(3) by (simp add: Cons_nth_drop_Suc)
  ultimately have "texts (drop k w) = alphaValue (w ! k) # texts (drop (Suc k) w)" by (simp add: texts_def)
  then have "texts (drop (Suc k) w) = drop (Suc m) (texts w)"
    using t by (metis drop_Suc list.sel(3) tl_drop)
  moreover have "w[k := (w ! k)\<lparr>visible := False\<rparr>] = take k w @ (w ! k)\<lparr>visible := False\<rparr> # drop (Suc k) w"
    using I(3) by (rule upd_conv_take_nth_drop)
  ultimately show ?thesis using t by (simp add: texts_def)
qed

end
