(* ===== verification/Network.thy ===== *)
theory Network
  imports SiteSpec
begin

text \<open>
  Any number of sites that edit their own copy and receive each other's operations in causal order,
  once each: a step relation over the code's \<open>ComputeOp\<close>.  A site generates an operation and sends it
  to all; a sent operation reaches a site at any later time, in any order that respects context.

  The invariant shows for every network that is reachable by edits within the texts that the clocks of
  the operations are a causal history, that identifiers of cells are unique, and that each site's string refines the set of
  operations the site has applied.  Convergence and the absence of panics, errors and endless
  loops on delivery follow.
\<close>

section \<open>The step relation\<close>

record network =
  net_site :: "string \<Rightarrow> site"
  net_sent :: "woot_operation set"
  net_done :: "string \<Rightarrow> woot_operation set"

definition net_init :: network where
  "net_init = \<lparr>net_site = NewSite, net_sent = {}, net_done = (\<lambda>_. {})\<rparr>"

definition apply_at :: "network \<Rightarrow> string \<Rightarrow> site \<Rightarrow> woot_operation \<Rightarrow> network" where
  "apply_at n x s op =
     \<lparr>net_site = (net_site n)(x := s), net_sent = insert op (net_sent n),
      net_done = (net_done n)(x := insert op (net_done n x))\<rparr>"

text \<open>A site can tick while its counter stays below that of the end marker.\<close>

definition can_tick :: "site \<Rightarrow> bool" where
  "can_tick s \<longleftrightarrow> vc_Value (site_clock s) + 1 < MaxValue"

text \<open>The relation takes the edits that are made as a parameter, a predicate of the site and the edit.  The code
  accepts every edit, which is \<open>\<lambda>s l. True\<close>.  The properties are about \<open>within_text\<close>: no insertion past the
  end of the text, where the code takes the end marker for both neighbours.  That this is needed is
  proved in \<open>Replication\<close>.\<close>

definition within_text :: "site \<Rightarrow> local_operation \<Rightarrow> bool" where
  "within_text s l \<longleftrightarrow> can_tick s \<and> (loc_opType l = Insertion \<and> 0 \<le> loc_pos l \<longrightarrow> in_range s (loc_pos l))"

inductive net_step :: "(site \<Rightarrow> local_operation \<Rightarrow> bool) \<Rightarrow> network \<Rightarrow> network \<Rightarrow> bool" for edits where
  generate: "edits (net_site n x) l \<Longrightarrow> ComputeOp (net_site n x) (Local l) = Ret (s, op, None) \<Longrightarrow>
     net_step edits n (apply_at n x s op)"
| refuse: "edits (net_site n x) l \<Longrightarrow> ComputeOp (net_site n x) (Local l) = Ret (s, op, Some e) \<Longrightarrow>
     net_step edits n (n\<lparr>net_site := (net_site n)(x := s)\<rparr>)"
| deliver: "op \<in> net_sent n \<Longrightarrow> op \<notin> net_done n x \<Longrightarrow> in_context (characters (net_site n x)) op \<Longrightarrow>
     ComputeOp (net_site n x) (Woot op) = Ret (s, op', None) \<Longrightarrow> net_step edits n (apply_at n x s op)"

inductive net_reachable :: "(site \<Rightarrow> local_operation \<Rightarrow> bool) \<Rightarrow> network \<Rightarrow> bool" for edits where
  init: "net_reachable edits net_init"
| step: "net_reachable edits n \<Longrightarrow> net_step edits n n' \<Longrightarrow> net_reachable edits n'"

lemma within_text_range:
  assumes "within_text s l" "ComputeOp s (Local l) = Ret (s', op, None)"
  shows "can_tick s" "loc_opType l = Insertion \<longrightarrow> in_range s (loc_pos l)"
proof -
  have "wstr_GetIthVisibleValue w pos False = Inl (Errorf (''occurrence index '' @ dec_int pos @ '' out of range''))"
    if "pos < 0" for w pos
    using that by (simp add: wstr_GetIthVisibleValue_def)
  then have "0 \<le> loc_pos l" if "loc_opType l = Insertion"
    using assms(2) that by (cases "loc_pos l < 0") (simp_all add: ComputeOp_def GenerateIns_def Let_def)
  with assms(1) show "can_tick s" "loc_opType l = Insertion \<longrightarrow> in_range s (loc_pos l)"
    by (auto simp: within_text_def)
qed

inductive_cases net_stepE: "net_step edits n n'"

section \<open>Clocks\<close>

text \<open>\<open>C\<close> gives each site its clock and \<open>I\<close> holds the identifiers of the operations sent.  No clock
  counts more operations of a site than the site itself, and a clock that counts an operation
  counts all that operation knew.\<close>

definition clocks_ok :: "(string \<Rightarrow> vector_clock) \<Rightarrow> logical_id set \<Rightarrow> bool" where
  "clocks_ok C I \<longleftrightarrow>
     (\<forall>x. localId (C x) = x \<and> clk_ok (clocks (C x)) \<and> vc_Value (C x) < MaxValue) \<and>
     (\<forall>x y. clk_val (clocks (C y)) x \<le> vc_Value (C x)) \<and>
     (\<forall>a\<in>I. \<forall>x. clk_val (lid_Clock a) x \<le> vc_Value (C x)) \<and>
     history_ok I \<and>
     (\<forall>a\<in>I. \<forall>x. GetLogicalClock a \<le> clk_val (clocks (C x)) (lid_SiteId a) \<longrightarrow>
        clk_le (lid_Clock a) (clocks (C x)))"

lemma clocks_okD:
  assumes "clocks_ok C I"
  shows "localId (C x) = x" and "clk_ok (clocks (C x))" and "vc_Value (C x) < MaxValue"
    and "clk_val (clocks (C y)) x \<le> vc_Value (C x)" and "vc_Value (C x) = clk_val (clocks (C x)) x"
    and "a \<in> I \<Longrightarrow> clk_val (lid_Clock a) x \<le> vc_Value (C x)" and "history_ok I"
    and "a \<in> I \<Longrightarrow> GetLogicalClock a \<le> clk_val (clocks (C x)) (lid_SiteId a) \<Longrightarrow>
      clk_le (lid_Clock a) (clocks (C x))"
  using assms by (auto simp: clocks_ok_def vc_Value_def) (metis)+

lemma clocks_ok_init: "clocks_ok (\<lambda>x. NewVectorClock x) {}"
  by (auto simp: clocks_ok_def NewVectorClock_def vc_Value_def clk_val_def clk_ok_def MaxValue_def
      MinValue_def history_ok_def)

definition tick :: "vector_clock \<Rightarrow> vector_clock" where
  "tick v = snd (vc_Increment v)"

lemma tick_val:
  assumes "clocks_ok C I" and "vc_Value (C x) + 1 < MaxValue"
  shows "clk_val (clocks (tick (C x))) y = (if y = x then vc_Value (C x) + 1 else clk_val (clocks (C x)) y)"
    and "vc_Value (tick (C x)) = vc_Value (C x) + 1"
  using assms(2) clocks_okD(1,5) [OF assms(1), of x]
  by (auto simp: tick_def clk_val_vc_Increment vc_Value_def)

lemma clocks_ok_tick:
  assumes ok: "clocks_ok C I" and lt: "vc_Value (C x) + 1 < MaxValue"
  shows "clocks_ok (C(x := tick (C x))) I"
proof -
  note D = clocks_okD [OF ok] and T = tick_val [OF ok lt]
  have "clk_le (lid_Clock a) (clocks (tick (C x)))"
    if "a \<in> I" "GetLogicalClock a \<le> clk_val (clocks (tick (C x))) (lid_SiteId a)" for a
  proof -
    have "GetLogicalClock a \<le> clk_val (clocks (C x)) (lid_SiteId a)"
      using that D(5) [of x] D(6) [OF that(1), of x] T(1) by (auto simp: GetLogicalClock_alt split: if_splits)
    then have "clk_le (lid_Clock a) (clocks (C x))" by (rule D(8) [OF that(1)])
    then show ?thesis unfolding tick_def using clk_le_vc_Increment clk_le_trans by blast
  qed
  moreover have "clk_ok (clocks (tick (C x)))" using D(2) by (simp add: tick_def clk_ok_vc_Increment)
  moreover have "localId (tick (C x)) = x" using D(1) by (simp add: tick_def)
  ultimately show ?thesis
    using lt D(4) [of x] D(4) [of _ x] D(6) [of _ x] D T unfolding clocks_ok_def
    by (auto simp: fun_upd_def) (smt (verit) D(4) D(6))+
qed

text \<open>An operation made with a fresh tick joins the history.\<close>

lemma clocks_ok_generate:
  assumes ok: "clocks_ok C I" and lt: "vc_Value (C x) + 1 < MaxValue"
  shows "clocks_ok (C(x := tick (C x))) (insert \<lparr>lid_SiteId = x, lid_Clock = clocks (tick (C x))\<rparr> I)"
    and "\<lparr>lid_SiteId = x, lid_Clock = clocks (tick (C x))\<rparr> \<notin> I"
proof -
  define a where "a = \<lparr>lid_SiteId = x, lid_Clock = clocks (tick (C x))\<rparr>"
  let ?C = "C(x := tick (C x))"
  note D = clocks_okD [OF ok] and T = tick_val [OF ok lt]
  have ok': "clocks_ok ?C I" by (rule clocks_ok_tick [OF ok lt])
  have a: "lid_SiteId a = x" "lid_Clock a = clocks (?C x)" "GetLogicalClock a = vc_Value (C x) + 1"
    using T by (simp_all add: a_def GetLogicalClock_alt)
  have fresh: "clk_val (lid_Clock b) x < GetLogicalClock a" if "b \<in> I" for b
    using D(6) [OF that, of x] a(3) by simp
  then show "\<lparr>lid_SiteId = x, lid_Clock = clocks (tick (C x))\<rparr> \<notin> I"
    using T(1) a unfolding a_def [symmetric] by (metis GetLogicalClock_alt less_irrefl)
  have lid: "lid_ok a"
    using a clocks_okD(2) [OF ok', of x] clk_ok_range(1) [OF D(2), of x x] D(5) [of x] by (simp add: lid_ok_def)
  have notle: "\<not> clk_le (lid_Clock a) (lid_Clock b)" if "b \<in> I" for b
    using fresh [OF that] a by (auto simp: clk_le_def not_le GetLogicalClock_alt intro: exI [of _ x])
  have "history_ok (insert a I)"
    unfolding history_ok_def
  proof (intro conjI ballI impI)
    show "lid_ok b" if "b \<in> insert a I" for b using that lid history_okD(1) [OF D(7)] by auto
    show "clk_le (lid_Clock b) (lid_Clock c)" if "b \<in> insert a I" "c \<in> insert a I"
      "GetLogicalClock b \<le> clk_val (lid_Clock c) (lid_SiteId b)" for b c
      using that fresh [of c] history_okD(2) [OF D(7)] clocks_okD(8) [OF ok', of b x] a
      by (cases "b = a"; cases "c = a") auto
    show "b = c" if "b \<in> insert a I" "c \<in> insert a I"
      "clk_le (lid_Clock b) (lid_Clock c) \<and> clk_le (lid_Clock c) (lid_Clock b)" for b c
      using that notle history_okD(3) [OF D(7)] by auto
  qed
  moreover have "clk_val (lid_Clock a) y \<le> vc_Value (?C y)" for y
    unfolding a(2) by (rule clocks_okD(4) [OF ok'])
  moreover have "clk_le (lid_Clock a) (clocks (?C y))"
    if "GetLogicalClock a \<le> clk_val (clocks (?C y)) x" for y
    using that a D(4) [of y x] by (cases "y = x") auto
  ultimately show "clocks_ok ?C (insert \<lparr>lid_SiteId = x, lid_Clock = clocks (tick (C x))\<rparr> I)"
    using ok' unfolding clocks_ok_def a_def [symmetric] by (auto simp: a(1))
qed

text \<open>A site that receives an operation merges its clock.\<close>

lemma clocks_ok_receive:
  assumes ok: "clocks_ok C I" and a: "a \<in> I"
  shows "clocks_ok (C(x := vc_Update (C x) (lid_Clock a))) I"
proof -
  note D = clocks_okD [OF ok]
  let ?v = "vc_Update (C x) (lid_Clock a)"
  have ca: "clk_ok (lid_Clock a)" using history_okD(1) [OF D(7) a] by (rule lid_okD)
  have val: "clk_val (clocks ?v) y = max (clk_val (clocks (C x)) y) (clk_val (lid_Clock a) y)" for y
    by (rule clk_val_vc_Update [OF D(2) ca])
  have own: "vc_Value ?v = vc_Value (C x)"
    using val [of x] D(1) [of x] D(5) [of x] D(6) [OF a, of x] by (simp add: vc_Value_def)
  have "clk_le (lid_Clock b) (clocks ?v)"
    if b: "b \<in> I" and le: "GetLogicalClock b \<le> clk_val (clocks ?v) (lid_SiteId b)" for b
  proof -
    from le consider "GetLogicalClock b \<le> clk_val (clocks (C x)) (lid_SiteId b)"
      | "GetLogicalClock b \<le> clk_val (lid_Clock a) (lid_SiteId b)" by (auto simp: val max_def split: if_splits)
    then have "clk_le (lid_Clock b) (clocks (C x)) \<or> clk_le (lid_Clock b) (lid_Clock a)"
      using D(8) [OF b] history_okD(2) [OF D(7) b a] by cases blast+
    then show ?thesis by (auto simp: clk_le_def val max_def intro: order_trans)
  qed
  then show ?thesis
    using D D(4) [of x] D(6) [OF a] clk_ok_vc_Update [OF D(2) ca, of x] own val
    unfolding clocks_ok_def by (auto simp: D(6) [OF a])
qed

section \<open>The invariant of the network\<close>

text \<open>The cells an operation may refer to.\<close>

definition known_cells :: "woot_operation set \<Rightarrow> cell_ref set" where
  "known_cells A = {Start, End} \<union> (\<lambda>op. Cell (op_cell op)) ` {op \<in> A. is_ins op}"

text \<open>A sent operation: well placed, its cell named by its own identifier, its neighbours known.\<close>

definition sent_ok :: "(wchar_id \<Rightarrow> key) \<Rightarrow> (cell_ref \<Rightarrow> nat) \<Rightarrow> woot_operation set \<Rightarrow> woot_operation \<Rightarrow> bool" where
  "sent_ok K rank A op \<longleftrightarrow> op_placed K rank op \<and>
     (is_ins op \<longrightarrow>
        op_cell op = WCharacterId (lid_SiteId (woot_Id op)) (GetLogicalClock (woot_Id op)) \<and>
        cid_norm (data_PreviousId (woot_Character op)) \<in> known_cells A \<and>
        cid_norm (data_NextId (woot_Character op)) \<in> known_cells A)"

definition site_ok :: "(wchar_id \<Rightarrow> key) \<Rightarrow> (cell_ref \<Rightarrow> nat) \<Rightarrow> woot_operation set \<Rightarrow> string \<Rightarrow> site \<Rightarrow> bool" where
  "site_ok K rank A x s \<longleftrightarrow> site_id s = x \<and> pendingOps s = [] \<and>
     woot_ok K rank (characters s) \<and> holds_ops A (characters s)"

definition net_ok :: "(wchar_id \<Rightarrow> key) \<Rightarrow> (cell_ref \<Rightarrow> nat) \<Rightarrow> network \<Rightarrow> bool" where
  "net_ok K rank n \<longleftrightarrow>
     clocks_ok (\<lambda>x. site_clock (net_site n x)) (woot_Id ` net_sent n) \<and>
     inj_on woot_Id (net_sent n) \<and>
     (\<forall>op\<in>net_sent n. sent_ok K rank (net_sent n) op) \<and>
     (\<forall>x. net_done n x \<subseteq> net_sent n \<and> site_ok K rank (net_done n x) x (net_site n x))"

lemma known_cells_mono: "A \<subseteq> B \<Longrightarrow> known_cells A \<subseteq> known_cells B"
  by (auto simp: known_cells_def)

lemma site_refs: "site_ok K rank A x s \<Longrightarrow> set (refs (characters s)) = known_cells A"
  by (auto simp: site_ok_def holds_ops_refs known_cells_def)

lemma net_okD:
  assumes "net_ok K rank n"
  shows "clocks_ok (\<lambda>x. site_clock (net_site n x)) (woot_Id ` net_sent n)"
    and "inj_on woot_Id (net_sent n)"
    and "op \<in> net_sent n \<Longrightarrow> sent_ok K rank (net_sent n) op"
    and "net_done n x \<subseteq> net_sent n" and "site_ok K rank (net_done n x) x (net_site n x)"
  using assms by (auto simp: net_ok_def)

lemma net_ok_init: "net_ok K rank net_init"
  using clocks_ok_init NewWString_ok by (simp add: net_ok_def net_init_def site_ok_def NewSite_def)

text \<open>Identifiers of cells are unique: they name their operation.\<close>

lemma net_unique_cells: "net_ok K rank n \<Longrightarrow> unique_cells (net_sent n)"
  unfolding unique_cells_def
proof (intro ballI impI)
  fix a b
  assume ok: "net_ok K rank n" and ab: "a \<in> net_sent n" "b \<in> net_sent n"
    and eq: "is_ins a \<and> is_ins b \<and> op_cell a = op_cell b"
  then have "lid_equals (woot_Id a) (woot_Id b)"
    using net_okD(3) [OF ok ab(1)] net_okD(3) [OF ok ab(2)] by (auto simp: sent_ok_def lid_equals_def)
  then have "woot_Id a = woot_Id b"
    using lid_equals_history [OF clocks_okD(7) [OF net_okD(1) [OF ok]]] ab by blast
  then show "a = b" using net_okD(2) [OF ok] ab by (simp add: inj_on_def)
qed

lemma unique_cells_subset: "unique_cells B \<Longrightarrow> A \<subseteq> B \<Longrightarrow> unique_cells A"
  unfolding unique_cells_def by blast

text \<open>The cell a site would make next is new to the whole network.\<close>

lemma next_clock_tick: "next_clock s = tick (site_clock s)"
  by (simp add: next_clock_def tick_def)

lemma next_cell_fresh:
  assumes ok: "net_ok K rank n" and t: "can_tick (net_site n x)"
  shows "Cell (next_cell (net_site n x)) \<notin> known_cells (net_sent n)"
    and "cid_norm (next_cell (net_site n x)) = Cell (next_cell (net_site n x))"
    and "next_cell (net_site n x) = WCharacterId x (vc_Value (site_clock (net_site n x)) + 1)"
proof -
  note C = net_okD(1) [OF ok]
  note T = tick_val [OF C, of x]
  show nc: "next_cell (net_site n x) = WCharacterId x (vc_Value (site_clock (net_site n x)) + 1)"
    using net_okD(5) [OF ok, of x] T(2) t by (simp add: next_cell_def site_ok_def next_clock_tick can_tick_def)
  have pos: "0 \<le> vc_Value (site_clock (net_site n x))"
    using clk_ok_range(1) [OF clocks_okD(2) [OF C]] clocks_okD(5) [OF C] by metis
  with t show "cid_norm (next_cell (net_site n x)) = Cell (next_cell (net_site n x))"
    unfolding nc by (intro cid_norm_proper) (simp_all add: can_tick_def)
  have "GetLogicalClock (woot_Id op) \<le> vc_Value (site_clock (net_site n x))"
    if "op \<in> net_sent n" "lid_SiteId (woot_Id op) = x" for op
    using clocks_okD(6) [OF C, of "woot_Id op" x] that by (simp add: GetLogicalClock_alt)
  then show "Cell (next_cell (net_site n x)) \<notin> known_cells (net_sent n)"
    using net_okD(3) [OF ok] by (fastforce simp: nc known_cells_def sent_ok_def)
qed

text \<open>Fresh keys leave everything placed.\<close>

lemma sent_ok_extend:
  assumes "sent_ok K rank A op" and "Cell i \<notin> known_cells A" and "op \<in> A"
  shows "sent_ok (extend_keys K i p q) (extend_rank rank i p q) A op"
proof -
  have "placed (extend_keys K i p q) (extend_rank rank i p q) (op_cell op)
      (data_PreviousId (woot_Character op)) (data_NextId (woot_Character op))" if ins: "is_ins op"
  proof (rule placed_extend)
    show "op_cell op \<noteq> i" using assms ins by (auto simp: known_cells_def)
    show "cid_norm (data_PreviousId (woot_Character op)) \<noteq> Cell i"
      "cid_norm (data_NextId (woot_Character op)) \<noteq> Cell i"
      using assms(1,2) ins unfolding sent_ok_def by metis+
    show "placed K rank (op_cell op) (data_PreviousId (woot_Character op)) (data_NextId (woot_Character op))"
      using assms(1) ins unfolding sent_ok_def op_placed_def by blast
  qed
  with assms(1) show ?thesis unfolding sent_ok_def op_placed_def by blast
qed

lemma site_ok_extend:
  "site_ok K rank A x s \<Longrightarrow> Cell i \<notin> known_cells A \<Longrightarrow>
   site_ok (extend_keys K i p q) (extend_rank rank i p q) A x s"
  using woot_ok_extend [of K rank "characters s" i p q] site_refs [of K rank A x s]
  by (simp add: site_ok_def)

lemma sent_ok_mono: "sent_ok K rank A op \<Longrightarrow> A \<subseteq> B \<Longrightarrow> sent_ok K rank B op"
  using known_cells_mono [of A B] by (auto simp: sent_ok_def)

text \<open>A site joins the network after it has generated an operation.\<close>

lemma net_ok_generated:
  assumes ok: "net_ok K rank n" and t: "can_tick (net_site n x)"
    and K': "\<And>op. op \<in> net_sent n \<Longrightarrow> sent_ok K' rank' (net_sent n) op"
      "\<And>y. site_ok K' rank' (net_done n y) y (net_site n y)"
    and s: "site_clock s = next_clock (net_site n x)" "site_ok K' rank' (insert op (net_done n x)) x s"
    and op: "woot_Id op = \<lparr>lid_SiteId = x, lid_Clock = clocks (next_clock (net_site n x))\<rparr>"
      "sent_ok K' rank' (insert op (net_sent n)) op"
  shows "net_ok K' rank' (apply_at n x s op)"
proof -
  let ?C = "\<lambda>y. site_clock (net_site n y)"
  note C = net_okD(1) [OF ok]
  have lt: "vc_Value (?C x) + 1 < MaxValue" using t by (simp add: can_tick_def)
  note gen = clocks_ok_generate [OF C lt, folded next_clock_tick, folded op(1)]
  have eq: "(\<lambda>y. site_clock (net_site (apply_at n x s op) y)) = ?C(x := next_clock (net_site n x))"
    using s(1) by (auto simp: apply_at_def)
  have eq': "woot_Id ` net_sent (apply_at n x s op) = insert (woot_Id op) (woot_Id ` net_sent n)"
    by (simp add: apply_at_def)
  have inj: "inj_on woot_Id (insert op (net_sent n))"
    unfolding inj_on_insert using net_okD(2) [OF ok] gen(2) by blast
  let ?n = "apply_at n x s op"
  show ?thesis
    unfolding net_ok_def
  proof (intro conjI ballI allI)
    show "clocks_ok (\<lambda>y. site_clock (net_site ?n y)) (woot_Id ` net_sent ?n)"
      unfolding eq eq' by (rule gen(1))
    show "inj_on woot_Id (net_sent ?n)" using inj by (simp add: apply_at_def)
    show "sent_ok K' rank' (net_sent ?n) op'" if "op' \<in> net_sent ?n" for op'
      using that op(2) sent_ok_mono [OF K'(1) subset_insertI, of op' op] by (auto simp: apply_at_def)
    show "net_done ?n y \<subseteq> net_sent ?n" for y
      using net_okD(4) [OF ok, of y] by (auto simp: apply_at_def)
    show "site_ok K' rank' (net_done ?n y) y (net_site ?n y)" for y
      using K'(2) [of y] s(2) by (simp add: apply_at_def)
  qed
qed

text \<open>The four kinds of steps.\<close>

lemma net_ok_insertion:
  assumes ok: "net_ok K rank n" and t: "can_tick (net_site n x)" and range: "in_range (net_site n x) pos"
    and gen: "GenerateIns (net_site n x) pos str = Ret (s, op, None)"
  shows "\<exists>K' rank'. net_ok K' rank' (apply_at n x s op)"
proof -
  let ?s = "net_site n x" and ?i = "next_cell (net_site n x)"
  note fresh = next_cell_fresh [OF ok t]
  have sx: "site_ok K rank (net_done n x) x ?s" by (rule net_okD(5) [OF ok])
  then have wk: "woot_ok K rank (characters ?s)" and H: "holds_ops (net_done n x) (characters ?s)"
    and sid: "site_id ?s = x" and pend: "pendingOps ?s = []" by (simp_all add: site_ok_def)
  have sub: "net_done n y \<subseteq> net_sent n" for y by (rule net_okD(4) [OF ok])
  have new: "Cell ?i \<notin> known_cells (net_done n y)" for y
    using fresh(1) known_cells_mono [OF sub] by blast
  then have newr: "Cell ?i \<notin> set (refs (characters ?s))" using site_refs [OF sx] by simp
  obtain op' w p q where
    g: "GenerateIns ?s pos str = Ret (?s\<lparr>site_clock := next_clock ?s, characters := w\<rparr>, op', None)"
    and id: "woot_Id op' = \<lparr>lid_SiteId = site_id ?s, lid_Clock = clocks (next_clock ?s)\<rparr>"
    and ins: "is_ins op'" and cell: "op_cell op' = ?i"
    and pq: "p = data_PreviousId (woot_Character op')" "q = data_NextId (woot_Character op')"
      "cid_norm p \<in> set (refs (characters ?s))" "cid_norm q \<in> set (refs (characters ?s))"
    and pl: "op_placed (extend_keys K ?i p q) (extend_rank rank ?i p q) op'"
    and w: "woot_ok (extend_keys K ?i p q) (extend_rank rank ?i p q) w" "holds_ops (insert op' (net_done n x)) w"
    by (rule GenerateIns_refines [OF wk H range clocks_okD(2) [OF net_okD(1) [OF ok]] fresh(2) newr])
  from g gen have eq: "op = op'" "s = ?s\<lparr>site_clock := next_clock ?s, characters := w\<rparr>" by simp_all
  have "net_ok (extend_keys K ?i p q) (extend_rank rank ?i p q) (apply_at n x s op)"
  proof (rule net_ok_generated [OF ok t])
    show "sent_ok (extend_keys K ?i p q) (extend_rank rank ?i p q) (net_sent n) a" if "a \<in> net_sent n" for a
      by (rule sent_ok_extend [OF net_okD(3) [OF ok that] fresh(1) that])
    show "site_ok (extend_keys K ?i p q) (extend_rank rank ?i p q) (net_done n y) y (net_site n y)" for y
      by (rule site_ok_extend [OF net_okD(5) [OF ok] new])
    show "site_clock s = next_clock ?s" "site_ok (extend_keys K ?i p q) (extend_rank rank ?i p q) (insert op (net_done n x)) x s"
      using w sid pend by (simp_all add: eq site_ok_def)
    show id': "woot_Id op = \<lparr>lid_SiteId = x, lid_Clock = clocks (next_clock ?s)\<rparr>" using id sid eq by simp
    have "known_cells (net_done n x) \<subseteq> known_cells (insert op (net_sent n))"
      using sub by (intro known_cells_mono) auto
    moreover have "GetLogicalClock (woot_Id op) = vc_Value (site_clock ?s) + 1"
      using tick_val(1) [OF net_okD(1) [OF ok], of x x] t
      by (simp add: id' GetLogicalClock_alt next_clock_tick can_tick_def)
    ultimately show "sent_ok (extend_keys K ?i p q) (extend_rank rank ?i p q) (insert op (net_sent n)) op"
      using pl pq site_refs [OF sx] cell fresh(3) id' by (auto simp: sent_ok_def eq)
  qed
  then show ?thesis by blast
qed

lemma net_ok_deletion:
  assumes ok: "net_ok K rank n" and t: "can_tick (net_site n x)"
    and gen: "GenerateDel (net_site n x) pos = Ret (s, op, None)"
  shows "net_ok K rank (apply_at n x s op)"
proof -
  let ?s = "net_site n x"
  have sx: "site_ok K rank (net_done n x) x ?s" by (rule net_okD(5) [OF ok])
  then have wk: "woot_ok K rank (characters ?s)" and H: "holds_ops (net_done n x) (characters ?s)"
    and sid: "site_id ?s = x" and pend: "pendingOps ?s = []" by (simp_all add: site_ok_def)
  obtain k where ith: "wstr_GetIthVisibleValue (characters ?s) pos True = Inr k"
    using gen by (cases "wstr_GetIthVisibleValue (characters ?s) pos True") (auto simp: GenerateDel_def)
  obtain op' w where
    g: "GenerateDel ?s pos = Ret (?s\<lparr>site_clock := next_clock ?s, characters := w\<rparr>, op', None)"
    and id: "woot_Id op' = \<lparr>lid_SiteId = site_id ?s, lid_Clock = clocks (next_clock ?s)\<rparr>"
    and del: "is_del op'" "op_placed K rank op'"
    and w: "woot_ok K rank w" "holds_ops (insert op' (net_done n x)) w"
    by (rule GenerateDel_refines [OF wk H clocks_okD(2) [OF net_okD(1) [OF ok]] ith])
  from g gen have eq: "op = op'" "s = ?s\<lparr>site_clock := next_clock ?s, characters := w\<rparr>" by simp_all
  show ?thesis
  proof (rule net_ok_generated [OF ok t net_okD(3) [OF ok] net_okD(5) [OF ok]])
    show "site_clock s = next_clock ?s" "site_ok K rank (insert op (net_done n x)) x s"
      using w sid pend by (simp_all add: eq site_ok_def)
    show "woot_Id op = \<lparr>lid_SiteId = x, lid_Clock = clocks (next_clock ?s)\<rparr>" using id sid eq by simp
    show "sent_ok K rank (insert op (net_sent n)) op"
      using del eq ins_not_del by (auto simp: sent_ok_def)
  qed
qed

text \<open>A refused operation changes the site's clock at most.\<close>

lemma ComputeOp_refused:
  "ComputeOp s (Local l) = Ret (s', op, Some e) \<Longrightarrow> s' = s \<or> s' = s\<lparr>site_clock := next_clock s\<rparr>"
  by (auto simp: ComputeOp_def GenerateIns_def GenerateDel_def Let_def go_bind_Ret_iff next_clock_def
      split: if_splits sum.splits)

lemma net_ok_refused:
  assumes ok: "net_ok K rank n" and t: "can_tick (net_site n x)"
    and gen: "ComputeOp (net_site n x) (Local l) = Ret (s, op, Some e)"
  shows "net_ok K rank (n\<lparr>net_site := (net_site n)(x := s)\<rparr>)"
proof (cases "s = net_site n x")
  case True
  with ok show ?thesis by simp
next
  case False
  with ComputeOp_refused [OF gen] have s: "s = (net_site n x)\<lparr>site_clock := next_clock (net_site n x)\<rparr>" by blast
  let ?C = "\<lambda>y. site_clock (net_site n y)"
  have eq: "(\<lambda>y. site_clock (((net_site n)(x := s)) y)) = ?C(x := tick (?C x))"
    by (auto simp: s next_clock_tick)
  have "clocks_ok (\<lambda>y. site_clock (((net_site n)(x := s)) y)) (woot_Id ` net_sent n)"
    unfolding eq using t by (intro clocks_ok_tick net_okD(1) [OF ok]) (simp add: can_tick_def)
  with ok show ?thesis by (simp add: net_ok_def site_ok_def s)
qed

lemma deliver_applies:
  assumes ok: "net_ok K rank n" and op: "op \<in> net_sent n" "op \<notin> net_done n x"
    and ctx: "in_context (characters (net_site n x)) op"
  obtains w where "ComputeOp (net_site n x) (Woot op) =
      Ret ((net_site n x)\<lparr>site_clock := vc_Update (site_clock (net_site n x)) (lid_Clock (woot_Id op)),
        characters := w\<rparr>, op, None)"
    and "woot_ok K rank w" and "holds_ops (insert op (net_done n x)) w"
proof -
  let ?s = "net_site n x"
  have sx: "site_ok K rank (net_done n x) x ?s" by (rule net_okD(5) [OF ok])
  then have wk: "woot_ok K rank (characters ?s)" and H: "holds_ops (net_done n x) (characters ?s)"
    and pend: "pendingOps ?s = []" by (simp_all add: site_ok_def)
  have pl: "op_placed K rank op" using net_okD(3) [OF ok op(1)] by (simp add: sent_ok_def)
  have new: "Cell (op_cell op) \<notin> set (refs (characters ?s))" if "is_ins op"
  proof
    assume "Cell (op_cell op) \<in> set (refs (characters ?s))"
    then obtain op' where "op' \<in> net_done n x" "is_ins op'" "op_cell op' = op_cell op"
      using site_refs [OF sx] by (auto simp: known_cells_def)
    then show False
      using net_unique_cells [OF ok] net_okD(4) [OF ok, of x] op that unfolding unique_cells_def by blast
  qed
  obtain w where "computeExtOp ?s op =
      Ret (?s\<lparr>site_clock := vc_Update (site_clock ?s) (lid_Clock (woot_Id op)), characters := w\<rparr>, None)"
    and "woot_ok K rank w" and "holds_ops (insert op (net_done n x)) w"
    by (rule computeExtOp_refines [OF wk H pl ctx new])
  then show ?thesis
    using pend by (intro that [of w]) (simp_all add: ComputeOp_def tryComputePendings_Nil)
qed

lemma net_ok_delivery:
  assumes ok: "net_ok K rank n" and op: "op \<in> net_sent n" "op \<notin> net_done n x"
    and ctx: "in_context (characters (net_site n x)) op"
    and run: "ComputeOp (net_site n x) (Woot op) = Ret (s, op', None)"
  shows "net_ok K rank (apply_at n x s op)"
proof -
  let ?C = "\<lambda>y. site_clock (net_site n y)"
  obtain w where r: "ComputeOp (net_site n x) (Woot op) =
      Ret ((net_site n x)\<lparr>site_clock := vc_Update (?C x) (lid_Clock (woot_Id op)), characters := w\<rparr>, op, None)"
    and w: "woot_ok K rank w" "holds_ops (insert op (net_done n x)) w"
    by (rule deliver_applies [OF ok op ctx])
  from trans [OF run [symmetric] r]
  have s: "s = (net_site n x)\<lparr>site_clock := vc_Update (?C x) (lid_Clock (woot_Id op)), characters := w\<rparr>"
    by auto
  let ?n = "apply_at n x s op"
  have sent: "net_sent ?n = net_sent n" using op(1) by (auto simp: apply_at_def)
  have eq: "(\<lambda>y. site_clock (net_site ?n y)) = ?C(x := vc_Update (?C x) (lid_Clock (woot_Id op)))"
    by (auto simp: apply_at_def s)
  show ?thesis
    unfolding net_ok_def sent
  proof (intro conjI ballI allI)
    show "clocks_ok (\<lambda>y. site_clock (net_site ?n y)) (woot_Id ` net_sent n)"
      unfolding eq by (intro clocks_ok_receive net_okD(1) [OF ok] imageI op(1))
    show "inj_on woot_Id (net_sent n)" by (rule net_okD(2) [OF ok])
    show "sent_ok K rank (net_sent n) a" if "a \<in> net_sent n" for a by (rule net_okD(3) [OF ok that])
    show "net_done ?n y \<subseteq> net_sent n" for y
      using net_okD(4) [OF ok, of y] op(1) by (auto simp: apply_at_def)
    show "site_ok K rank (net_done ?n y) y (net_site ?n y)" for y
      using net_okD(5) [OF ok, of y] w by (cases "y = x") (simp_all add: apply_at_def site_ok_def s)
  qed
qed

lemma net_ok_step: "net_ok K rank n \<Longrightarrow> net_step within_text n n' \<Longrightarrow> \<exists>K rank. net_ok K rank n'"
proof (erule net_stepE)
  fix x l s op
  assume ok: "net_ok K rank n" and n': "n' = apply_at n x s op"
    and l: "within_text (net_site n x) l" and run: "ComputeOp (net_site n x) (Local l) = Ret (s, op, None)"
  note t = within_text_range [OF l run]
  show "\<exists>K rank. net_ok K rank n'"
  proof (cases "loc_opType l = Insertion")
    case True
    with net_ok_insertion [OF ok t(1), of "loc_pos l" "loc_content l" s op] run t(2) show ?thesis
      unfolding n' by (simp add: ComputeOp_def)
  next
    case False
    with net_ok_deletion [OF ok t(1), of "loc_pos l" s op] run show ?thesis
      unfolding n' by (auto simp: ComputeOp_def)
  qed
next
  fix x l s op e
  assume "net_ok K rank n" "n' = n\<lparr>net_site := (net_site n)(x := s)\<rparr>" "within_text (net_site n x) l"
    "ComputeOp (net_site n x) (Local l) = Ret (s, op, Some e)"
  then show "\<exists>K rank. net_ok K rank n'" using net_ok_refused unfolding within_text_def by blast
qed (use net_ok_delivery in blast)

lemma net_reachable_ok: "net_reachable within_text n \<Longrightarrow> \<exists>K rank. net_ok K rank n"
  by (induction rule: net_reachable.induct) (use net_ok_init net_ok_step in blast)+

section \<open>Properties\<close>

text \<open>Two sites, one insertion, delivered: the example of the witnesses.\<close>

definition hello :: local_operation where
  "hello = CreateNewLocalOp Insertion 0 ''hello'' ''a''"

definition hello_op :: woot_operation where
  "hello_op = \<lparr>woot_Id = \<lparr>lid_SiteId = ''a'', lid_Clock = [(''a'', 1)]\<rparr>, woot_Type = Insertion,
     woot_Character = \<lparr>data_Id = WCharacterId ''a'' 1, data_AlphaValue = ''hello'', data_Visible = True,
       data_PreviousId = WCharacterId ''a'' 0, data_NextId = WCharacterId ''a'' MaxValue\<rparr>\<rparr>"

definition hello_site :: "string \<Rightarrow> clock_map \<Rightarrow> site" where
  "hello_site x m = \<lparr>site_id = x, site_clock = \<lparr>localId = x, clocks = m\<rparr>,
     characters = [GetNewSpecialStartWChar x, wchar_Import (woot_Character hello_op), GetNewSpecialEndWChar x],
     pendingOps = []\<rparr>"

definition net_one :: network where
  "net_one = apply_at net_init ''a'' (hello_site ''a'' [(''a'', 1)]) hello_op"

definition net_two :: network where
  "net_two = apply_at net_one ''b'' (hello_site ''b'' [(''b'', 0), (''a'', 1)]) hello_op"

lemma net_one_reachable: "net_reachable within_text net_one"
  unfolding net_one_def
proof (rule net_reachable.step [OF net_reachable.init], rule net_step.generate)
  show "ComputeOp (net_site net_init ''a'') (Local hello) =
    Ret (hello_site ''a'' [(''a'', 1)], hello_op, None)"
    unfolding net_init_def network.select_convs by code_simp
  show "within_text (net_site net_init ''a'') hello" unfolding net_init_def network.select_convs by code_simp
qed

lemma net_one_site: "net_site net_one ''b'' = NewSite ''b''" "net_sent net_one = {hello_op}"
  "net_done net_one ''b'' = {}" "net_site net_one ''a'' = hello_site ''a'' [(''a'', 1)]"
  by (simp_all add: net_one_def apply_at_def net_init_def)

lemma hello_in_context: "in_context (characters (net_site net_one ''b'')) hello_op"
proof -
  have "wstr_Contains (characters (NewSite ''b'')) (data_PreviousId (woot_Character hello_op))"
    "wstr_Contains (characters (NewSite ''b'')) (data_NextId (woot_Character hello_op))" by code_simp+
  moreover have "\<not> is_del hello_op" by (simp add: is_del_def hello_op_def)
  ultimately show ?thesis unfolding net_one_site in_context_def wstr_Contains_iff by simp
qed

lemma net_two_reachable: "net_reachable within_text net_two"
  unfolding net_two_def
proof (rule net_reachable.step [OF net_one_reachable], rule net_step.deliver)
  show "ComputeOp (net_site net_one ''b'') (Woot hello_op) =
    Ret (hello_site ''b'' [(''b'', 0), (''a'', 1)], hello_op, None)"
    unfolding net_one_site by code_simp
qed (simp_all add: net_one_site hello_in_context [unfolded net_one_site])

text \<open>The operations a site has applied determine the text it shows.\<close>

lemma same_done_same_text:
  assumes "net_reachable within_text n" and "net_done n x = net_done n y"
  shows "GetCurrentData (net_site n x) = GetCurrentData (net_site n y)"
proof -
  obtain K rank where ok: "net_ok K rank n" using net_reachable_ok [OF assms(1)] by blast
  have u: "unique_cells (net_done n x)"
    by (rule unique_cells_subset [OF net_unique_cells [OF ok] net_okD(4) [OF ok]])
  have "site_ok K rank (net_done n x) x (net_site n x)" "site_ok K rank (net_done n x) y (net_site n y)"
    using net_okD(5) [OF ok, of x] net_okD(5) [OF ok, of y] assms(2) by simp_all
  then show ?thesis
    unfolding GetCurrentData_def site_ok_def by (blast intro: content_determined [OF _ _ _ _ u])
qed

text \<open>C4. Strong eventual consistency of \<open>Site\<close>: in a run of any number of sites that edit within their texts (no
  insertion past the end, counters below the bound) and receive each other's operations once each and in
  causal order, two sites that have applied the same operations show the same text, whatever the orders
  were.\<close>

theorem sites_converge:
  assumes "net_reachable within_text n" and "net_done n x = net_done n y"
  shows "GetCurrentData (net_site n x) = GetCurrentData (net_site n y)"
  by (rule same_done_same_text [OF assms])

theorem sites_converge_witness:
  "net_reachable within_text net_two \<and> GetCurrentData (net_site net_two ''a'') = GetCurrentData (net_site net_two ''b'')"
proof -
  have "net_done net_two ''a'' = net_done net_two ''b''"
    by (simp add: net_two_def net_one_def apply_at_def net_init_def)
  then show ?thesis using sites_converge [OF net_two_reachable] net_two_reachable by blast
qed

text \<open>C7. In a run whose edits stay within the texts, an operation that was sent, was not delivered yet and whose
  context has arrived is applied when it is delivered: \<open>ComputeOp\<close> returns, without error, panic, endless
  recursion or pending operation, and the site's clock is merged with the operation's.\<close>

theorem delivery_succeeds:
  assumes "net_reachable within_text n" and "op \<in> net_sent n" and "op \<notin> net_done n x"
    and "in_context (characters (net_site n x)) op"
  shows "\<exists>s. ComputeOp (net_site n x) (Woot op) = Ret (s, op, None) \<and> pendingOps s = [] \<and>
    site_clock s = vc_Update (site_clock (net_site n x)) (lid_Clock (woot_Id op))"
proof -
  obtain K rank where ok: "net_ok K rank n" using net_reachable_ok [OF assms(1)] by blast
  obtain w where "ComputeOp (net_site n x) (Woot op) =
      Ret ((net_site n x)\<lparr>site_clock := vc_Update (site_clock (net_site n x)) (lid_Clock (woot_Id op)),
        characters := w\<rparr>, op, None)"
    by (rule deliver_applies [OF ok assms(2-4)])
  then show ?thesis using net_okD(5) [OF ok, of x] by (simp add: site_ok_def)
qed

theorem delivery_succeeds_witness:
  "\<exists>s. ComputeOp (NewSite ''b'') (Woot hello_op) = Ret (s, hello_op, None)"
  using delivery_succeeds [OF net_one_reachable, of hello_op "''b''"] hello_in_context
  by (auto simp: net_one_site)

text \<open>C20. The clocks record causality in every run whose edits stay within the texts: they are well formed, count
  their own operation, an operation that knows another knows all the other knew, and different operations
  have incomparable or strictly ordered clocks.\<close>

theorem sent_operations_causal:
  assumes "net_reachable within_text n"
  shows "history_ok (woot_Id ` net_sent n) \<and> inj_on woot_Id (net_sent n)"
proof -
  obtain K rank where ok: "net_ok K rank n" using net_reachable_ok [OF assms] by blast
  show ?thesis using clocks_okD(7) [OF net_okD(1) [OF ok]] net_okD(2) [OF ok] by blast
qed

theorem sent_operations_causal_witness: "history_ok (woot_Id ` {hello_op})"
  using sent_operations_causal [OF net_one_reachable] by (simp add: net_one_site)

text \<open>Identifiers of cells are never reused: two insertions of a run that carry the same identifier
  are the same operation, and no identifier is mistaken for a marker.\<close>

theorem cell_ids_unique:
  assumes "net_reachable within_text n" and "a \<in> net_sent n" and "b \<in> net_sent n"
    and "woot_Type a = Insertion" and "woot_Type b = Insertion"
  shows "(WCharacterIdEquals (op_cell a) (op_cell b) \<longrightarrow> a = b) \<and>
    0 < IdClock (op_cell a) \<and> IdClock (op_cell a) < MaxValue"
proof -
  obtain K rank where ok: "net_ok K rank n" using net_reachable_ok [OF assms(1)] by blast
  note C = net_okD(1) [OF ok]
  have cell: "op_cell op = WCharacterId (lid_SiteId (woot_Id op)) (GetLogicalClock (woot_Id op))"
    "cid_norm (op_cell op) = Cell (op_cell op)" if "op \<in> net_sent n" "woot_Type op = Insertion" for op
    using net_okD(3) [OF ok that(1)] that(2) by (auto simp: sent_ok_def op_placed_def is_ins_def)
  have "WCharacterIdEquals (op_cell a) (op_cell b) \<Longrightarrow> a = b"
    using net_unique_cells [OF ok] assms cell(2) by (auto simp: WCharacterIdEquals_norm unique_cells_def is_ins_def)
  moreover have "0 < GetLogicalClock (woot_Id a)"
    using history_okD(1) [OF clocks_okD(7) [OF C]] assms(2) by (auto simp: lid_ok_def)
  moreover have "GetLogicalClock (woot_Id a) < MaxValue"
    using clocks_okD(6) [OF C, of "woot_Id a" "lid_SiteId (woot_Id a)"] clocks_okD(3) [OF C, of "lid_SiteId (woot_Id a)"]
      assms(2) by (simp add: GetLogicalClock_alt)
  ultimately show ?thesis using cell(1) [OF assms(2,4)] by simp
qed

theorem cell_ids_unique_witness: "0 < IdClock (op_cell hello_op) \<and> IdClock (op_cell hello_op) < MaxValue"
  using cell_ids_unique [OF net_one_reachable, of hello_op hello_op]
  by (simp add: net_one_site) (simp add: hello_op_def)

text \<open>C8. In a run whose edits stayed within the texts and whose operations carry plain content, an insertion of
  plain content at a position of the text, not past its end, by a site whose counter is below the bound, puts
  its content at that position and changes nothing else of what is visible, also when deleted cells hide
  between the neighbours.\<close>

theorem insertion_at_position:
  assumes "net_reachable within_text n" and "can_tick (net_site n x)" and "in_range (net_site n x) pos"
    and "plain str" and "plain_ops (net_sent n)"
  shows "\<exists>s op. GenerateIns (net_site n x) pos str = Ret (s, op, None) \<and>
    texts (characters s) = take (nat pos) (texts (characters (net_site n x))) @ str #
      drop (nat pos) (texts (characters (net_site n x)))"
proof -
  let ?s = "net_site n x"
  obtain K rank where ok: "net_ok K rank n" using net_reachable_ok [OF assms(1)] by blast
  have sx: "site_ok K rank (net_done n x) x ?s" by (rule net_okD(5) [OF ok])
  then have wk: "woot_ok K rank (characters ?s)" and H: "holds_ops (net_done n x) (characters ?s)"
    by (simp_all add: site_ok_def)
  have "known_cells (net_done n x) \<subseteq> known_cells (net_sent n)" by (rule known_cells_mono [OF net_okD(4) [OF ok]])
  then have new: "Cell (next_cell ?s) \<notin> set (refs (characters ?s))"
    using next_cell_fresh(1) [OF ok assms(2)] site_refs [OF sx] by auto
  have plain: "plain_ops (net_done n x)" using assms(5) net_okD(4) [OF ok, of x] by (auto simp: plain_ops_def)
  have range: "0 \<le> pos" "nat (pos + 1) < length (visible_at (characters ?s) False)"
    using assms(3) by (auto simp: in_range_def)
  obtain op w p q where g: "GenerateIns ?s pos str = Ret (?s\<lparr>site_clock := next_clock ?s, characters := w\<rparr>, op, None)"
    and val: "data_AlphaValue (woot_Character op) = str" and ins: "is_ins op"
    and pl: "op_placed (extend_keys K (next_cell ?s) p q) (extend_rank rank (next_cell ?s) p q) op"
    and k: "\<exists>k. visible_at (characters ?s) False ! nat pos < k \<and> k \<le> visible_at (characters ?s) False ! nat (pos + 1) \<and>
      w = take k (characters ?s) @ wchar_Import (woot_Character op) # drop k (characters ?s)"
    by (rule GenerateIns_refines [OF wk H assms(3) clocks_okD(2) [OF net_okD(1) [OF ok]] next_cell_fresh(2) [OF ok assms(2)] new])
  have c: "visible (wchar_Import (woot_Character op))" "alphaValue (wchar_Import (woot_Character op)) = str"
    using pl ins val by (simp_all add: op_placed_def wchar_Import_def)
  have "texts w = take (nat pos) (texts (characters ?s)) @ str # drop (nat pos) (texts (characters ?s))"
    using insertion_text [OF wk H plain range] k c assms(4) by auto
  with g show ?thesis by auto
qed

theorem insertion_at_position_witness:
  "\<exists>s op. GenerateIns (NewSite ''a'') 0 ''x'' = Ret (s, op, None) \<and> texts (characters s) = [''x'']"
proof -
  have "can_tick (NewSite ''a'')" "in_range (NewSite ''a'') 0" "plain ''x''" "texts (characters (NewSite ''a'')) = []"
    by code_simp+
  then show ?thesis
    using insertion_at_position [OF net_reachable.init, of "''a''" 0 "''x''"]
    by (simp add: net_init_def plain_ops_def)
qed

text \<open>C9. In a run whose edits stayed within the texts a deletion at a position removes exactly the visible content
  at that position; a position beyond the end removes the last one, and an empty text gives an error and changes nothing.\<close>

theorem deletion_at_position:
  assumes "net_reachable within_text n" and "0 \<le> pos"
  shows "if texts (characters (net_site n x)) = []
    then GenerateDel (net_site n x) pos =
      Ret (net_site n x, zero_woot, Some (Errorf ''no elements are present to be deleted''))
    else \<exists>s op. GenerateDel (net_site n x) pos = Ret (s, op, None) \<and>
      (let t = texts (characters (net_site n x)); m = min (length t - 1) (nat pos)
       in texts (characters s) = take m t @ drop (Suc m) t)"
proof -
  let ?s = "net_site n x" let ?w = "characters (net_site n x)"
  obtain K rank where ok: "net_ok K rank n" using net_reachable_ok [OF assms(1)] by blast
  have sx: "site_ok K rank (net_done n x) x ?s" by (rule net_okD(5) [OF ok])
  then have wk: "woot_ok K rank ?w" and H: "holds_ops (net_done n x) ?w" by (simp_all add: site_ok_def)
  have len: "length (visible_at ?w True) = length (texts ?w)"
    using length_filter_indices [of "length ?w" ?w shown] by (simp add: texts_def visible_at_def)
  show ?thesis
  proof (cases "texts ?w = []")
    case True
    then have "visible_at ?w True = []" using len by simp
    with assms(2) have "wstr_GetIthVisibleValue ?w pos True = Inl (Errorf ''no elements are present to be deleted'')"
      by (simp add: wstr_GetIthVisibleValue_def)
    with True show ?thesis by (simp add: GenerateDel_def)
  next
    case False
    then have "visible_at ?w True \<noteq> []" using len by auto
    then obtain k where ith: "wstr_GetIthVisibleValue ?w pos True = Inr k"
      using wstr_GetIth_nonempty [OF assms(2)] by blast
    obtain op w where "GenerateDel ?s pos = Ret (?s\<lparr>site_clock := next_clock ?s, characters := w\<rparr>, op, None)"
      and "w = ?w[k := (?w ! k)\<lparr>visible := False\<rparr>]"
      by (rule GenerateDel_refines [OF wk H clocks_okD(2) [OF net_okD(1) [OF ok]] ith])
    with deletion_text [OF ith] False show ?thesis by (simp add: Let_def)
  qed
qed

theorem deletion_at_position_witness:
  "\<exists>s op. GenerateDel (hello_site ''a'' [(''a'', 1)]) 7 = Ret (s, op, None) \<and> texts (characters s) = []"
proof -
  have "texts (characters (hello_site ''a'' [(''a'', 1)])) = [''hello'']" by code_simp
  then show ?thesis
    using deletion_at_position [OF net_one_reachable, of 7 "''a''"] by (simp add: net_one_site)
qed

end
