(* ===== verification/OpStates.thy ===== *)
theory OpStates
  imports Operations
begin

text \<open>
  The operation log of \<open>cvrdt/state.go\<close>: \<open>CvRDTState\<close>, a slice of operations kept sorted by their
  three-way comparison and searched by bisection.  The operations are values of an interface, so the
  functions take its method \<open>CompareOperation\<close> as the argument \<open>cmp\<close>.

  The interface is the locale \<open>op_order\<close>: on a set \<open>S\<close> of operations the comparison is a linear
  order.  Under it the log is a sorted list without duplicates, determined by its set, and \<open>Merge\<close> is
  the union of sets: commutative, associative and idempotent, which is what makes the log a
  state-based CRDT.  The interpretation at the end shows that the code's comparison meets the
  interface on the operations of two sites.
\<close>

section \<open>The code\<close>

function binarySearch_loop ::
  "('op \<Rightarrow> 'op \<Rightarrow> int) \<Rightarrow> 'op list \<Rightarrow> 'op \<Rightarrow> nat \<Rightarrow> nat \<Rightarrow> nat \<times> bool" where
  "binarySearch_loop cmp w op left right =
     (if left < right then
        let mid = left + (right - left) div 2; c = cmp (w ! mid) op
        in if c = 0 then (mid, True)
           else if c < 0 then binarySearch_loop cmp w op (mid + 1) right
           else binarySearch_loop cmp w op left mid
      else (left, False))"
  by pat_completeness auto
termination
  by (relation "measure (\<lambda>(cmp, w, op, left, right). right - left)") auto

declare binarySearch_loop.simps [simp del]

definition binarySearch :: "('op \<Rightarrow> 'op \<Rightarrow> int) \<Rightarrow> 'op list \<Rightarrow> 'op \<Rightarrow> nat \<times> bool" where
  "binarySearch cmp w op = binarySearch_loop cmp w op 0 (length w)"

definition state_insert :: "('op \<Rightarrow> 'op \<Rightarrow> int) \<Rightarrow> 'op list \<Rightarrow> 'op \<Rightarrow> 'op list" where
  "state_insert cmp w op =
     (case binarySearch cmp w op of (idx, exists) \<Rightarrow>
        if exists then w else take idx w @ op # drop idx w)"

definition state_contains :: "('op \<Rightarrow> 'op \<Rightarrow> int) \<Rightarrow> 'op list \<Rightarrow> 'op \<Rightarrow> bool" where
  "state_contains cmp w op = snd (binarySearch cmp w op)"

definition GetNewStateFromOp :: "('op \<Rightarrow> 'op \<Rightarrow> int) \<Rightarrow> 'op list \<Rightarrow> 'op list" where
  "GetNewStateFromOp cmp ops = foldl (state_insert cmp) [] ops"

definition state_Merge :: "('op \<Rightarrow> 'op \<Rightarrow> int) \<Rightarrow> 'op list \<Rightarrow> 'op list \<Rightarrow> 'op list" where
  "state_Merge cmp w state =
     foldl (\<lambda>w op. if \<not> state_contains cmp w op then state_insert cmp w op else w) w state"

definition state_Clone :: "'op list \<Rightarrow> 'op list" where
  "state_Clone w = w"

section \<open>The interface: a comparison that is a linear order on S\<close>

locale op_order =
  fixes cmp :: "'op \<Rightarrow> 'op \<Rightarrow> int" and S :: "'op set"
  assumes cmp_eq: "a \<in> S \<Longrightarrow> b \<in> S \<Longrightarrow> cmp a b = 0 \<longleftrightarrow> a = b"
    and cmp_flip: "a \<in> S \<Longrightarrow> b \<in> S \<Longrightarrow> cmp a b < 0 \<longleftrightarrow> 0 < cmp b a"
    and cmp_trans: "a \<in> S \<Longrightarrow> b \<in> S \<Longrightarrow> c \<in> S \<Longrightarrow> cmp a b < 0 \<Longrightarrow> cmp b c < 0 \<Longrightarrow> cmp a c < 0"
begin

lemma cmp_cases:
  "a \<in> S \<Longrightarrow> b \<in> S \<Longrightarrow> a \<noteq> b \<Longrightarrow> \<not> cmp a b < 0 \<Longrightarrow> cmp b a < 0"
  using cmp_eq [of a b] cmp_flip [of b a] by linarith

abbreviation asc :: "'op list \<Rightarrow> bool" where
  "asc w \<equiv> sorted_wrt (\<lambda>a b. cmp a b < 0) w"

lemma cmp_irrefl: "a \<in> S \<Longrightarrow> \<not> cmp a a < 0"
  using cmp_eq [of a a] by simp

lemma asc_distinct: "asc w \<Longrightarrow> set w \<subseteq> S \<Longrightarrow> distinct w"
  by (induction w) (use cmp_irrefl in auto)

text \<open>A sorted log is determined by its set: two replicas with the same operations have the same
  slice.\<close>

lemma asc_unique:
  "asc v \<Longrightarrow> asc w \<Longrightarrow> set v = set w \<Longrightarrow> set w \<subseteq> S \<Longrightarrow> v = w"
proof (induction v arbitrary: w)
  case (Cons a v)
  then obtain b w' where w: "w = b # w'" by (cases w) auto
  have ab: "a = b"
  proof (rule ccontr)
    assume ne: "a \<noteq> b"
    then have "b \<in> set v" and "a \<in> set w'" using Cons.prems(3) w by auto
    then have "cmp a b < 0" and "cmp b a < 0" using Cons.prems w by auto
    moreover have "a \<in> S" and "b \<in> S"
      using Cons.prems(4) w \<open>a \<in> set w'\<close> by auto
    ultimately show False
      using cmp_trans [of a b a] cmp_irrefl [of a] by blast
  qed
  have "set (a # v) \<subseteq> S" using Cons.prems(3,4) by blast
  from asc_distinct [OF Cons.prems(2,4)] asc_distinct [OF Cons.prems(1) this]
  have "a \<notin> set v" and "b \<notin> set w'" using w by auto
  with Cons.prems(3) ab w have "set v = set w'" by auto
  with Cons ab w show ?case by auto
qed simp

text \<open>The bisection, between two indices that enclose the place of the operation.\<close>

lemma loop_correct:
  assumes "asc w" and "set w \<subseteq> S" and "op \<in> S"
    and "left \<le> right" and "right \<le> length w"
    and "\<And>j. j < left \<Longrightarrow> cmp (w ! j) op < 0"
    and "\<And>j. right \<le> j \<Longrightarrow> j < length w \<Longrightarrow> cmp op (w ! j) < 0"
    and "binarySearch_loop cmp w op left right = (i, found)"
  shows "if found then i < length w \<and> w ! i = op
     else i \<le> length w \<and> (\<forall>j<i. cmp (w ! j) op < 0) \<and>
       (\<forall>j. i \<le> j \<and> j < length w \<longrightarrow> cmp op (w ! j) < 0)"
  using assms(4-8)
proof (induction "right - left" arbitrary: left right rule: less_induct)
  case less
  define mid where "mid = left + (right - left) div 2"
  show ?case
  proof (cases "left < right")
    case False
    with less.prems have "left = right" "i = left" "\<not> found"
      by (simp_all add: binarySearch_loop.simps)
    with less.prems show ?thesis by simp
  next
    case True
    then have mid: "left \<le> mid" "mid < right" "mid < length w"
      using less.prems(2) by (auto simp: mid_def)
    have mem: "w ! j \<in> S" if "j < length w" for j using assms(2) that nth_mem by blast
    have step: "binarySearch_loop cmp w op left right =
      (if cmp (w ! mid) op = 0 then (mid, True)
       else if cmp (w ! mid) op < 0 then binarySearch_loop cmp w op (mid + 1) right
       else binarySearch_loop cmp w op left mid)"
      using True by (simp add: binarySearch_loop.simps [of cmp w op left right] mid_def Let_def)
    consider "cmp (w ! mid) op = 0" | "cmp (w ! mid) op < 0" | "cmp op (w ! mid) < 0"
      using cmp_cases [OF mem [OF mid(3)] assms(3)] cmp_eq [OF mem [OF mid(3)] assms(3)] by fastforce
    then show ?thesis
    proof cases
      case 1
      with step less.prems mid show ?thesis using cmp_eq [OF mem [OF mid(3)] assms(3)] by auto
    next
      case 2
      have "cmp (w ! j) op < 0" if "j < mid + 1" for j
      proof (cases "j = mid")
        case False
        with that have "cmp (w ! j) (w ! mid) < 0"
          using assms(1) mid by (simp add: sorted_wrt_iff_nth_less)
        moreover have "j < length w" using that mid by simp
        ultimately show ?thesis using cmp_trans [OF mem mem [OF mid(3)] assms(3) _ 2] by blast
      qed (use 2 in simp)
      with less.hyps [of right "mid + 1"] less.prems mid 2 step show ?thesis by simp
    next
      case 3
      have gt: "cmp op (w ! j) < 0" if "mid \<le> j" "j < length w" for j
      proof (cases "j = mid")
        case False
        with that have "cmp (w ! mid) (w ! j) < 0"
          using assms(1) by (simp add: sorted_wrt_iff_nth_less)
        with cmp_trans [OF assms(3) mem [OF mid(3)] mem [OF that(2)] 3] show ?thesis by blast
      qed (use 3 in simp)
      from 3 have "cmp (w ! mid) op > 0" using cmp_flip [OF assms(3) mem [OF mid(3)]] by simp
      with less.hyps [of mid left] less.prems mid step gt show ?thesis by simp
    qed
  qed
qed

lemma search:
  assumes "asc w" and "set w \<subseteq> S" and "op \<in> S" and "binarySearch cmp w op = (i, found)"
  shows "found \<longleftrightarrow> op \<in> set w" and "found \<Longrightarrow> i < length w \<and> w ! i = op"
    and "\<not> found \<Longrightarrow> i \<le> length w \<and> (\<forall>x\<in>set (take i w). cmp x op < 0) \<and>
      (\<forall>x\<in>set (drop i w). cmp op x < 0)"
proof -
  have *: "if found then i < length w \<and> w ! i = op
     else i \<le> length w \<and> (\<forall>j<i. cmp (w ! j) op < 0) \<and>
       (\<forall>j. i \<le> j \<and> j < length w \<longrightarrow> cmp op (w ! j) < 0)"
    using assms by (intro loop_correct [where left = 0 and right = "length w"]) (auto simp: binarySearch_def)
  then show "found \<Longrightarrow> i < length w \<and> w ! i = op" by simp
  show nf: "\<not> found \<Longrightarrow> i \<le> length w \<and> (\<forall>x\<in>set (take i w). cmp x op < 0) \<and>
      (\<forall>x\<in>set (drop i w). cmp op x < 0)"
    using * by (auto simp: set_conv_nth)
  have "op \<notin> set w" if "\<not> found"
    using nf [OF that] cmp_irrefl [OF assms(3)] append_take_drop_id [of i w]
    by (metis Un_iff set_append)
  with * show "found \<longleftrightarrow> op \<in> set w" by (auto split: if_splits)
qed

lemma contains: "asc w \<Longrightarrow> set w \<subseteq> S \<Longrightarrow> op \<in> S \<Longrightarrow> state_contains cmp w op \<longleftrightarrow> op \<in> set w"
  using search(1) [of w op] by (cases "binarySearch cmp w op") (simp add: state_contains_def)

lemma insert_mem:
  "asc w \<Longrightarrow> set w \<subseteq> S \<Longrightarrow> op \<in> S \<Longrightarrow> op \<in> set w \<Longrightarrow> state_insert cmp w op = w"
  using search(1) [of w op] by (cases "binarySearch cmp w op") (simp add: state_insert_def)

lemma insert_split:
  assumes "asc w" and "set w \<subseteq> S" and "op \<in> S" and "op \<notin> set w"
  obtains u v where "w = u @ v" and "state_insert cmp w op = u @ op # v"
    and "\<forall>x\<in>set u. cmp x op < 0" and "\<forall>x\<in>set v. cmp op x < 0"
proof -
  obtain i f where b: "binarySearch cmp w op = (i, f)" by fastforce
  note s = search [OF assms(1-3) b]
  with assms(4) have "\<not> f" by simp
  with s(3) b show ?thesis
    by (intro that [of "take i w" "drop i w"]) (auto simp: state_insert_def)
qed

lemma insert_asc:
  assumes "asc w" and "set w \<subseteq> S" and "op \<in> S"
  shows "asc (state_insert cmp w op)" and "set (state_insert cmp w op) = insert op (set w)"
proof -
  have "asc (state_insert cmp w op) \<and> set (state_insert cmp w op) = insert op (set w)"
  proof (cases "op \<in> set w")
    case True
    with assms show ?thesis by (auto simp: insert_mem)
  next
    case False
    from insert_split [OF assms False] obtain u v
      where "w = u @ v" and "state_insert cmp w op = u @ op # v"
        and "\<forall>x\<in>set u. cmp x op < 0" and "\<forall>x\<in>set v. cmp op x < 0" .
    with assms(1) show ?thesis by (auto simp: sorted_wrt_append)
  qed
  then show "asc (state_insert cmp w op)" and "set (state_insert cmp w op) = insert op (set w)"
    by auto
qed

text \<open>An operation above all others goes to the end of the log.\<close>

lemma insert_last:
  assumes "asc w" and "set w \<subseteq> S" and "op \<in> S" and "\<And>x. x \<in> set w \<Longrightarrow> cmp x op < 0"
  shows "state_insert cmp w op = w @ [op]"
proof -
  have "op \<notin> set w" using assms(4) cmp_irrefl [OF assms(3)] by blast
  from insert_split [OF assms(1-3) this] obtain u v
    where "w = u @ v" and ins: "state_insert cmp w op = u @ op # v" and v: "\<forall>x\<in>set v. cmp op x < 0" .
  moreover have "v = []"
  proof (rule ccontr)
    assume "v \<noteq> []"
    then obtain x where "x \<in> set v" by (cases v) auto
    with \<open>w = u @ v\<close> v assms(2-4) show False
      using cmp_trans [of op x op] cmp_irrefl [OF assms(3)] by auto
  qed
  ultimately show ?thesis by simp
qed

lemma merge_asc:
  "asc w \<Longrightarrow> set w \<subseteq> S \<Longrightarrow> set st \<subseteq> S \<Longrightarrow>
   asc (state_Merge cmp w st) \<and> set (state_Merge cmp w st) = set w \<union> set st"
proof (induction st arbitrary: w)
  case (Cons op st)
  let ?w = "if \<not> state_contains cmp w op then state_insert cmp w op else w"
  have "asc ?w" and "set ?w = insert op (set w)"
    using Cons.prems insert_asc [of w op] by (auto simp: contains)
  with Cons show ?case by (auto simp: state_Merge_def)
qed (simp add: state_Merge_def)

lemma from_op_asc:
  "set ops \<subseteq> S \<Longrightarrow> asc (GetNewStateFromOp cmp ops) \<and> set (GetNewStateFromOp cmp ops) = set ops"
proof -
  have "asc w \<Longrightarrow> set w \<subseteq> S \<Longrightarrow> set ops \<subseteq> S \<Longrightarrow>
    asc (foldl (state_insert cmp) w ops) \<and> set (foldl (state_insert cmp) w ops) = set w \<union> set ops" for w
    by (induction ops arbitrary: w) (use insert_asc in auto)
  from this [of "[]"] show "set ops \<subseteq> S \<Longrightarrow> ?thesis" by (simp add: GetNewStateFromOp_def)
qed

lemma from_op_unique:
  "set ops \<subseteq> S \<Longrightarrow> set ops = set ops' \<Longrightarrow> GetNewStateFromOp cmp ops = GetNewStateFromOp cmp ops'"
  using from_op_asc [of ops] from_op_asc [of ops'] asc_unique by simp

text \<open>Merge is the union of logs, so a join-semilattice operation.\<close>

lemma merge_comm:
  "asc v \<Longrightarrow> asc w \<Longrightarrow> set v \<subseteq> S \<Longrightarrow> set w \<subseteq> S \<Longrightarrow> state_Merge cmp v w = state_Merge cmp w v"
  using merge_asc [of v w] merge_asc [of w v] by (intro asc_unique) auto

lemma merge_assoc:
  "asc u \<Longrightarrow> asc v \<Longrightarrow> asc w \<Longrightarrow> set u \<subseteq> S \<Longrightarrow> set v \<subseteq> S \<Longrightarrow> set w \<subseteq> S \<Longrightarrow>
   state_Merge cmp (state_Merge cmp u v) w = state_Merge cmp u (state_Merge cmp v w)"
  using merge_asc [of u v] merge_asc [of v w] merge_asc [of "state_Merge cmp u v" w]
    merge_asc [of u "state_Merge cmp v w"]
  by (intro asc_unique) auto

lemma merge_idem: "asc w \<Longrightarrow> set w \<subseteq> S \<Longrightarrow> set v \<subseteq> set w \<Longrightarrow> state_Merge cmp w v = w"
  using merge_asc [of w v] by (intro asc_unique) auto

lemma merge_from_op:
  "set v \<subseteq> S \<Longrightarrow> set w \<subseteq> S \<Longrightarrow>
   state_Merge cmp (GetNewStateFromOp cmp v) w = GetNewStateFromOp cmp (v @ w)"
  using from_op_asc [of v] from_op_asc [of "v @ w"] merge_asc [of "GetNewStateFromOp cmp v" w]
  by (intro asc_unique) auto

end

section \<open>The comparison of operations meets the interface on two sites\<close>

text \<open>The operations a log holds name their identifiers: two of them with the same identifier are
  the same operation.  A set with more than two sites is replaced by the empty one, so that the
  interpretation needs no assumption.\<close>

definition two_site_ops :: "string \<Rightarrow> string \<Rightarrow> crdt_operation set \<Rightarrow> bool" where
  "two_site_ops s t X \<longleftrightarrow> inj_on OpId X \<and> two_site_history s t (OpId ` X)"

definition consistent_ops :: "string \<Rightarrow> string \<Rightarrow> crdt_operation set \<Rightarrow> crdt_operation set" where
  "consistent_ops s t X = (if two_site_ops s t X then X else {})"

lemma consistent_ops_eq: "two_site_ops s t X \<Longrightarrow> consistent_ops s t X = X"
  by (simp add: consistent_ops_def)

interpretation two_sites: op_order CompareOperation "consistent_ops s t X" for s t X
proof
  fix a b c
  assume "a \<in> consistent_ops s t X" and "b \<in> consistent_ops s t X"
  then have X: "two_site_ops s t X" and ab: "a \<in> X" "b \<in> X"
    by (auto simp: consistent_ops_def split: if_splits)
  from X have H: "two_site_history s t (OpId ` X)" and inj: "inj_on OpId X"
    by (auto simp: two_site_ops_def)
  then have ok: "history_ok (OpId ` X)" by (simp add: two_site_history_def)
  have ids: "OpId a \<in> OpId ` X" "OpId b \<in> OpId ` X" using ab by auto
  have neg: "CompareOperation x y < 0 \<longleftrightarrow> x \<noteq> y \<and> lid_less (OpId x) (OpId y)"
    and zero: "CompareOperation x y = 0 \<longleftrightarrow> x = y" if "x \<in> X" "y \<in> X" for x y
    using that lid_equals_history [OF ok] inj
    by (auto simp: CompareOperation_def lid_Compare_def inj_on_def)
  show "CompareOperation a b = 0 \<longleftrightarrow> a = b" by (rule zero [OF ab])
  show "CompareOperation a b < 0 \<longleftrightarrow> 0 < CompareOperation b a"
  proof (cases "a = b")
    case True
    then show ?thesis using zero [OF ab] by simp
  next
    case False
    then have "OpId a \<noteq> OpId b" using inj ab by (auto simp: inj_on_def)
    then show ?thesis
      using lid_less_total [OF ok ids] lid_less_asym [OF ok ids] lid_equals_history [OF ok]
        lid_equals_history [OF ok ids(2,1)] ids
      by (auto simp: CompareOperation_def lid_Compare_def)
  qed
  assume "c \<in> consistent_ops s t X"
  then have c: "c \<in> X" by (auto simp: consistent_ops_def split: if_splits)
  assume lt: "CompareOperation a b < 0" "CompareOperation b c < 0"
  with neg ab c have l: "lid_less (OpId a) (OpId b)" "lid_less (OpId b) (OpId c)" by auto
  from lid_less_trans_two_sites [OF H _ _ _ l] ab c have "lid_less (OpId a) (OpId c)" by blast
  moreover have "a \<noteq> c" using l lid_less_asym [OF ok ids] by auto
  ultimately show "CompareOperation a c < 0" using neg [OF ab(1) c] by simp
qed

section \<open>Properties\<close>

abbreviation op_sorted :: "crdt_operation list \<Rightarrow> bool" where
  "op_sorted w \<equiv> sorted_wrt (\<lambda>a b. CompareOperation a b < 0) w"

lemma two_sites_facts:
  assumes "two_site_ops s t X"
  shows "op_order CompareOperation X"
  using two_sites.op_order_axioms [of s t X] consistent_ops_eq [OF assms] by simp

text \<open>Two operations of site a, one of them known to site b's.\<close>

definition op_a :: crdt_operation where
  "op_a = Woot \<lparr>woot_Id = \<lparr>lid_SiteId = ''a'', lid_Clock = [(''a'', 1)]\<rparr>, woot_Type = Insertion,
     woot_Character = \<lparr>data_Id = WCharacterId ''a'' 1, data_AlphaValue = ''x'', data_Visible = True,
       data_PreviousId = WCharacterId ''a'' 0, data_NextId = WCharacterId ''a'' MaxValue\<rparr>\<rparr>"

definition op_b :: crdt_operation where
  "op_b = Woot \<lparr>woot_Id = \<lparr>lid_SiteId = ''b'', lid_Clock = [(''b'', 1), (''a'', 1)]\<rparr>, woot_Type = Insertion,
     woot_Character = \<lparr>data_Id = WCharacterId ''b'' 1, data_AlphaValue = ''y'', data_Visible = True,
       data_PreviousId = WCharacterId ''a'' 1, data_NextId = WCharacterId ''a'' MaxValue\<rparr>\<rparr>"

lemma example_ops: "two_site_ops ''a'' ''b'' {op_a, op_b}"
  by (auto simp: two_site_ops_def two_site_history_def history_ok_def lid_ok_def clk_ok_def op_a_def op_b_def
      inj_on_def GetLogicalClock_def clk_val_def MaxValue_def clk_le_def split: if_splits)

text \<open>On the operations of two sites the comparison the log is searched with is a linear order.\<close>

theorem Compare_linear_two_sites:
  assumes "two_site_ops s t X" and "a \<in> X" and "b \<in> X" and "c \<in> X"
  shows "(CompareOperation a b = 0 \<longleftrightarrow> a = b) \<and>
    (CompareOperation a b < 0 \<or> a = b \<or> CompareOperation b a < 0) \<and>
    \<not> (CompareOperation a b < 0 \<and> CompareOperation b a < 0) \<and>
    (CompareOperation a b < 0 \<and> CompareOperation b c < 0 \<longrightarrow> CompareOperation a c < 0)"
proof -
  note ord = two_sites_facts [OF assms(1)]
  show ?thesis
    using op_order.cmp_eq [OF ord assms(2,3)] op_order.cmp_flip [OF ord assms(2,3)]
      op_order.cmp_flip [OF ord assms(3,2)] op_order.cmp_trans [OF ord assms(2-4)] by linarith
qed

theorem Compare_linear_two_sites_witness: "CompareOperation op_a op_b < 0 \<or> op_a = op_b \<or> CompareOperation op_b op_a < 0"
  using Compare_linear_two_sites [OF example_ops, of op_a op_b op_a] by simp

text \<open>C11. \<open>contains\<close> and \<open>insert\<close> of the sorted log are membership and insertion into the set, and the
  log stays sorted: the bisection finds an operation if and only if it is there.\<close>

theorem log_search_correct:
  assumes "two_site_ops s t X" and "op_sorted w" and "set w \<subseteq> X" and "op \<in> X"
  shows "(state_contains CompareOperation w op \<longleftrightarrow> op \<in> set w) \<and>
    op_sorted (state_insert CompareOperation w op) \<and>
    set (state_insert CompareOperation w op) = insert op (set w) \<and>
    distinct (state_insert CompareOperation w op)"
proof -
  note ord = two_sites_facts [OF assms(1)]
  have "set (state_insert CompareOperation w op) \<subseteq> X"
    using op_order.insert_asc(2) [OF ord assms(2-4)] assms(3,4) by simp
  then show ?thesis
    using op_order.contains [OF ord assms(2-4)] op_order.insert_asc [OF ord assms(2-4)]
      op_order.asc_distinct [OF ord] by blast
qed

theorem log_search_correct_witness: "state_contains CompareOperation [op_a] op_b \<longleftrightarrow> op_b \<in> {op_a}"
  using log_search_correct [OF example_ops, of "[op_a]" op_b] by simp

text \<open>C12. On sorted logs of the operations of two sites \<open>Merge\<close> is the join: it keeps them sorted, its set is the union, and it is
  commutative, associative and idempotent, as equality of slices.\<close>

theorem Merge_semilattice:
  assumes "two_site_ops s t X" and "op_sorted u" and "op_sorted v" and "op_sorted w"
    and "set u \<subseteq> X" and "set v \<subseteq> X" and "set w \<subseteq> X"
  shows "op_sorted (state_Merge CompareOperation u v) \<and>
    set (state_Merge CompareOperation u v) = set u \<union> set v \<and>
    state_Merge CompareOperation u v = state_Merge CompareOperation v u \<and>
    state_Merge CompareOperation (state_Merge CompareOperation u v) w =
      state_Merge CompareOperation u (state_Merge CompareOperation v w) \<and>
    state_Merge CompareOperation u u = u"
proof -
  note ord = two_sites_facts [OF assms(1)]
  show ?thesis
    using op_order.merge_asc [OF ord assms(2,5,6)] op_order.merge_comm [OF ord assms(2,3,5,6)]
      op_order.merge_assoc [OF ord assms(2-7)] op_order.merge_idem [OF ord assms(2,5) subset_refl] by blast
qed

theorem Merge_semilattice_witness:
  "state_Merge CompareOperation [op_a] [op_b] = state_Merge CompareOperation [op_b] [op_a]"
  using Merge_semilattice [OF example_ops, of "[op_a]" "[op_b]" "[]"] by simp

text \<open>The log depends on the set of operations alone: inserting them in any order, with any
  repetitions, builds the same slice.\<close>

theorem log_order_independent:
  assumes "two_site_ops s t X" and "set ops \<subseteq> X" and "set ops = set ops'"
  shows "GetNewStateFromOp CompareOperation ops = GetNewStateFromOp CompareOperation ops'"
  by (rule op_order.from_op_unique [OF two_sites_facts [OF assms(1)] assms(2,3)])

theorem log_order_independent_witness:
  "GetNewStateFromOp CompareOperation [op_a, op_b] = GetNewStateFromOp CompareOperation [op_b, op_a, op_b]"
  by (rule log_order_independent [OF example_ops]) auto

text \<open>A new operation that has seen all operations of the log is appended at its end: the claim
  the repository's storage makes when it adds an operation.\<close>

theorem dominating_op_appended:
  assumes "two_site_ops s t X" and "op_sorted w" and "set w \<subseteq> X" and "op \<in> X"
    and "\<forall>x\<in>set w. HappenedBefore (OpId x) (OpId op)"
  shows "state_insert CompareOperation w op = w @ [op]"
proof (rule op_order.insert_last [OF two_sites_facts [OF assms(1)] assms(2-4)])
  fix x assume x: "x \<in> set w"
  with assms have hb: "HappenedBefore (OpId x) (OpId op)" and X: "x \<in> X" by auto
  from assms(1) have ok: "history_ok (OpId ` X)" by (simp add: two_site_ops_def two_site_history_def)
  have "\<not> lid_equals (OpId x) (OpId op)"
    using lid_equals_history [OF ok, of "OpId x" "OpId op"] X assms(4) hb
      HappenedBefore_irrefl [OF history_okD(1) [OF ok, of "OpId x"]] by auto
  with HB_lid_less [OF hb] show "CompareOperation x op < 0"
    by (simp add: CompareOperation_def lid_Compare_def)
qed

theorem dominating_op_appended_witness: "state_insert CompareOperation [op_a] op_b = [op_a, op_b]"
proof -
  have "HappenedBefore (OpId op_a) (OpId op_b)" by code_simp
  then show ?thesis using dominating_op_appended [OF example_ops, of "[op_a]" op_b] by simp
qed

end
