(* ===== verification/Replica.thy ===== *)
theory Replica
  imports OpStates Sites
begin

text \<open>
  The replica of \<open>cvrdt/state.go\<close>: \<open>WootCvrdt\<close>, a site together with the log of the operations it has
  processed.  \<open>UpdateState\<close> runs the operations its log does not contain through the site and merges
  what the site answers into the log; an error other than the pending one makes it return before the
  merge, with the site already changed.
\<close>

section \<open>The code\<close>

record woot_cvrdt =
  cv_site :: site
  cv_state :: "crdt_operation list"
  isStateUpToDate :: bool

definition NewWootCvrdtWithView :: "string \<Rightarrow> woot_cvrdt" where
  "NewWootCvrdtWithView siteId =
     \<lparr>cv_site = NewSite siteId, cv_state = [], isStateUpToDate = False\<rparr>"

text \<open>The loop of \<open>UpdateState\<close>, with the receiver's log \<open>wstate\<close>, its site and \<open>newState\<close>.\<close>

fun update_loop ::
  "crdt_operation list \<Rightarrow> site \<Rightarrow> crdt_operation list \<Rightarrow> crdt_operation list \<Rightarrow>
   (site \<times> crdt_operation list \<times> go_error option) go" where
  "update_loop wstate s newState [] = Ret (s, newState, None)"
| "update_loop wstate s newState (op # ops) =
     (if \<not> state_contains CompareOperation wstate op then
        go_bind (ComputeOp s op) (\<lambda>(s', resOp, err).
          if err \<noteq> None \<and> \<not> is_pending (the err) then Ret (s', newState, err)
          else update_loop wstate s' (state_insert CompareOperation newState (Woot resOp)) ops)
      else update_loop wstate s newState ops)"

definition UpdateState :: "woot_cvrdt \<Rightarrow> crdt_operation list \<Rightarrow> (woot_cvrdt \<times> go_error option) go" where
  "UpdateState w state =
     go_bind (update_loop (cv_state w) (cv_site w) [] state) (\<lambda>(s, newState, err).
       if err \<noteq> None then Ret (w\<lparr>cv_site := s\<rparr>, err)
       else Ret (w\<lparr>cv_site := s,
           cv_state := state_Merge CompareOperation (cv_state w) newState,
           isStateUpToDate := (if length newState > 0 then False else isStateUpToDate w)\<rparr>, None))"

definition GetState :: "woot_cvrdt \<Rightarrow> crdt_operation list" where
  "GetState w = cv_state w"

definition Snapshot :: "woot_cvrdt \<Rightarrow> (string \<times> bool) \<times> woot_cvrdt" where
  "Snapshot w = ((GetCurrentData (cv_site w), isStateUpToDate w), w\<lparr>isStateUpToDate := True\<rparr>)"

section \<open>The replica's log\<close>

lemma update_loop_known:
  "list_all (state_contains CompareOperation wstate) ops \<Longrightarrow>
   update_loop wstate s newState ops = Ret (s, newState, None)"
  by (induction ops) simp_all

lemma state_Merge_Nil [simp]: "state_Merge cmp w [] = w"
  by (simp add: state_Merge_def)

text \<open>A user's edit and a push of one replica's log to another, as the commands make them.\<close>

definition edit :: "woot_cvrdt \<Rightarrow> int \<Rightarrow> string \<Rightarrow> (woot_cvrdt \<times> go_error option) go" where
  "edit w pos str =
     UpdateState w [Local (CreateNewLocalOp Insertion pos str (site_id (cv_site w)))]"

definition push :: "woot_cvrdt \<Rightarrow> woot_cvrdt \<Rightarrow> (woot_cvrdt \<times> go_error option) go" where
  "push w from = UpdateState w (GetState from)"

fun ret :: "(woot_cvrdt \<times> go_error option) go \<Rightarrow> woot_cvrdt option" where
  "ret (Ret (w, None)) = Some w"
| "ret _ = None"

definition shows_text :: "woot_cvrdt \<Rightarrow> string" where
  "shows_text w = fst (fst (Snapshot w))"

section \<open>Properties\<close>

text \<open>A state whose operations the log already finds changes nothing, neither the site nor the log
  nor the freshness flag: receiving is idempotent as far as \<open>contains\<close> answers truly.\<close>

theorem UpdateState_known:
  assumes "\<forall>op\<in>set st. state_contains CompareOperation (cv_state w) op"
  shows "UpdateState w st = Ret (w, None)"
proof -
  have "list_all (state_contains CompareOperation (cv_state w)) st" using assms by (simp add: list_all_iff)
  then show ?thesis by (simp add: UpdateState_def update_loop_known)
qed

theorem UpdateState_known_witness:
  "UpdateState \<lparr>cv_site = NewSite ''c'', cv_state = [op_a], isStateUpToDate = True\<rparr> [op_a] =
   Ret (\<lparr>cv_site = NewSite ''c'', cv_state = [op_a], isStateUpToDate = True\<rparr>, None)"
proof -
  have "state_contains CompareOperation [op_a] op_a" by code_simp
  then show ?thesis by (intro UpdateState_known) simp
qed

text \<open>An error in the middle of a state loses what was done before it: the site has integrated the
  first operation and shows it, but the log does not hold it, so it is never sent and the next
  state that contains it is integrated again.\<close>

theorem UpdateState_error_loses_operations:
  "\<exists>w. UpdateState (NewWootCvrdtWithView ''a'')
      [Local (CreateNewLocalOp Insertion 0 ''x'' ''a''), Local (CreateNewLocalOp Deletion (-1) '''' ''a'')] =
      Ret (w, Some (Errorf ''occurrence index -1 out of range'')) \<and>
    shows_text w = ''x'' \<and> GetState w = []"
proof -
  define s where "s = \<lparr>site_id = ''a'', site_clock = \<lparr>localId = ''a'', clocks = [(''a'', 1)]\<rparr>,
    characters = [GetNewSpecialStartWChar ''a'', \<lparr>wid = WCharacterId ''a'' 1, alphaValue = ''x'', visible = True,
      previousId = WCharacterId ''a'' 0, nextId = WCharacterId ''a'' MaxValue\<rparr>, GetNewSpecialEndWChar ''a''],
    pendingOps = []\<rparr>"
  have "UpdateState (NewWootCvrdtWithView ''a'')
      [Local (CreateNewLocalOp Insertion 0 ''x'' ''a''), Local (CreateNewLocalOp Deletion (-1) '''' ''a'')] =
      Ret (\<lparr>cv_site = s, cv_state = [], isStateUpToDate = False\<rparr>, Some (Errorf ''occurrence index -1 out of range''))"
    unfolding s_def by code_simp
  moreover have "shows_text \<lparr>cv_site = s, cv_state = [], isStateUpToDate = False\<rparr> = ''x''"
    unfolding s_def by code_simp
  ultimately show ?thesis by (simp add: GetState_def)
qed

text \<open>C32. With three editing sites the log can miss an operation it holds: replica 1 receives the states
  of replicas 3 and 2 and of 3 again, and when 3 sends its unchanged state once more, an operation
  is integrated a second time and its text is shown twice.\<close>

theorem three_replicas_duplicate:
  "\<exists>r3 r1 r2 r1' r3' r1'' again.
     ret (edit (NewWootCvrdtWithView ''3'') 0 ''a'') = Some r3 \<and>
     Option.bind (ret (push (NewWootCvrdtWithView ''1'') r3)) (\<lambda>r. ret (edit r 0 ''b'')) = Some r1 \<and>
     ret (edit (NewWootCvrdtWithView ''2'') 0 ''c'') = Some r2 \<and>
     ret (push r1 r2) = Some r1' \<and> ret (edit r3 0 ''d'') = Some r3' \<and>
     ret (push r1' r3') = Some r1'' \<and> ret (push r1'' r3') = Some again \<and>
     shows_text r1'' = ''bcda'' \<and> shows_text again = ''bcada''"
proof -
  have "Option.bind (ret (edit (NewWootCvrdtWithView ''3'') 0 ''a'')) (\<lambda>r3.
      Option.bind (Option.bind (ret (push (NewWootCvrdtWithView ''1'') r3)) (\<lambda>r. ret (edit r 0 ''b''))) (\<lambda>r1.
      Option.bind (ret (edit (NewWootCvrdtWithView ''2'') 0 ''c'')) (\<lambda>r2.
      Option.bind (ret (push r1 r2)) (\<lambda>r1'. Option.bind (ret (edit r3 0 ''d'')) (\<lambda>r3'.
      Option.bind (ret (push r1' r3')) (\<lambda>r1''. Option.bind (ret (push r1'' r3')) (\<lambda>again.
      Some (shows_text r1'', shows_text again)))))))) = Some (''bcda'', ''bcada'')"
    by code_simp
  then show ?thesis by (auto simp: bind_eq_Some_conv)
qed

end
