(* ===== verification/Edits.thy ===== *)
theory Edits
  imports Replica
begin

text \<open>
  What a replica knows of its own log, and what its own edits do to it (\<open>cvrdt/site.go\<close>,
  \<open>cvrdt/state.go\<close>).  Every operation of the log is below the site's clock, unless it is still
  pending; so the clock of a new operation dominates the log, and bisection puts it at the end,
  which is where \<open>InsertCRDTOpInRepo\<close> looks for it.
\<close>

section \<open>Sites only learn\<close>

definition knows :: "site \<Rightarrow> logical_id \<Rightarrow> bool" where
  "knows s l \<longleftrightarrow> clk_le (lid_Clock l) (clocks (site_clock s))"

definition site_timed :: "site \<Rightarrow> bool" where
  "site_timed s \<longleftrightarrow> localId (site_clock s) = site_id s \<and> clk_ok (clocks (site_clock s)) \<and>
     (\<forall>p\<in>set (pendingOps s). lid_ok (woot_Id p))"

text \<open>An identifier the site has merged, or whose operation waits.\<close>

definition accounted :: "site \<Rightarrow> logical_id \<Rightarrow> bool" where
  "accounted s l \<longleftrightarrow> lid_ok l \<and> (knows s l \<or> l \<in> woot_Id ` set (pendingOps s))"

definition grows :: "site \<Rightarrow> site \<Rightarrow> bool" where
  "grows s s' \<longleftrightarrow> site_timed s' \<and> site_id s' = site_id s \<and>
     clk_le (clocks (site_clock s)) (clocks (site_clock s')) \<and>
     (\<forall>p\<in>set (pendingOps s). accounted s' (woot_Id p))"

lemma knows_grows: "grows s s' \<Longrightarrow> knows s l \<Longrightarrow> knows s' l"
  unfolding grows_def knows_def using clk_le_trans by blast

lemma accounted_grows: "grows s s' \<Longrightarrow> accounted s l \<Longrightarrow> accounted s' l"
  using knows_grows by (auto simp: accounted_def grows_def)

lemma grows_refl: "site_timed s \<Longrightarrow> grows s s"
  by (auto simp: grows_def accounted_def site_timed_def)

lemma grows_trans: "grows a b \<Longrightarrow> grows b c \<Longrightarrow> grows a c"
  unfolding grows_def using clk_le_trans accounted_grows grows_def by (metis (no_types, lifting))

lemma integrate_frame:
  "IntegrateIns s c p n = Ret s' \<Longrightarrow> \<exists>w. s' = s\<lparr>characters := w\<rparr>"
  "IntegrateDel s k = Ret s' \<Longrightarrow> \<exists>w. s' = s\<lparr>characters := w\<rparr>"
  by (auto simp: IntegrateIns_def IntegrateDel_def go_bind_Ret_iff split: option.splits)

lemma computeExtOp_grows:
  assumes "site_timed s" "lid_ok (woot_Id op)" "computeExtOp s op = Ret (s', err)"
  shows "grows s s'" "accounted s' (woot_Id op)"
    "err = None \<Longrightarrow> pendingOps s' = pendingOps s \<and> knows s' (woot_Id op)"
    "err \<noteq> None \<Longrightarrow> is_pending (the err) \<and> set (pendingOps s') = insert op (set (pendingOps s))"
proof -
  let ?c = "vc_Update (site_clock s) (lid_Clock (woot_Id op))"
  have ok: "clk_ok (clocks (site_clock s))" "clk_ok (lid_Clock (woot_Id op))"
    using assms(1,2) by (auto simp: site_timed_def lid_okD)
  have up: "clk_ok (clocks ?c)" "clk_le (clocks (site_clock s)) (clocks ?c)"
    "clk_le (lid_Clock (woot_Id op)) (clocks ?c)"
    using clk_ok_vc_Update [OF ok] clk_val_vc_Update [OF ok] by (auto simp: clk_le_def)
  have res: "(IsExecutable s op \<and> err = None \<and> (\<exists>w. s' = s\<lparr>site_clock := ?c, characters := w\<rparr>)) \<or>
      (\<not> IsExecutable s op \<and> s' = s\<lparr>pendingOps := pendingOps s @ [op]\<rparr> \<and>
        err = Some (ErrPendingState (pending_msg op)))"
    using assms(3) integrate_frame
    by (fastforce simp: computeExtOp_def Let_def go_bind_Ret_iff split: if_splits option.splits)
  then show "grows s s'"
    using assms(1,2) up
    by (auto simp: grows_def site_timed_def accounted_def knows_def)
  from res show "accounted s' (woot_Id op)"
    using assms(2) up(3) by (auto simp: accounted_def knows_def)
  from res up(3) show "err = None \<Longrightarrow> pendingOps s' = pendingOps s \<and> knows s' (woot_Id op)"
    by (auto simp: knows_def)
  from res show "err \<noteq> None \<Longrightarrow> is_pending (the err) \<and> set (pendingOps s') = insert op (set (pendingOps s))"
    by auto
qed

lemma set_remove_nth:
  "i < length xs \<Longrightarrow> set xs = insert (xs ! i) (set (take i xs @ drop (i + 1) xs))"
  by (subst (1) id_take_nth_drop) (auto simp del: append_take_drop_id)

text \<open>Executing a pending operation and taking it off the list.\<close>

lemma executed_pending:
  assumes "site_timed s" "i < length (pendingOps s)" "computeExtOp s (pendingOps s ! i) = Ret (s1, None)"
  shows "grows s (s1\<lparr>pendingOps := take i (pendingOps s1) @ drop (i + 1) (pendingOps s1)\<rparr>)"
proof -
  have ok: "lid_ok (woot_Id (pendingOps s ! i))" using assms(1,2) by (simp add: site_timed_def)
  note g = computeExtOp_grows [OF assms(1) ok assms(3)]
  note k = g(3) [OF refl]
  show ?thesis
    using g(1) k set_remove_nth [OF assms(2)] ok assms(1)
    by (auto simp: grows_def site_timed_def accounted_def knows_def)
qed

lemma try_pendings_grows:
  assumes "try_pendings s i = Some r"
  shows "site_timed s \<longrightarrow> (\<forall>s'. r = Ret s' \<longrightarrow> grows s s')"
proof (rule try_pendings.raw_induct [OF _ assms])
  fix rec :: "site \<Rightarrow> nat \<Rightarrow> site go option" and s i r
  assume IH: "\<And>s i r. rec s i = Some r \<Longrightarrow> site_timed s \<longrightarrow> (\<forall>s'. r = Ret s' \<longrightarrow> grows s s')"
    and run: "(if i < length (pendingOps s) then
        (case computeExtOp s (pendingOps s ! i) of
           Ret (s', err) \<Rightarrow>
             (if err = None
              then rec (s'\<lparr>pendingOps := take i (pendingOps s') @ drop (i + 1) (pendingOps s')\<rparr>) 0
              else rec s' (i + 1))
         | Panic \<Rightarrow> Some Panic
         | Hang \<Rightarrow> Some Hang)
      else Some (Ret s)) = Some r"
  show "site_timed s \<longrightarrow> (\<forall>s'. r = Ret s' \<longrightarrow> grows s s')"
  proof (intro impI allI)
    fix s' assume timed: "site_timed s" and r: "r = Ret s'"
    show "grows s s'"
    proof (cases "i < length (pendingOps s)")
      case False
      with run r have "s' = s" by simp
      with timed show ?thesis by (simp add: grows_refl)
    next
      case True
      then have ok: "lid_ok (woot_Id (pendingOps s ! i))" using timed by (simp add: site_timed_def)
      obtain s1 err where x: "computeExtOp s (pendingOps s ! i) = Ret (s1, err)"
        using run r True by (auto split: go.splits prod.splits)
      define s2 where "s2 = (if err = None
        then s1\<lparr>pendingOps := take i (pendingOps s1) @ drop (i + 1) (pendingOps s1)\<rparr> else s1)"
      have g: "grows s s2"
        using executed_pending [OF timed True] computeExtOp_grows(1) [OF timed ok x] x
        by (simp add: s2_def)
      have "rec s2 (if err = None then 0 else i + 1) = Some r"
        using run True x by (cases err) (simp_all add: s2_def)
      from IH [OF this] g r have "grows s2 s'" by (simp add: grows_def)
      with g show ?thesis by (rule grows_trans)
    qed
  qed
qed

lemma tryComputePendings_grows:
  "site_timed s \<Longrightarrow> tryComputePendings s = Ret s' \<Longrightarrow> grows s s'"
  by (cases "try_pendings s 0") (auto simp: tryComputePendings_def dest: try_pendings_grows)

section \<open>A new operation\<close>

text \<open>The identifier a site gives to its next operation.\<close>

definition next_id :: "site \<Rightarrow> logical_id" where
  "next_id s = \<lparr>lid_SiteId = site_id s, lid_Clock = clocks (snd (vc_Increment (site_clock s)))\<rparr>"

lemma next_id_ok:
  assumes "site_timed s"
  shows "lid_ok (next_id s)" "clk_le (clocks (site_clock s)) (lid_Clock (next_id s))"
    "clk_val (clocks (site_clock s)) (site_id s) < MaxValue \<Longrightarrow>
       GetLogicalClock (next_id s) = clk_val (clocks (site_clock s)) (site_id s) + 1"
proof -
  have ok: "clk_ok (clocks (site_clock s))" and me: "localId (site_clock s) = site_id s"
    using assms by (auto simp: site_timed_def)
  note inc = clk_val_vc_Increment [of "site_clock s" "site_id s"]
  have pos: "0 < clk_val (clocks (snd (vc_Increment (site_clock s)))) (site_id s)"
    using inc clk_ok_range [OF ok, of "site_id s"] by (simp add: me MaxValue_def)
  then have "clocks (snd (vc_Increment (site_clock s))) \<noteq> []" by (auto simp: clk_val_def)
  with pos inc clk_ok_vc_Increment [OF ok] show "lid_ok (next_id s)"
    "clk_val (clocks (site_clock s)) (site_id s) < MaxValue \<Longrightarrow>
       GetLogicalClock (next_id s) = clk_val (clocks (site_clock s)) (site_id s) + 1"
    by (auto simp: lid_ok_def next_id_def GetLogicalClock_def me)
  show "clk_le (clocks (site_clock s)) (lid_Clock (next_id s))"
    by (simp add: next_id_def clk_le_vc_Increment)
qed

lemma ticked_frame: "\<exists>w. s\<lparr>site_clock := c\<rparr> = s\<lparr>site_clock := c, characters := w\<rparr>"
  by (rule exI [of _ "characters s"]) simp

lemma GenerateIns_frame:
  assumes "GenerateIns s pos str = Ret (s', op, err)"
  shows "(\<exists>w. s' = s\<lparr>site_clock := snd (vc_Increment (site_clock s)), characters := w\<rparr>) \<and>
    (err = None \<longrightarrow> woot_Id op = \<lparr>lid_SiteId = site_id s,
      lid_Clock = vc_Copy (snd (vc_Increment (site_clock s)))\<rparr>) \<and>
    (err \<noteq> None \<longrightarrow> \<not> is_pending (the err))"
  using assms
  by (auto simp: GenerateIns_def Let_def go_bind_Ret_iff wstr_GetIth_error ticked_frame
      split: sum.splits dest!: integrate_frame(1))

lemma GenerateDel_frame:
  assumes "GenerateDel s pos = Ret (s', op, err)"
  shows "((\<exists>w. s' = s\<lparr>site_clock := snd (vc_Increment (site_clock s)), characters := w\<rparr>) \<or> s' = s \<and> err \<noteq> None) \<and>
    (err = None \<longrightarrow> woot_Id op = \<lparr>lid_SiteId = site_id s,
      lid_Clock = vc_Copy (snd (vc_Increment (site_clock s)))\<rparr>) \<and>
    (err \<noteq> None \<longrightarrow> \<not> is_pending (the err))"
  using assms
  by (auto simp: GenerateDel_def Let_def go_bind_Ret_iff wstr_GetIth_error ticked_frame
      split: sum.splits dest!: integrate_frame(2))

lemma local_grows:
  assumes "site_timed s" "ComputeOp s (Local l) = Ret (s', op, err)"
  shows "grows s s'" "err = None \<Longrightarrow> woot_Id op = next_id s \<and> knows s' (next_id s) \<and> pendingOps s' = pendingOps s"
    "err \<noteq> None \<Longrightarrow> \<not> is_pending (the err)"
proof -
  let ?c = "snd (vc_Increment (site_clock s))"
  have ok: "clk_ok (clocks ?c)" "vc_Copy ?c = clocks ?c" "clk_le (clocks (site_clock s)) (clocks ?c)"
    using assms(1) clk_ok_vc_Increment vc_Copy_eq clk_le_vc_Increment by (auto simp: site_timed_def)
  have run: "if loc_opType l = Insertion then GenerateIns s (loc_pos l) (loc_content l) = Ret (s', op, err)
      else GenerateDel s (loc_pos l) = Ret (s', op, err)"
    using assms(2) by (simp add: ComputeOp_def split: if_splits)
  then have frame: "(\<exists>w. s' = s\<lparr>site_clock := ?c, characters := w\<rparr>) \<or> s' = s \<and> err \<noteq> None"
    by (auto dest!: GenerateIns_frame GenerateDel_frame split: if_splits)
  have ident: "err = None \<Longrightarrow> woot_Id op = next_id s"
    using run ok(2) by (auto simp: next_id_def dest!: GenerateIns_frame GenerateDel_frame split: if_splits)
  show "err \<noteq> None \<Longrightarrow> \<not> is_pending (the err)"
    using run by (auto dest!: GenerateIns_frame GenerateDel_frame split: if_splits)
  from frame show "grows s s'"
  proof
    assume "\<exists>w. s' = s\<lparr>site_clock := ?c, characters := w\<rparr>"
    with assms(1) ok show ?thesis by (auto simp: grows_def site_timed_def accounted_def)
  qed (use assms(1) grows_refl in simp)
  show "err = None \<Longrightarrow> woot_Id op = next_id s \<and> knows s' (next_id s) \<and> pendingOps s' = pendingOps s"
    using frame ident by (auto simp: knows_def next_id_def)
qed

section \<open>The log of a replica\<close>

definition replica_ok :: "woot_cvrdt \<Rightarrow> bool" where
  "replica_ok w \<longleftrightarrow> site_timed (cv_site w) \<and> (\<forall>op\<in>set (cv_state w). accounted (cv_site w) (OpId op))"

text \<open>What a state may contain: operations of sites, well-formed, and edits.\<close>

fun op_ok :: "crdt_operation \<Rightarrow> bool" where
  "op_ok (Woot op) = lid_ok (woot_Id op)"
| "op_ok (Local l) = True"

lemma NewWootCvrdt_ok: "replica_ok (NewWootCvrdtWithView ident)"
  by (simp add: replica_ok_def NewWootCvrdtWithView_def site_timed_def NewSite_def NewVectorClock_def
      clk_ok_def MinValue_def MaxValue_def)

lemma ComputeOp_grows:
  assumes "site_timed s" "op_ok op" "ComputeOp s op = Ret (s', res, err)"
  shows "grows s s'" "err = None \<or> is_pending (the err) \<Longrightarrow> accounted s' (woot_Id res)"
proof -
  have "grows s s' \<and> (err = None \<or> is_pending (the err) \<longrightarrow> accounted s' (woot_Id res))"
  proof (cases op)
    case (Woot wop)
    with assms(2) have ok: "lid_ok (woot_Id wop)" by simp
    from assms(3) Woot obtain s1 e where ext: "computeExtOp s wop = Ret (s1, e)"
      and rest: "if e = None then tryComputePendings s1 = Ret s' else s1 = s'" and res: "res = wop"
      by (auto simp: ComputeOp_def go_bind_Ret_iff split: if_splits)
    note g = computeExtOp_grows(1,2) [OF assms(1) ok ext]
    from g(1) have "site_timed s1" by (simp add: grows_def)
    then have "grows s1 s'" using rest tryComputePendings_grows grows_refl by (simp split: if_splits)
    with g res show ?thesis using grows_trans accounted_grows by blast
  next
    case (Local l)
    note g = local_grows [OF assms(1) assms(3) [unfolded Local]]
    have "accounted s' (woot_Id res)" if "err = None \<or> is_pending (the err)"
      using that g(2,3) next_id_ok(1) [OF assms(1)] by (cases err) (auto simp: accounted_def)
    with g(1) show ?thesis by blast
  qed
  then show "grows s s'" "err = None \<or> is_pending (the err) \<Longrightarrow> accounted s' (woot_Id res)" by blast+
qed

lemma set_state_insert: "set (state_insert cmp w op) \<subseteq> insert op (set w)"
  by (auto simp: state_insert_def split: prod.splits dest: in_set_takeD in_set_dropD)

lemma set_state_Merge: "set (state_Merge cmp w st) \<subseteq> set w \<union> set st"
proof (induction st arbitrary: w)
  case (Cons op st)
  show ?case
    using Cons [of "if \<not> state_contains cmp w op then state_insert cmp w op else w"]
      set_state_insert [of cmp w op]
    by (auto simp: state_Merge_def split: if_splits)
qed (simp add: state_Merge_def)

lemma update_loop_grows:
  assumes "update_loop wstate s new ops = Ret (s', new', err)" "site_timed s" "\<forall>op\<in>set ops. op_ok op"
    "\<forall>op\<in>set new. accounted s (OpId op)"
  shows "grows s s' \<and> (\<forall>op\<in>set new'. accounted s' (OpId op))"
  using assms
proof (induction ops arbitrary: s new)
  case Nil
  then show ?case by (auto simp: grows_refl)
next
  case (Cons op ops)
  show ?case
  proof (cases "state_contains CompareOperation wstate op")
    case True
    with Cons show ?thesis by simp
  next
    case False
    with Cons.prems(1) obtain s1 res e where c: "ComputeOp s op = Ret (s1, res, e)"
      and rest: "if e \<noteq> None \<and> \<not> is_pending (the e) then s' = s1 \<and> new' = new
        else update_loop wstate s1 (state_insert CompareOperation new (Woot res)) ops = Ret (s', new', err)"
      by (auto simp: go_bind_Ret_iff split: if_splits)
    note g = ComputeOp_grows [OF Cons.prems(2) _ c]
    have g1: "grows s s1" using g(1) Cons.prems(3) by simp
    have keep: "\<forall>op\<in>set new. accounted s1 (OpId op)" using Cons.prems(4) accounted_grows [OF g1] by blast
    show ?thesis
    proof (cases "e \<noteq> None \<and> \<not> is_pending (the e)")
      case True
      with rest g1 keep show ?thesis by simp
    next
      case False
      then have "accounted s1 (woot_Id res)" using g(2) Cons.prems(3) by auto
      with keep have "\<forall>op\<in>set (state_insert CompareOperation new (Woot res)). accounted s1 (OpId op)"
        using set_state_insert [of CompareOperation new "Woot res"] by auto
      moreover have "site_timed s1" using g1 by (simp add: grows_def)
      ultimately have "grows s1 s' \<and> (\<forall>op\<in>set new'. accounted s' (OpId op))"
        using Cons.IH [of s1 "state_insert CompareOperation new (Woot res)"] rest False Cons.prems(3) by auto
      with g1 show ?thesis using grows_trans by blast
    qed
  qed
qed

lemma UpdateState_loop:
  assumes "UpdateState w st = Ret (w', err)"
  obtains s new e where "update_loop (cv_state w) (cv_site w) [] st = Ret (s, new, e)"
  using assms by (auto simp: UpdateState_def go_bind_Ret_iff)

lemma UpdateState_result:
  assumes "UpdateState w st = Ret (w', err)" "update_loop (cv_state w) (cv_site w) [] st = Ret (s, new, e)"
  shows "cv_site w' = s"
    "cv_state w' = (if e = None then state_Merge CompareOperation (cv_state w) new else cv_state w)"
    "e = None \<Longrightarrow> new \<noteq> [] \<Longrightarrow> \<not> isStateUpToDate w'" "err = e"
  using assms by (cases e; auto simp: UpdateState_def)+

lemma UpdateState_ok:
  assumes "UpdateState w st = Ret (w', err)" "replica_ok w" "\<forall>op\<in>set st. op_ok op"
  shows "replica_ok w' \<and> grows (cv_site w) (cv_site w')"
proof -
  obtain s new e where loop: "update_loop (cv_state w) (cv_site w) [] st = Ret (s, new, e)"
    by (rule UpdateState_loop [OF assms(1)])
  note w' = UpdateState_result [OF assms(1) loop]
  from update_loop_grows [OF loop] assms(2,3)
  have g: "grows (cv_site w) s" "\<forall>op\<in>set new. accounted s (OpId op)" by (auto simp: replica_ok_def)
  have "\<forall>op\<in>set (cv_state w'). accounted s (OpId op)"
    using w'(2) g(2) set_state_Merge [of CompareOperation "cv_state w" new] accounted_grows [OF g(1)] assms(2)
    by (auto simp: replica_ok_def split: if_splits)
  with g(1) w'(1) show ?thesis by (simp add: replica_ok_def grows_def)
qed

section \<open>The end of the log\<close>

lemma loop_to_end:
  "\<forall>x\<in>set w. cmp x op < 0 \<Longrightarrow> l \<le> r \<Longrightarrow> r \<le> length w \<Longrightarrow> binarySearch_loop cmp w op l r = (r, False)"
proof (induction cmp w op l r rule: binarySearch_loop.induct)
  case (1 cmp w op left right)
  show ?case
  proof (cases "left < right")
    case True
    then have "w ! (left + (right - left) div 2) \<in> set w" using "1.prems" by (intro nth_mem) simp
    with "1.prems" have "cmp (w ! (left + (right - left) div 2)) op < 0" by blast
    then have "cmp (w ! (left + (right - left) div 2)) op \<noteq> 0" by simp
    with 1 True \<open>cmp (w ! (left + (right - left) div 2)) op < 0\<close> show ?thesis
      by (simp add: binarySearch_loop.simps [of cmp w op left right] Let_def)
  qed (use 1 in \<open>simp add: binarySearch_loop.simps [of cmp w op right right]\<close>)
qed

text \<open>No assumption on the order as a whole: it is enough that every element is below the new one.\<close>

lemma append_at_end:
  assumes "\<forall>x\<in>set w. cmp x op < 0"
  shows "state_insert cmp w op = w @ [op]" "\<not> state_contains cmp w op"
  using loop_to_end [of w cmp op 0 "length w"] assms
  by (simp_all add: state_insert_def state_contains_def binarySearch_def)

lemma known_below_next:
  assumes "site_timed s" "lid_ok l" "knows s l" "clk_val (clocks (site_clock s)) (site_id s) < MaxValue"
  shows "lid_Compare l (next_id s) < 0"
proof -
  note n = next_id_ok [OF assms(1)]
  have le: "clk_le (lid_Clock l) (lid_Clock (next_id s))"
    using assms(3) n(2) clk_le_trans by (auto simp: knows_def)
  have own: "clk_val (lid_Clock l) (site_id s) < clk_val (lid_Clock (next_id s)) (site_id s)"
    using n(3) [OF assms(4)] assms(3) lid_okD(2) [OF n(1)]
    by (auto simp: GetLogicalClock_def next_id_def knows_def clk_le_def dest: spec [of _ "site_id s"])
  then have "\<not> clk_le (lid_Clock (next_id s)) (lid_Clock l)" by (auto simp: clk_le_def not_le)
  with le have "HappenedBefore l (next_id s)"
    by (simp add: HappenedBefore_less [OF assms(2) n(1)] clk_less_def)
  moreover have "\<not> lid_equals l (next_id s)"
    using own lid_okD(2) [OF n(1)] lid_okD(2) [OF assms(2)]
    by (auto simp: lid_equals_def GetLogicalClock_def next_id_def)
  ultimately show ?thesis by (simp add: lid_Compare_def HB_lid_less)
qed

lemma loop_not_found:
  "\<forall>x\<in>set w. cmp x op \<noteq> 0 \<Longrightarrow> r \<le> length w \<Longrightarrow> \<not> snd (binarySearch_loop cmp w op l r)"
proof (induction cmp w op l r rule: binarySearch_loop.induct)
  case (1 cmp w op left right)
  show ?case
  proof (cases "left < right")
    case True
    then have "w ! (left + (right - left) div 2) \<in> set w" using "1.prems" by (intro nth_mem) simp
    with 1 True show ?thesis
      by (simp add: binarySearch_loop.simps [of cmp w op left right] Let_def)
  qed (simp add: binarySearch_loop.simps [of cmp w op left right])
qed

text \<open>An edit that has not been applied yet carries clock 0, which no operation of a site has.\<close>

lemma local_not_contained:
  assumes "\<forall>x\<in>set w. lid_ok (OpId x)"
  shows "\<not> state_contains CompareOperation w (Local l)"
proof -
  have "CompareOperation x (Local l) \<noteq> 0" if "x \<in> set w" for x
    using assms that by (auto simp: CompareOperation_def lid_Compare_def lid_equals_def lid_ok_def
        GetLogicalClock_def clk_val_def)
  then show ?thesis using loop_not_found [of w CompareOperation "Local l" "length w" 0]
    by (simp add: state_contains_def binarySearch_def)
qed

text \<open>An edit of a replica with nothing pending.\<close>

lemma edit_appends:
  assumes "replica_ok w" "pendingOps (cv_site w) = []"
    "clk_val (clocks (site_clock (cv_site w))) (site_id (cv_site w)) < MaxValue"
    "UpdateState w [Local l] = Ret (w', None)"
  obtains op where "ComputeOp (cv_site w) (Local l) = Ret (cv_site w', op, None)"
    "woot_Id op = next_id (cv_site w)" "cv_state w' = cv_state w @ [Woot op]" "\<not> isStateUpToDate w'"
proof -
  let ?s = "cv_site w"
  have ok: "site_timed ?s" "\<forall>x\<in>set (cv_state w). lid_ok (OpId x) \<and> knows ?s (OpId x)"
    using assms(1,2) by (auto simp: replica_ok_def accounted_def)
  have "\<not> state_contains CompareOperation (cv_state w) (Local l)"
    by (rule local_not_contained) (use ok(2) in blast)
  note fresh = this
  obtain s1 new e where loop: "update_loop (cv_state w) ?s [] [Local l] = Ret (s1, new, e)"
    by (rule UpdateState_loop [OF assms(4)])
  note w' = UpdateState_result [OF assms(4) loop]
  obtain s2 op e2 where c: "ComputeOp ?s (Local l) = Ret (s2, op, e2)"
    using loop fresh by (auto simp: go_bind_Ret_iff)
  have one: "state_insert CompareOperation [] (Woot op) = [Woot op]"
    using append_at_end(1) [of "[]" CompareOperation "Woot op"] by simp
  have "e2 = None"
    using loop fresh c w'(4) local_grows(3) [OF ok(1) c] by (cases e2) simp_all
  with loop fresh c one have new: "s1 = s2" "new = [Woot op]" "e = None" by simp_all
  with c \<open>e2 = None\<close> w'(1) have run: "ComputeOp ?s (Local l) = Ret (cv_site w', op, None)" by simp
  have ident: "woot_Id op = next_id ?s" using local_grows(2) [OF ok(1) run] by simp
  have "\<forall>x\<in>set (cv_state w). CompareOperation x (Woot op) < 0"
    using ok known_below_next [OF ok(1) _ _ assms(3)] by (simp add: CompareOperation_def ident)
  with append_at_end [of "cv_state w" CompareOperation "Woot op"] w'(2) new have "cv_state w' = cv_state w @ [Woot op]"
    by (simp add: state_Merge_def)
  with run ident w'(3) new show thesis by (intro that) simp_all
qed

end
