(* ===== verification/Replication.thy ===== *)
theory Replication
  imports Network Edits
begin

text \<open>
  The replicas of a file on two sites, \<open>WootCvrdt\<close> of \<open>cvrdt/state.go\<close>: both edit, push snapshots of
  their logs, and merge pushes that arrive late, repeatedly, out of order or never.  What a replica
  promises is the network of \<open>Network\<close>: each site applies each operation once, in causal order.
  The refinement shows that bisection, the merge of logs and the order of a log keep that promise while the
  edits stay within the texts; so no push fails and replicas with the same log show the same text.  Two
  runs at the end show that an insertion past the end, which the code accepts, breaks both.
\<close>

section \<open>Two replicas\<close>

record replicas =
  replica :: "string \<Rightarrow> woot_cvrdt"
  pushed :: "crdt_operation list set"

definition replicas_init :: replicas where
  "replicas_init = \<lparr>replica = NewWootCvrdtWithView, pushed = {}\<rparr>"

definition put_replica :: "replicas \<Rightarrow> string \<Rightarrow> woot_cvrdt \<Rightarrow> replicas" where
  "put_replica c x w = c\<lparr>replica := (replica c)(x := w)\<rparr>"

text \<open>The edits that are made are a parameter, as for the network.  An edit the site refuses leaves its trace,
  too.  A reading of the text or a tick of the dumper marks a replica as seen (\<open>look\<close>).\<close>

inductive replicas_step :: "(site \<Rightarrow> local_operation \<Rightarrow> bool) \<Rightarrow> string \<Rightarrow> string \<Rightarrow> replicas \<Rightarrow> replicas \<Rightarrow> bool"
  for edits a b where
  edit: "x = a \<or> x = b \<Longrightarrow> edits (cv_site (replica c x)) l \<Longrightarrow> UpdateState (replica c x) [Local l] = Ret (w, err) \<Longrightarrow>
     replicas_step edits a b c (put_replica c x w)"
| push: "x = a \<or> x = b \<Longrightarrow> replicas_step edits a b c (c\<lparr>pushed := insert (GetState (replica c x)) (pushed c)\<rparr>)"
| merge: "x = a \<or> x = b \<Longrightarrow> st \<in> pushed c \<Longrightarrow> UpdateState (replica c x) st = Ret (w, err) \<Longrightarrow>
     replicas_step edits a b c (put_replica c x w)"
| look: "x = a \<or> x = b \<Longrightarrow> replicas_step edits a b c (put_replica c x (snd (Snapshot (replica c x))))"

inductive replicas_reachable :: "(site \<Rightarrow> local_operation \<Rightarrow> bool) \<Rightarrow> string \<Rightarrow> string \<Rightarrow> replicas \<Rightarrow> bool"
  for edits a b where
  replicas_new: "replicas_reachable edits a b replicas_init"
| replicas_next: "replicas_reachable edits a b c \<Longrightarrow> replicas_step edits a b c c' \<Longrightarrow> replicas_reachable edits a b c'"

section \<open>Causal networks\<close>

text \<open>The cells an operation refers to, and the sets of operations that hold all they depend on.\<close>

definition cells_of :: "woot_operation \<Rightarrow> cell_ref set" where
  "cells_of op = (if is_del op then {cid_norm (op_cell op)}
     else {cid_norm (data_PreviousId (woot_Character op)), cid_norm (data_NextId (woot_Character op))})"

definition causally_closed :: "network \<Rightarrow> woot_operation set \<Rightarrow> bool" where
  "causally_closed n A \<longleftrightarrow> A \<subseteq> net_sent n \<and>
     (\<forall>op\<in>A. \<forall>op'\<in>net_sent n. HappenedBefore (woot_Id op') (woot_Id op) \<longrightarrow> op' \<in> A)"

definition causal :: "string \<Rightarrow> string \<Rightarrow> network \<Rightarrow> bool" where
  "causal a b n \<longleftrightarrow>
     (\<forall>op\<in>net_sent n. lid_SiteId (woot_Id op) = a \<or> lid_SiteId (woot_Id op) = b) \<and>
     (\<forall>op\<in>net_sent n. cells_of op \<subseteq> known_cells {op'\<in>net_sent n. HappenedBefore (woot_Id op') (woot_Id op)}) \<and>
     (\<forall>x. causally_closed n (net_done n x)) \<and>
     (\<forall>x. \<forall>op\<in>net_done n x. clk_le (lid_Clock (woot_Id op)) (clocks (site_clock (net_site n x)))) \<and>
     (\<forall>x. \<forall>op\<in>net_sent n. GetLogicalClock (woot_Id op) \<le> clk_val (clocks (site_clock (net_site n x)))
        (lid_SiteId (woot_Id op)) \<longrightarrow> op \<in> net_done n x)"

lemma causalD:
  assumes "causal a b n"
  shows "op \<in> net_sent n \<Longrightarrow> lid_SiteId (woot_Id op) = a \<or> lid_SiteId (woot_Id op) = b"
    and "op \<in> net_sent n \<Longrightarrow> cells_of op \<subseteq> known_cells {op'\<in>net_sent n. HappenedBefore (woot_Id op') (woot_Id op)}"
    and "causally_closed n (net_done n x)"
    and "op \<in> net_done n x \<Longrightarrow> clk_le (lid_Clock (woot_Id op)) (clocks (site_clock (net_site n x)))"
    and "op \<in> net_sent n \<Longrightarrow> GetLogicalClock (woot_Id op) \<le> clk_val (clocks (site_clock (net_site n x)))
      (lid_SiteId (woot_Id op)) \<Longrightarrow> op \<in> net_done n x"
  using assms unfolding causal_def by blast+

lemma causal_init: "causal a b net_init"
  by (simp add: causal_def net_init_def causally_closed_def)

lemma history_of: "net_ok K rank n \<Longrightarrow> history_ok (woot_Id ` net_sent n)"
  by (rule clocks_okD(7) [OF net_okD(1)])

text \<open>What happened before an operation is below its clock.\<close>

lemma sent_before:
  assumes "net_ok K rank n" "op \<in> net_sent n" "op' \<in> net_sent n"
  shows "HappenedBefore (woot_Id op') (woot_Id op) \<longleftrightarrow>
    op' \<noteq> op \<and> GetLogicalClock (woot_Id op') \<le> clk_val (lid_Clock (woot_Id op)) (lid_SiteId (woot_Id op'))"
proof -
  have H: "history_ok (woot_Id ` net_sent n)" by (rule history_of [OF assms(1)])
  have ids: "woot_Id op \<in> woot_Id ` net_sent n" "woot_Id op' \<in> woot_Id ` net_sent n" using assms(2,3) by auto
  have hb: "HappenedBefore (woot_Id op') (woot_Id op) \<longleftrightarrow>
      clk_less (lid_Clock (woot_Id op')) (lid_Clock (woot_Id op))"
    by (rule HappenedBefore_less [OF history_okD(1) [OF H ids(2)] history_okD(1) [OF H ids(1)]])
  have eq: "woot_Id op' = woot_Id op \<longleftrightarrow> op' = op" using net_okD(2) [OF assms(1)] assms(2,3) by (auto simp: inj_on_def)
  show ?thesis
    using hb eq history_okD(2) [OF H ids(2) ids(1)] history_okD(3) [OF H ids]
    by (auto simp: clk_less_def GetLogicalClock_alt dest: clk_leD)
qed

section \<open>The steps keep causality\<close>

lemma generated_facts:
  assumes ok: "net_ok K rank n" and t: "can_tick (net_site n x)"
    and run: "ComputeOp (net_site n x) (Local l) = Ret (s, op, None)"
    and range: "loc_opType l = Insertion \<longrightarrow> in_range (net_site n x) (loc_pos l)"
  shows "woot_Id op = \<lparr>lid_SiteId = x, lid_Clock = clocks (tick (site_clock (net_site n x)))\<rparr>"
    and "site_clock s = tick (site_clock (net_site n x))" and "cells_of op \<subseteq> known_cells (net_done n x)"
proof -
  let ?s = "net_site n x"
  have sx: "site_ok K rank (net_done n x) x ?s" by (rule net_okD(5) [OF ok])
  then have wk: "woot_ok K rank (characters ?s)" and H: "holds_ops (net_done n x) (characters ?s)"
    and sid: "site_id ?s = x" by (simp_all add: site_ok_def)
  have clk: "clk_ok (clocks (site_clock ?s))" by (rule clocks_okD(2) [OF net_okD(1) [OF ok]])
  have known: "known_cells (net_done n x) = set (refs (characters ?s))" by (rule site_refs [OF sx, symmetric])
  have "woot_Id op = \<lparr>lid_SiteId = x, lid_Clock = clocks (tick (site_clock ?s))\<rparr> \<and>
    site_clock s = tick (site_clock ?s) \<and> cells_of op \<subseteq> known_cells (net_done n x)"
  proof (cases "loc_opType l = Insertion")
    case True
    with run have gen: "GenerateIns ?s (loc_pos l) (loc_content l) = Ret (s, op, None)" by (simp add: ComputeOp_def)
    note fresh = next_cell_fresh [OF ok t]
    have "Cell (next_cell ?s) \<notin> set (refs (characters ?s))"
      using fresh(1) known_cells_mono [OF net_okD(4) [OF ok, of x]] known by blast
    note new = this
    from True range have "in_range ?s (loc_pos l)" by simp
    then obtain op' w where g: "GenerateIns ?s (loc_pos l) (loc_content l) =
        Ret (?s\<lparr>site_clock := next_clock ?s, characters := w\<rparr>, op', None)"
      and op': "woot_Id op' = \<lparr>lid_SiteId = site_id ?s, lid_Clock = clocks (next_clock ?s)\<rparr>" "is_ins op'"
        "cid_norm (data_PreviousId (woot_Character op')) \<in> set (refs (characters ?s))"
        "cid_norm (data_NextId (woot_Character op')) \<in> set (refs (characters ?s))"
      by (rule GenerateIns_refines [OF wk H _ clk fresh(2) new]) blast
    from g gen have "op = op'" "s = ?s\<lparr>site_clock := next_clock ?s, characters := w\<rparr>" by simp_all
    with op' show ?thesis unfolding known next_clock_tick sid by (simp add: cells_of_def)
  next
    case False
    with run have gen: "GenerateDel ?s (loc_pos l) = Ret (s, op, None)" by (simp add: ComputeOp_def)
    then obtain k where ith: "wstr_GetIthVisibleValue (characters ?s) (loc_pos l) True = Inr k"
      by (cases "wstr_GetIthVisibleValue (characters ?s) (loc_pos l) True") (auto simp: GenerateDel_def)
    obtain op' w where g: "GenerateDel ?s (loc_pos l) = Ret (?s\<lparr>site_clock := next_clock ?s, characters := w\<rparr>, op', None)"
      and op': "woot_Id op' = \<lparr>lid_SiteId = site_id ?s, lid_Clock = clocks (next_clock ?s)\<rparr>"
        "is_del op'" "op_placed K rank op'" "Cell (op_cell op') \<in> set (refs (characters ?s))"
      by (rule GenerateDel_refines [OF wk H clk ith])
    from g gen have "op = op'" "s = ?s\<lparr>site_clock := next_clock ?s, characters := w\<rparr>" by simp_all
    with op' show ?thesis unfolding known next_clock_tick sid by (simp add: cells_of_def op_placed_def)
  qed
  then show "woot_Id op = \<lparr>lid_SiteId = x, lid_Clock = clocks (tick (site_clock ?s))\<rparr>"
    "site_clock s = tick (site_clock ?s)" "cells_of op \<subseteq> known_cells (net_done n x)" by blast+
qed

lemma ticked_reach:
  assumes ok: "net_ok K rank n" and t: "can_tick (net_site n x)" and op: "op \<in> net_sent n"
  shows "GetLogicalClock (woot_Id op) \<le> clk_val (clocks (tick (site_clock (net_site n x)))) (lid_SiteId (woot_Id op)) \<longleftrightarrow>
    GetLogicalClock (woot_Id op) \<le> clk_val (clocks (site_clock (net_site n x))) (lid_SiteId (woot_Id op))"
proof -
  note C = net_okD(1) [OF ok]
  have lt: "vc_Value (site_clock (net_site n x)) + 1 < MaxValue" using t by (simp add: can_tick_def)
  have "clk_val (lid_Clock (woot_Id op)) x \<le> vc_Value (site_clock (net_site n x))"
    using clocks_okD(6) [OF C, of "woot_Id op" x] op by blast
  then show ?thesis
    using clocks_okD(5) [OF C, of x] by (auto simp: tick_val(1) [OF C lt] GetLogicalClock_alt)
qed

text \<open>A new operation comes after what its site has applied, and before nothing.\<close>

lemma generated_order:
  assumes ok: "net_ok K rank n" and t: "can_tick (net_site n x)" and c: "causal a b n"
    and id: "woot_Id op = \<lparr>lid_SiteId = x, lid_Clock = clocks (tick (site_clock (net_site n x)))\<rparr>"
    and ok': "net_ok K' rank' (apply_at n x s op)" and op': "op' \<in> net_sent n"
  shows "op' \<noteq> op" and "HappenedBefore (woot_Id op') (woot_Id op) \<longleftrightarrow> op' \<in> net_done n x"
    and "\<not> HappenedBefore (woot_Id op) (woot_Id op')"
proof -
  note C = net_okD(1) [OF ok]
  have lt: "vc_Value (site_clock (net_site n x)) + 1 < MaxValue" using t by (simp add: can_tick_def)
  have glc: "GetLogicalClock (woot_Id op) = vc_Value (site_clock (net_site n x)) + 1"
    by (simp add: id GetLogicalClock_alt tick_val(1) [OF C lt])
  have low: "clk_val (lid_Clock (woot_Id op')) x \<le> vc_Value (site_clock (net_site n x))"
    using clocks_okD(6) [OF C, of "woot_Id op'" x] op' by blast
  show ne: "op' \<noteq> op" using low glc by (auto simp: id GetLogicalClock_alt)
  have sent: "op \<in> net_sent (apply_at n x s op)" "op' \<in> net_sent (apply_at n x s op)"
    using op' by (simp_all add: apply_at_def)
  have "GetLogicalClock (woot_Id op') \<le> clk_val (clocks (site_clock (net_site n x))) (lid_SiteId (woot_Id op')) \<longleftrightarrow>
      op' \<in> net_done n x"
    using causalD(4) [OF c, of op' x] causalD(5) [OF c op', of x] by (auto simp: GetLogicalClock_alt dest: clk_leD)
  then show "HappenedBefore (woot_Id op') (woot_Id op) \<longleftrightarrow> op' \<in> net_done n x"
    using sent_before [OF ok' sent] ne ticked_reach [OF ok t op'] by (simp add: id)
  show "\<not> HappenedBefore (woot_Id op) (woot_Id op')"
    using sent_before [OF ok' sent(2,1)] low glc by (simp add: id)
qed

lemma closed_generate:
  assumes "net_ok K rank n" "can_tick (net_site n x)" "causal a b n"
    "woot_Id op = \<lparr>lid_SiteId = x, lid_Clock = clocks (tick (site_clock (net_site n x)))\<rparr>"
    "net_ok K' rank' (apply_at n x s op)" "causally_closed n A"
  shows "causally_closed (apply_at n x s op) A"
  using assms(6) generated_order(3) [OF assms(1-5)] by (auto simp: causally_closed_def apply_at_def)

lemma causal_generate:
  assumes ok: "net_ok K rank n" and t: "can_tick (net_site n x)" and c: "causal a b n" and x: "x = a \<or> x = b"
    and id: "woot_Id op = \<lparr>lid_SiteId = x, lid_Clock = clocks (tick (site_clock (net_site n x)))\<rparr>"
    and s: "site_clock s = tick (site_clock (net_site n x))" "cells_of op \<subseteq> known_cells (net_done n x)"
    and ok': "net_ok K' rank' (apply_at n x s op)"
  shows "causal a b (apply_at n x s op)"
proof -
  let ?n = "apply_at n x s op"
  note new = generated_order [OF ok t c id ok'] and sub = net_okD(4) [OF ok]
  note C = net_okD(1) [OF ok]
  have lt: "vc_Value (site_clock (net_site n x)) + 1 < MaxValue" using t by (simp add: can_tick_def)
  have sent: "net_sent ?n = insert op (net_sent n)" and dn: "net_done ?n y = (if y = x then insert op (net_done n x) else net_done n y)"
    and clk: "site_clock (net_site ?n y) = (if y = x then tick (site_clock (net_site n x)) else site_clock (net_site n y))" for y
    using s(1) by (simp_all add: apply_at_def)
  have le: "clk_le (clocks (site_clock (net_site n x))) (clocks (tick (site_clock (net_site n x))))"
    by (simp add: tick_def clk_le_vc_Increment)
  show ?thesis
    unfolding causal_def
  proof (intro conjI allI ballI impI)
    fix o1 assume "o1 \<in> net_sent ?n"
    then show "lid_SiteId (woot_Id o1) = a \<or> lid_SiteId (woot_Id o1) = b"
      using causalD(1) [OF c] x id by (auto simp: sent)
  next
    fix o1 assume o1: "o1 \<in> net_sent ?n"
    let ?before = "\<lambda>S o1. {op'\<in>S. HappenedBefore (woot_Id op') (woot_Id o1)}"
    show "cells_of o1 \<subseteq> known_cells (?before (net_sent ?n) o1)"
    proof (cases "o1 = op")
      case True
      have "net_done n x \<subseteq> ?before (net_sent ?n) op" using new(2) sub [of x] by (auto simp: sent)
      with s(2) known_cells_mono show ?thesis unfolding True by blast
    next
      case False
      with o1 have "o1 \<in> net_sent n" by (simp add: sent)
      moreover have "?before (net_sent n) o1 \<subseteq> ?before (net_sent ?n) o1" by (auto simp: sent)
      ultimately show ?thesis using causalD(2) [OF c] known_cells_mono by blast
    qed
  next
    fix y
    have "causally_closed ?n (insert op (net_done n x))"
      using causalD(3) [OF c, of x] new sub [of x] by (auto simp: causally_closed_def sent)
    then show "causally_closed ?n (net_done ?n y)"
      using closed_generate [OF ok t c id ok' causalD(3) [OF c, of y]] by (simp add: dn)
  next
    fix y o1 assume "o1 \<in> net_done ?n y"
    then show "clk_le (lid_Clock (woot_Id o1)) (clocks (site_clock (net_site ?n y)))"
      using causalD(4) [OF c, of o1 y] clk_le_trans [OF _ le, of "lid_Clock (woot_Id o1)"] id
      by (auto simp: dn clk split: if_splits)
  next
    fix y o1 assume o1: "o1 \<in> net_sent ?n" and le1: "GetLogicalClock (woot_Id o1) \<le>
      clk_val (clocks (site_clock (net_site ?n y))) (lid_SiteId (woot_Id o1))"
    show "o1 \<in> net_done ?n y"
    proof (cases "o1 = op")
      case True
      have "GetLogicalClock (woot_Id op) = vc_Value (site_clock (net_site n x)) + 1"
        by (simp add: id GetLogicalClock_alt tick_val(1) [OF C lt])
      with le1 True clocks_okD(4) [OF C, of y x] id have "y = x" by (auto simp: clk split: if_splits)
      with True show ?thesis by (simp add: dn)
    next
      case False
      with o1 have "o1 \<in> net_sent n" by (simp add: sent)
      with le1 show ?thesis
        using ticked_reach [OF ok t] causalD(5) [OF c] by (auto simp: dn clk split: if_splits)
    qed
  qed
qed

text \<open>A refused edit ticks the clock at most.\<close>

lemma causal_refuse:
  assumes ok: "net_ok K rank n" and t: "can_tick (net_site n x)" and c: "causal a b n"
    and run: "ComputeOp (net_site n x) (Local l) = Ret (s, op, Some e)"
  shows "causal a b (n\<lparr>net_site := (net_site n)(x := s)\<rparr>)"
proof (cases "s = net_site n x")
  case True
  with c show ?thesis by simp
next
  case False
  with ComputeOp_refused [OF run] have s: "site_clock s = tick (site_clock (net_site n x))"
    by (auto simp: next_clock_tick)
  have le: "clk_le (clocks (site_clock (net_site n x))) (clocks (site_clock s))"
    by (simp add: s tick_def clk_le_vc_Increment)
  show ?thesis
    using c ticked_reach [OF ok t] clk_le_trans [OF _ le] unfolding causal_def causally_closed_def
    by (auto simp: s)
qed

text \<open>An operation whose past has arrived is delivered.\<close>

lemma causal_context:
  assumes ok: "net_ok K rank n" and c: "causal a b n" and op: "op \<in> net_sent n"
    and past: "\<forall>op'\<in>net_sent n. HappenedBefore (woot_Id op') (woot_Id op) \<longrightarrow> op' \<in> net_done n x"
  shows "in_context (characters (net_site n x)) op"
proof -
  have "{op'\<in>net_sent n. HappenedBefore (woot_Id op') (woot_Id op)} \<subseteq> net_done n x" using past by blast
  with causalD(2) [OF c op] known_cells_mono have "cells_of op \<subseteq> known_cells (net_done n x)" by blast
  then show ?thesis
    using site_refs [OF net_okD(5) [OF ok, of x]] by (auto simp: in_context_def cells_of_def split: if_splits)
qed

lemma causal_deliver:
  assumes n: "net_reachable within_text n" and c: "causal a b n" and op: "op \<in> net_sent n" "op \<notin> net_done n x"
    and past: "\<forall>op'\<in>net_sent n. HappenedBefore (woot_Id op') (woot_Id op) \<longrightarrow> op' \<in> net_done n x"
  obtains s where "ComputeOp (net_site n x) (Woot op) = Ret (s, op, None)"
    and "net_reachable within_text (apply_at n x s op)" and "causal a b (apply_at n x s op)"
    and "net_sent (apply_at n x s op) = net_sent n"
proof -
  obtain K rank where ok: "net_ok K rank n" using net_reachable_ok [OF n] by blast
  note ctx = causal_context [OF ok c op(1) past] and C = net_okD(1) [OF ok]
  obtain w where run: "ComputeOp (net_site n x) (Woot op) =
      Ret ((net_site n x)\<lparr>site_clock := vc_Update (site_clock (net_site n x)) (lid_Clock (woot_Id op)),
        characters := w\<rparr>, op, None)"
    by (rule deliver_applies [OF ok op ctx])
  define s where "s = (net_site n x)\<lparr>site_clock := vc_Update (site_clock (net_site n x)) (lid_Clock (woot_Id op)),
    characters := w\<rparr>"
  let ?n = "apply_at n x s op"
  have sent: "net_sent ?n = net_sent n" and dn: "net_done ?n y = (if y = x then insert op (net_done n x) else net_done n y)"
    for y using op(1) by (auto simp: apply_at_def)
  have ids: "clk_ok (lid_Clock (woot_Id op))" using history_okD(1) [OF history_of [OF ok]] op(1) by (auto dest: lid_okD)
  have clk: "clk_val (clocks (site_clock (net_site ?n y))) z =
      (if y = x then max (clk_val (clocks (site_clock (net_site n x))) z) (clk_val (lid_Clock (woot_Id op)) z)
       else clk_val (clocks (site_clock (net_site n y))) z)" for y z
    using clk_val_vc_Update [OF clocks_okD(2) [OF C] ids] by (simp add: apply_at_def s_def)
  have "causal a b ?n"
    unfolding causal_def sent
  proof (intro conjI allI ballI impI)
    fix o1 assume o1: "o1 \<in> net_sent n"
    then show "lid_SiteId (woot_Id o1) = a \<or> lid_SiteId (woot_Id o1) = b" by (rule causalD(1) [OF c])
    show "cells_of o1 \<subseteq> known_cells {op' \<in> net_sent n. HappenedBefore (woot_Id op') (woot_Id o1)}"
      by (rule causalD(2) [OF c o1])
  next
    fix y show "causally_closed ?n (net_done ?n y)"
      using causalD(3) [OF c, of y] past op(1) by (auto simp: causally_closed_def sent dn)
  next
    fix y o1 assume "o1 \<in> net_done ?n y"
    then show "clk_le (lid_Clock (woot_Id o1)) (clocks (site_clock (net_site ?n y)))"
      using causalD(4) [OF c, of o1 y] by (auto simp: clk_le_def clk dn le_max_iff_disj split: if_splits)
  next
    fix y o1 assume o1: "o1 \<in> net_sent n" and le: "GetLogicalClock (woot_Id o1) \<le>
      clk_val (clocks (site_clock (net_site ?n y))) (lid_SiteId (woot_Id o1))"
    then show "o1 \<in> net_done ?n y"
      using causalD(5) [OF c o1, of y] sent_before [OF ok op(1) o1] past
      by (auto simp: clk dn le_max_iff_disj split: if_splits)
  qed
  moreover have "net_reachable within_text ?n"
    by (rule net_reachable.step [OF n net_step.deliver [OF op ctx run [folded s_def]]])
  ultimately show thesis using that [OF run [folded s_def]] sent by simp
qed

section \<open>Merging a log\<close>

lemma sent_two_sites:
  assumes "net_ok K rank n" "causal a b n"
  shows "two_site_ops a b (Woot ` net_sent n)"
  using history_of [OF assms(1)] net_okD(2) [OF assms(1)] causalD(1) [OF assms(2)]
  by (auto simp: two_site_ops_def two_site_history_def inj_on_def image_image)

lemma HappenedBefore_Compare:
  assumes ok: "net_ok K rank n" and "op \<in> net_sent n" "op' \<in> net_sent n" "HappenedBefore (woot_Id op') (woot_Id op)"
  shows "CompareOperation (Woot op') (Woot op) < 0"
proof -
  have "op' \<noteq> op" using sent_before [OF ok assms(2,3)] assms(4) by simp
  then have "\<not> lid_equals (woot_Id op') (woot_Id op)"
    using lid_equals_history [OF history_of [OF ok], of "woot_Id op'" "woot_Id op"] net_okD(2) [OF ok] assms(2,3)
    by (auto simp: inj_on_def)
  then show ?thesis using HB_lid_less [OF assms(4)] by (simp add: CompareOperation_def lid_Compare_def)
qed

text \<open>In a sorted log that holds what its operations depend on, an operation stands after its past.\<close>

lemma past_stands_before:
  assumes ok: "net_ok K rank n" and c: "causal a b n"
    and sorted: "op_sorted (Woot op # rest)" and sub: "set (Woot op # rest) \<subseteq> Woot ` net_sent n"
    and op': "op' \<in> net_sent n" "HappenedBefore (woot_Id op') (woot_Id op)"
  shows "Woot op' \<notin> set (Woot op # rest)"
proof
  note ord = two_sites_facts [OF sent_two_sites [OF ok c]]
  have in': "Woot op \<in> Woot ` net_sent n" "Woot op' \<in> Woot ` net_sent n" using sub op' by auto
  then have less: "CompareOperation (Woot op') (Woot op) < 0"
    using HappenedBefore_Compare [OF ok _ op'] by blast
  assume "Woot op' \<in> set (Woot op # rest)"
  moreover have "op' \<noteq> op" using less op_order.cmp_eq [OF ord in'] by auto
  ultimately have "CompareOperation (Woot op) (Woot op') < 0" using sorted by auto
  with less op_order.cmp_flip [OF ord in'] show False by simp
qed

text \<open>The networks that differ from \<open>n\<close> in what the site \<open>x\<close> has received.\<close>

definition received :: "string \<Rightarrow> string \<Rightarrow> string \<Rightarrow> network \<Rightarrow> network \<Rightarrow> bool" where
  "received a b x n n' \<longleftrightarrow> net_reachable within_text n' \<and> causal a b n' \<and> net_sent n' = net_sent n \<and>
     (\<forall>y. y \<noteq> x \<longrightarrow> net_site n' y = net_site n y \<and> net_done n' y = net_done n y)"

lemma received_trans: "received a b x n n1 \<Longrightarrow> received a b x n1 n2 \<Longrightarrow> received a b x n n2"
  by (simp add: received_def)

lemma loop_refines:
  assumes "net_reachable within_text n" "causal a b n" "op_sorted w" "op_sorted new" "set ops \<inter> set new = {}"
    "Woot ` net_done n x = set w \<union> set new" "op_sorted ops" "set ops \<subseteq> Woot ` net_sent n"
    "\<forall>op op'. Woot op \<in> set ops \<longrightarrow> op' \<in> net_sent n \<longrightarrow> HappenedBefore (woot_Id op') (woot_Id op) \<longrightarrow>
       op' \<in> net_done n x \<or> Woot op' \<in> set ops"
  shows "\<exists>n' new'. update_loop w (net_site n x) new ops = Ret (net_site n' x, new', None) \<and>
    received a b x n n' \<and> op_sorted new' \<and> Woot ` net_done n' x = set w \<union> set new' \<and>
    set w \<union> set new' = set w \<union> set new \<union> set ops"
  using assms
proof (induction ops arbitrary: n new)
  case Nil
  then show ?case by (intro exI [of _ n] exI [of _ new]) (simp add: received_def)
next
  case (Cons cop rest)
  obtain K rank where ok: "net_ok K rank n" using net_reachable_ok [OF Cons.prems(1)] by blast
  note c = Cons.prems(2) and done_eq = Cons.prems(6)
  note ord = two_sites_facts [OF sent_two_sites [OF ok c]]
  obtain op where cop: "cop = Woot op" and sent: "op \<in> net_sent n" using Cons.prems(8) by auto
  have sub: "set w \<subseteq> Woot ` net_sent n" "set new \<subseteq> Woot ` net_sent n"
    using done_eq net_okD(4) [OF ok, of x] by blast+
  have contains: "state_contains CompareOperation w cop \<longleftrightarrow> cop \<in> set w"
    using op_order.contains [OF ord Cons.prems(3) sub(1)] sent cop by blast
  have rest: "op_sorted rest" "set rest \<subseteq> Woot ` net_sent n" "cop \<notin> set rest"
    using Cons.prems(7,8) op_order.asc_distinct [OF ord Cons.prems(7,8)] by auto
  show ?case
  proof (cases "cop \<in> set w")
    case True
    then have "op \<in> net_done n x" using done_eq cop by blast
    then have past: "\<forall>o1 o2. Woot o1 \<in> set rest \<longrightarrow> o2 \<in> net_sent n \<longrightarrow> HappenedBefore (woot_Id o2) (woot_Id o1) \<longrightarrow>
        o2 \<in> net_done n x \<or> Woot o2 \<in> set rest"
      using Cons.prems(9) cop by (metis crdt_operation.inject(1) set_ConsD list.set_intros(2))
    from Cons.IH [OF Cons.prems(1,2,3,4) _ done_eq rest(1,2) past] Cons.prems(5) True contains
    show ?thesis by (auto simp: insert_absorb)
  next
    case False
    have new: "op \<notin> net_done n x" using False Cons.prems(5) done_eq cop by auto
    have past: "\<forall>op'\<in>net_sent n. HappenedBefore (woot_Id op') (woot_Id op) \<longrightarrow> op' \<in> net_done n x"
      using Cons.prems(7-9) past_stands_before [OF ok c, of op rest] cop by (metis list.set_intros(1))
    obtain s where run: "ComputeOp (net_site n x) (Woot op) = Ret (s, op, None)"
      and n': "net_reachable within_text (apply_at n x s op)" "causal a b (apply_at n x s op)"
        "net_sent (apply_at n x s op) = net_sent n"
      by (rule causal_deliver [OF Cons.prems(1) c sent new past])
    let ?n = "apply_at n x s op" and ?new = "state_insert CompareOperation new cop"
    have ins: "op_sorted ?new" "set ?new = insert cop (set new)"
      using op_order.insert_asc [OF ord Cons.prems(4) sub(2)] sent cop by blast+
    have site: "net_site ?n x = s" "net_done ?n x = insert op (net_done n x)" by (simp_all add: apply_at_def)
    have step: "received a b x n ?n" using n' by (simp add: received_def apply_at_def)
    have "\<exists>n' new'. update_loop w (net_site ?n x) ?new rest = Ret (net_site n' x, new', None) \<and>
      received a b x ?n n' \<and> op_sorted new' \<and> Woot ` net_done n' x = set w \<union> set new' \<and>
      set w \<union> set new' = set w \<union> set ?new \<union> set rest"
    proof (rule Cons.IH [OF n'(1,2) Cons.prems(3) ins(1) _ _ rest(1)])
      show "set rest \<inter> set ?new = {}" using Cons.prems(5) rest(3) ins(2) by auto
      show "Woot ` net_done ?n x = set w \<union> set ?new" using done_eq ins(2) site(2) cop by auto
      show "set rest \<subseteq> Woot ` net_sent ?n" using rest(2) n'(3) by simp
      show "\<forall>o1 o2. Woot o1 \<in> set rest \<longrightarrow> o2 \<in> net_sent ?n \<longrightarrow> HappenedBefore (woot_Id o2) (woot_Id o1) \<longrightarrow>
          o2 \<in> net_done ?n x \<or> Woot o2 \<in> set rest"
        using Cons.prems(9) n'(3) site(2) cop by auto
    qed
    then obtain n' new' where loop: "update_loop w (net_site ?n x) ?new rest = Ret (net_site n' x, new', None)"
      and r: "received a b x ?n n'" "op_sorted new'" "Woot ` net_done n' x = set w \<union> set new'"
        "set w \<union> set new' = set w \<union> set ?new \<union> set rest" by blast
    have "update_loop w (net_site n x) new (cop # rest) = Ret (net_site n' x, new', None)"
      using contains False run site(1) cop loop by simp
    moreover have "set w \<union> set new' = set w \<union> set new \<union> set (cop # rest)" using r(4) ins(2) by auto
    ultimately show ?thesis using received_trans [OF step r(1)] r(2,3) by blast
  qed
qed

section \<open>The refinement\<close>

text \<open>The replicas against the network of their sites: the site of a replica is the network's, its log
  holds exactly what the site has applied, and a push holds all that its operations depend on.\<close>

definition refines :: "string \<Rightarrow> string \<Rightarrow> replicas \<Rightarrow> network \<Rightarrow> bool" where
  "refines a b c n \<longleftrightarrow> net_reachable within_text n \<and> causal a b n \<and>
     (\<forall>x. x = a \<or> x = b \<longrightarrow> cv_site (replica c x) = net_site n x \<and> op_sorted (cv_state (replica c x)) \<and>
        set (cv_state (replica c x)) = Woot ` net_done n x) \<and>
     (\<forall>st\<in>pushed c. op_sorted st \<and> (\<exists>A. causally_closed n A \<and> set st = Woot ` A))"

lemma refinesD:
  assumes "refines a b c n"
  shows "net_reachable within_text n" and "causal a b n"
    and "x = a \<or> x = b \<Longrightarrow> cv_site (replica c x) = net_site n x"
    and "x = a \<or> x = b \<Longrightarrow> op_sorted (cv_state (replica c x))"
    and "x = a \<or> x = b \<Longrightarrow> set (cv_state (replica c x)) = Woot ` net_done n x"
    and "st \<in> pushed c \<Longrightarrow> op_sorted st"
    and "st \<in> pushed c \<Longrightarrow> \<exists>A. causally_closed n A \<and> set st = Woot ` A"
  using assms by (auto simp: refines_def)

lemma refines_put:
  assumes "refines a b c n" "net_reachable within_text n'" "causal a b n'" "\<And>y. y \<noteq> x \<Longrightarrow> net_site n' y = net_site n y \<and> net_done n' y = net_done n y"
    "cv_site w = net_site n' x" "op_sorted (cv_state w)" "set (cv_state w) = Woot ` net_done n' x"
    "\<And>A. causally_closed n A \<Longrightarrow> causally_closed n' A"
  shows "refines a b (put_replica c x w) n'"
  unfolding refines_def
proof (intro conjI allI impI ballI)
  fix y assume y: "y = a \<or> y = b"
  show "cv_site (replica (put_replica c x w) y) = net_site n' y" "op_sorted (cv_state (replica (put_replica c x w) y))"
    "set (cv_state (replica (put_replica c x w) y)) = Woot ` net_done n' y"
    using refinesD(3-5) [OF assms(1) y] assms(4) [of y] assms(5-7) by (simp_all add: put_replica_def)
next
  fix st assume "st \<in> pushed (put_replica c x w)"
  then have st: "st \<in> pushed c" by (simp add: put_replica_def)
  show "op_sorted st" by (rule refinesD(6) [OF assms(1) st])
  show "\<exists>A. causally_closed n' A \<and> set st = Woot ` A" using refinesD(7) [OF assms(1) st] assms(8) by blast
qed (rule assms(2), rule assms(3))

lemma refines_init: "refines a b replicas_init net_init"
  using net_reachable.init causal_init
  by (simp add: refines_def replicas_init_def net_init_def NewWootCvrdtWithView_def)

lemma refines_replica_ok:
  assumes "refines a b c n" "x = a \<or> x = b"
  shows "replica_ok (replica c x)" "pendingOps (cv_site (replica c x)) = []"
proof -
  obtain K rank where ok: "net_ok K rank n" using net_reachable_ok [OF refinesD(1) [OF assms(1)]] by blast
  note C = net_okD(1) [OF ok]
  have s: "site_id (net_site n x) = x" "pendingOps (net_site n x) = []"
    using net_okD(5) [OF ok, of x] by (simp_all add: site_ok_def)
  then have "site_timed (net_site n x)" using clocks_okD(1,2) [OF C, of x] by (simp add: site_timed_def)
  moreover have "accounted (net_site n x) (woot_Id op)" if "op \<in> net_done n x" for op
    using causalD(4) [OF refinesD(2) [OF assms(1)] that] history_okD(1) [OF history_of [OF ok]] that net_okD(4) [OF ok, of x]
    by (auto simp: accounted_def knows_def)
  ultimately show "replica_ok (replica c x)" "pendingOps (cv_site (replica c x)) = []"
    using refinesD(3,5) [OF assms] s(2) by (auto simp: replica_ok_def)
qed

text \<open>A log is merged without an error, and the site applies what it does not know.\<close>

lemma refines_merge:
  assumes R: "refines a b c n" and x: "x = a \<or> x = b" and st: "op_sorted st" "causally_closed n A" "set st = Woot ` A"
  obtains w n' where "UpdateState (replica c x) st = Ret (w, None)" and "refines a b (put_replica c x w) n'"
    and "set (cv_state w) = set (cv_state (replica c x)) \<union> set st"
proof -
  note n = refinesD(1) [OF R] and c = refinesD(2) [OF R] and r = refinesD(3-5) [OF R x]
  obtain K rank where ok: "net_ok K rank n" using net_reachable_ok [OF n] by blast
  note ord = two_sites_facts [OF sent_two_sites [OF ok c]]
  have past: "\<forall>op op'. Woot op \<in> set st \<longrightarrow> op' \<in> net_sent n \<longrightarrow> HappenedBefore (woot_Id op') (woot_Id op) \<longrightarrow>
      op' \<in> net_done n x \<or> Woot op' \<in> set st"
    using st(2,3) by (auto simp: causally_closed_def)
  have sub: "set st \<subseteq> Woot ` net_sent n" using st(2,3) by (auto simp: causally_closed_def)
  obtain n' new where loop: "update_loop (cv_state (replica c x)) (net_site n x) [] st = Ret (net_site n' x, new, None)"
    and rec: "received a b x n n'" and new: "op_sorted new"
      "Woot ` net_done n' x = set (cv_state (replica c x)) \<union> set new"
      "set (cv_state (replica c x)) \<union> set new = set (cv_state (replica c x)) \<union> set st"
    using loop_refines [OF n c r(2), of "[]" st x] r(3) st(1) sub past by auto
  obtain w where w: "UpdateState (replica c x) st = Ret (w, None)" "cv_site w = net_site n' x"
    "cv_state w = state_Merge CompareOperation (cv_state (replica c x)) new"
    using loop r(1) by (simp add: UpdateState_def)
  have sub': "set (cv_state (replica c x)) \<subseteq> Woot ` net_sent n" "set new \<subseteq> Woot ` net_sent n"
    using r(3) net_okD(4) [OF ok, of x] new(3) sub by blast+
  have m: "op_sorted (cv_state w)" "set (cv_state w) = set (cv_state (replica c x)) \<union> set new"
    using op_order.merge_asc [OF ord r(2) sub'] unfolding w(3) by blast+
  have "refines a b (put_replica c x w) n'"
    using rec by (intro refines_put [OF R _ _ _ w(2) m(1)]) (auto simp: received_def m(2) new(2) causally_closed_def)
  then show thesis by (rule that [OF w(1)]) (simp add: m(2) new(3))
qed

text \<open>An edit is a generated operation of the network, or one that was refused.\<close>

lemma refines_edit:
  assumes R: "refines a b c n" and x: "x = a \<or> x = b" and l: "within_text (cv_site (replica c x)) l"
    and run: "UpdateState (replica c x) [Local l] = Ret (w, err)"
  shows "\<exists>n'. refines a b (put_replica c x w) n'"
proof -
  note n = refinesD(1) [OF R] and c = refinesD(2) [OF R] and r = refinesD(3-5) [OF R x]
  note good = refines_replica_ok [OF R x]
  obtain K rank where ok: "net_ok K rank n" using net_reachable_ok [OF n] by blast
  have l': "within_text (net_site n x) l" and t': "can_tick (net_site n x)"
    using l r(1) by (simp_all add: within_text_def)
  have sid: "site_id (net_site n x) = x" using net_okD(5) [OF ok, of x] by (simp add: site_ok_def)
  show ?thesis
  proof (cases err)
    case None
    have "clk_val (clocks (site_clock (cv_site (replica c x)))) (site_id (cv_site (replica c x))) < MaxValue"
      using t' sid clocks_okD(5) [OF net_okD(1) [OF ok], of x] r(1) by (simp add: can_tick_def)
    from edit_appends [OF good this run [unfolded None]] obtain op where
      comp: "ComputeOp (net_site n x) (Local l) = Ret (cv_site w, op, None)"
      and log: "cv_state w = cv_state (replica c x) @ [Woot op]" using r(1) by metis
    let ?n = "apply_at n x (cv_site w) op"
    note gen = generated_facts [OF ok t' comp within_text_range(2) [OF l' comp]]
    from net_step.generate [of within_text, OF l' comp] have reach: "net_reachable within_text ?n" by (rule net_reachable.step [OF n])
    then obtain K' rank' where ok': "net_ok K' rank' ?n" using net_reachable_ok by blast
    have causal: "causal a b ?n" by (rule causal_generate [OF ok t' c x gen ok'])
    have "CompareOperation y (Woot op) < 0" if y: "y \<in> set (cv_state (replica c x))" for y
    proof -
      obtain op' where op': "y = Woot op'" "op' \<in> net_done n x" using y r(3) by blast
      then have sent: "op' \<in> net_sent n" using net_okD(4) [OF ok, of x] by blast
      have "HappenedBefore (woot_Id op') (woot_Id op)"
        using generated_order(2) [OF ok t' c gen(1) ok' sent] op'(2) by simp
      then show ?thesis
        unfolding op'(1) by (intro HappenedBefore_Compare [OF ok']) (use sent in \<open>simp_all add: apply_at_def\<close>)
    qed
    then have "op_sorted (cv_state w)" using r(2) by (simp add: log sorted_wrt_append)
    moreover have "set (cv_state w) = Woot ` net_done ?n x" using r(3) by (simp add: log apply_at_def)
    ultimately have "refines a b (put_replica c x w) ?n"
      by (intro refines_put [OF R reach causal] closed_generate [OF ok t' c gen(1) ok']) (simp_all add: apply_at_def)
    then show ?thesis ..
  next
    case (Some e)
    obtain s new e' where loop: "update_loop (cv_state (replica c x)) (net_site n x) [] [Local l] = Ret (s, new, e')"
      using UpdateState_loop [OF run] r(1) by metis
    note w = UpdateState_result [OF run loop [folded r(1)]]
    have "\<forall>y\<in>set (cv_state (replica c x)). lid_ok (OpId y)" using good(1) by (simp add: replica_ok_def accounted_def)
    then have fresh: "\<not> state_contains CompareOperation (cv_state (replica c x)) (Local l)" by (rule local_not_contained)
    have timed: "site_timed (net_site n x)" using good(1) r(1) by (simp add: replica_ok_def)
    obtain s' op e2 where comp: "ComputeOp (net_site n x) (Local l) = Ret (s', op, e2)"
      using loop fresh by (auto simp: go_bind_Ret_iff)
    have "e2 = Some e" "s = s'"
      using loop fresh comp w(4) Some local_grows(3) [OF timed comp] by (cases e2; simp)+
    with comp have refused: "ComputeOp (net_site n x) (Local l) = Ret (s, op, Some e)" by simp
    let ?n = "n\<lparr>net_site := (net_site n)(x := s)\<rparr>"
    have reach: "net_reachable within_text ?n" by (rule net_reachable.step [OF n net_step.refuse [of within_text, OF l' refused]])
    have log: "cv_state w = cv_state (replica c x)" using w(2,4) Some by (cases e') simp_all
    have "refines a b (put_replica c x w) ?n"
      by (intro refines_put [OF R reach causal_refuse [OF ok t' c refused]])
        (use w(1) r(2,3) in \<open>simp_all add: log causally_closed_def\<close>)
    then show ?thesis ..
  qed
qed

lemma refines_push:
  assumes "refines a b c n" "x = a \<or> x = b"
  shows "refines a b (c\<lparr>pushed := insert (GetState (replica c x)) (pushed c)\<rparr>) n"
  using assms(1) refinesD(4,5) [OF assms] causalD(3) [OF refinesD(2) [OF assms(1)], of x]
  by (auto simp: refines_def GetState_def)

lemma refines_look:
  assumes "refines a b c n" "x = a \<or> x = b"
  shows "refines a b (put_replica c x (snd (Snapshot (replica c x)))) n"
  by (rule refines_put [OF assms(1) refinesD(1,2) [OF assms(1)]])
    (simp_all add: Snapshot_def refinesD(3-5) [OF assms])

lemma replicas_refined: "replicas_reachable within_text a b c \<Longrightarrow> \<exists>n. refines a b c n"
proof (induction rule: replicas_reachable.induct)
  case replicas_new
  then show ?case using refines_init by blast
next
  case (replicas_next c c')
  then obtain n where R: "refines a b c n" by blast
  from replicas_next.hyps(2) show ?case
  proof cases
    case (edit x l w err)
    from edit(1) refines_edit [OF R edit(2-4)] show ?thesis by simp
  next
    case (push x)
    from push(1) refines_push [OF R push(2)] show ?thesis by blast
  next
    case (merge x st w err)
    obtain A where A: "causally_closed n A" "set st = Woot ` A" using refinesD(7) [OF R merge(3)] by blast
    obtain w' n' where "UpdateState (replica c x) st = Ret (w', None)" "refines a b (put_replica c x w') n'"
      by (rule refines_merge [OF R merge(2) refinesD(6) [OF R merge(3)] A])
    with merge(1,4) show ?thesis by auto
  next
    case (look x)
    from look(1) refines_look [OF R look(2)] show ?thesis by blast
  qed
qed

lemma push_merges:
  assumes "replicas_reachable within_text a b c" "st \<in> pushed c" "x = a \<or> x = b"
  shows "\<exists>w. UpdateState (replica c x) st = Ret (w, None) \<and> pendingOps (cv_site w) = [] \<and>
    set (GetState w) = set (GetState (replica c x)) \<union> set st"
proof -
  obtain n where R: "refines a b c n" using replicas_refined [OF assms(1)] by blast
  obtain A where A: "causally_closed n A" "set st = Woot ` A" using refinesD(7) [OF R assms(2)] by blast
  obtain w n' where w: "UpdateState (replica c x) st = Ret (w, None)" "refines a b (put_replica c x w) n'"
    "set (cv_state w) = set (cv_state (replica c x)) \<union> set st"
    by (rule refines_merge [OF R assms(3) refinesD(6) [OF R assms(2)] A])
  with refines_replica_ok(2) [OF w(2) assms(3)] show ?thesis by (simp add: put_replica_def GetState_def)
qed

text \<open>Replicas with the same operations in their logs have the same log and show the same text.\<close>

lemma same_log_same_text:
  assumes "replicas_reachable within_text a b c" "set (GetState (replica c a)) = set (GetState (replica c b))"
  shows "GetState (replica c a) = GetState (replica c b)" "shows_text (replica c a) = shows_text (replica c b)"
proof -
  obtain n where R: "refines a b c n" using replicas_refined [OF assms(1)] by blast
  note R2 = refinesD [OF R]
  obtain K rank where ok: "net_ok K rank n" using net_reachable_ok [OF R2(1)] by blast
  note ord = two_sites_facts [OF sent_two_sites [OF ok R2(2)]]
  have "set (cv_state (replica c b)) \<subseteq> Woot ` net_sent n" using R2(5) [of b] net_okD(4) [OF ok, of b] by auto
  then show "GetState (replica c a) = GetState (replica c b)"
    using op_order.asc_unique [OF ord, of "cv_state (replica c a)" "cv_state (replica c b)"]
      R2(4) [of a] R2(4) [of b] assms(2) by (simp add: GetState_def)
  have "Woot ` net_done n a = Woot ` net_done n b" using R2(5) [of a] R2(5) [of b] assms(2) by (simp add: GetState_def)
  then have "net_done n a = net_done n b" by (simp add: inj_image_eq_iff inj_def)
  from same_done_same_text [OF R2(1) this] show "shows_text (replica c a) = shows_text (replica c b)"
    using R2(3) [of a] R2(3) [of b] by (simp add: shows_text_def Snapshot_def)
qed

section \<open>Properties\<close>

text \<open>A run of two replicas for the examples: one edits and pushes, the other merges.\<close>

definition edited_replica :: woot_cvrdt where
  "edited_replica = \<lparr>cv_site = hello_site ''a'' [(''a'', 1)], cv_state = [Woot hello_op], isStateUpToDate = False\<rparr>"

definition small_run :: replicas where
  "small_run = (put_replica replicas_init ''a'' edited_replica)\<lparr>pushed := {[Woot hello_op]}\<rparr>"

lemma small_run_reachable: "replicas_reachable within_text ''a'' ''b'' small_run"
proof -
  let ?c = "put_replica replicas_init ''a'' edited_replica"
  have new: "replica replicas_init ''a'' = NewWootCvrdtWithView ''a''" by (simp add: replicas_init_def)
  have "replicas_step within_text ''a'' ''b'' replicas_init ?c"
  proof (rule replicas_step.edit)
    show "UpdateState (replica replicas_init ''a'') [Local hello] = Ret (edited_replica, None)"
      unfolding new edited_replica_def by code_simp
    show "within_text (cv_site (replica replicas_init ''a'')) hello" unfolding new by code_simp
  qed simp
  with replicas_new have "replicas_reachable within_text ''a'' ''b'' ?c" by (rule replicas_next)
  then have "replicas_reachable within_text ''a'' ''b'' (?c\<lparr>pushed := insert (GetState (replica ?c ''a'')) (pushed ?c)\<rparr>)"
    by (rule replicas_next) (rule replicas_step.push, simp)
  then show ?thesis
    by (simp add: small_run_def put_replica_def replicas_init_def GetState_def edited_replica_def)
qed

text \<open>C3. Two replicas that edit within their texts (no insertion past the end, counters below the bound), push,
  and merge pushes late, twice or out of order implement the network of sites whose edits stay within the
  texts: each replica's site is the site of a network run, and its log is sorted and holds
  exactly the operations the site has applied, each once.  The three-site counterexample shows that two is
  the limit.\<close>
theorem replicas_refine_network:
  assumes "replicas_reachable within_text a b c"
  shows "\<exists>n. net_reachable within_text n \<and> (\<forall>x. x = a \<or> x = b \<longrightarrow> cv_site (replica c x) = net_site n x \<and>
    set (GetState (replica c x)) = Woot ` net_done n x \<and>
    op_sorted (GetState (replica c x)) \<and> distinct (GetState (replica c x)))"
proof -
  obtain n where R: "refines a b c n" using replicas_refined [OF assms] by blast
  obtain K rank where ok: "net_ok K rank n" using net_reachable_ok [OF refinesD(1) [OF R]] by blast
  note ord = two_sites_facts [OF sent_two_sites [OF ok refinesD(2) [OF R]]]
  have dist: "distinct (cv_state (replica c x))" if "x = a \<or> x = b" for x
    using op_order.asc_distinct [OF ord refinesD(4) [OF R that]] refinesD(5) [OF R that] net_okD(4) [OF ok, of x] by blast
  show ?thesis
    unfolding GetState_def
    using refinesD(3-5) [OF R] dist by (intro exI [of _ n] conjI refinesD(1) [OF R] allI impI) simp_all
qed

lemma small_run_simps [simp]:
  "replica small_run ''a'' = edited_replica" "replica small_run ''b'' = NewWootCvrdtWithView ''b''"
  "pushed small_run = {[Woot hello_op]}"
  by (simp_all add: small_run_def put_replica_def replicas_init_def)

theorem replicas_refine_network_witness:
  "\<exists>n. net_reachable within_text n \<and> net_site n ''a'' = cv_site edited_replica \<and> Woot ` net_done n ''a'' = {Woot hello_op}"
proof -
  have log: "GetState edited_replica = [Woot hello_op]" by (simp add: GetState_def edited_replica_def)
  obtain n where n: "net_reachable within_text n" and x: "\<forall>x. x = ''a'' \<or> x = ''b'' \<longrightarrow> cv_site (replica small_run x) = net_site n x \<and>
    set (GetState (replica small_run x)) = Woot ` net_done n x \<and>
    op_sorted (GetState (replica small_run x)) \<and> distinct (GetState (replica small_run x))"
    using replicas_refine_network [OF small_run_reachable] by blast
  from x [THEN spec, of "''a''"] have "cv_site edited_replica = net_site n ''a''" "{Woot hello_op} = Woot ` net_done n ''a''"
    by (simp_all add: log)
  with n show ?thesis by metis
qed

text \<open>C5. While two replicas edit within their texts (no insertion past the end, counters below the bound), a push
  never fails: for every snapshot of a log that was pushed, however old, \<open>UpdateState\<close> returns without an error,
  a panic or an endless loop, leaves nothing pending, and the log becomes the union of the two.\<close>
theorem push_always_merges:
  assumes "replicas_reachable within_text a b c" "st \<in> pushed c" "x = a \<or> x = b"
  shows "\<exists>w. UpdateState (replica c x) st = Ret (w, None) \<and> pendingOps (cv_site w) = [] \<and>
    set (GetState w) = set (GetState (replica c x)) \<union> set st"
  by (rule push_merges [OF assms])

theorem push_always_merges_witness:
  "\<exists>w. UpdateState (NewWootCvrdtWithView ''b'') [Woot hello_op] = Ret (w, None) \<and> set (GetState w) = {Woot hello_op}"
proof -
  have "GetState (NewWootCvrdtWithView ''b'') = []" by (simp add: GetState_def NewWootCvrdtWithView_def)
  with push_always_merges [OF small_run_reachable, of "[Woot hello_op]" "''b''"] show ?thesis by auto
qed

text \<open>C2. From every state two different replicas reach by edits within their texts (no insertion past the end,
  counters below the bound), pushes and merges, one exchange makes them agree: when each has merged the
  other's log, both hold the same slice and show the same text.\<close>
theorem exchange_converges:
  assumes "replicas_reachable within_text a b c" "a \<noteq> b"
  shows "\<exists>u v. UpdateState (replica c a) (GetState (replica c b)) = Ret (u, None) \<and>
    UpdateState (replica c b) (GetState (replica c a)) = Ret (v, None) \<and>
    GetState u = GetState v \<and> shows_text u = shows_text v"
proof -
  let ?log = "\<lambda>x. GetState (replica c x)"
  let ?c = "c\<lparr>pushed := insert (?log b) (pushed c)\<rparr>" let ?d = "?c\<lparr>pushed := insert (?log a) (pushed ?c)\<rparr>"
  have R: "replicas_reachable within_text a b ?d"
    by (rule replicas_next [OF replicas_next [OF assms(1) replicas_step.push]])
      (use replicas_step.push [of a a b within_text ?c] in simp_all)
  obtain u where u: "UpdateState (replica ?d a) (?log b) = Ret (u, None)"
    "set (GetState u) = set (GetState (replica ?d a)) \<union> set (?log b)"
    using push_merges [OF R, of "?log b" a] by auto
  let ?e = "put_replica ?d a u"
  have Re: "replicas_reachable within_text a b ?e"
    by (rule replicas_next [OF R replicas_step.merge [OF _ _ u(1)]]) simp_all
  obtain v where v: "UpdateState (replica ?e b) (?log a) = Ret (v, None)"
    "set (GetState v) = set (GetState (replica ?e b)) \<union> set (?log a)"
    using push_merges [OF Re, of "?log a" b] by (auto simp: put_replica_def)
  have Rf: "replicas_reachable within_text a b (put_replica ?e b v)"
    by (rule replicas_next [OF Re replicas_step.merge [OF _ _ v(1)]]) (simp_all add: put_replica_def)
  have at: "replica (put_replica ?e b v) a = u" "replica (put_replica ?e b v) b = v" "replica ?e b = replica c b"
    using assms(2) by (simp_all add: put_replica_def)
  have "set (GetState u) = set (GetState v)" using u(2) v(2) at(3) by auto
  with same_log_same_text [OF Rf] have "GetState u = GetState v" "shows_text u = shows_text v"
    unfolding at by blast+
  with u(1) v(1) at(3) show ?thesis by auto
qed

theorem exchange_converges_witness:
  "\<exists>u v. UpdateState edited_replica [] = Ret (u, None) \<and>
    UpdateState (NewWootCvrdtWithView ''b'') [Woot hello_op] = Ret (v, None) \<and> shows_text u = shows_text v"
proof -
  have "GetState (NewWootCvrdtWithView ''b'') = []" "GetState edited_replica = [Woot hello_op]"
    by (simp_all add: GetState_def NewWootCvrdtWithView_def edited_replica_def)
  with exchange_converges [OF small_run_reachable] show ?thesis by auto
qed

section \<open>Edits past the end\<close>

text \<open>The code accepts every edit.  Two replicas that have each made one insertion on their empty text.\<close>

definition typed :: "string \<Rightarrow> int \<Rightarrow> string \<Rightarrow> woot_cvrdt" where
  "typed x pos txt = (case UpdateState (NewWootCvrdtWithView x) [Local (CreateNewLocalOp Insertion pos txt x)] of
     Ret (w, err) \<Rightarrow> w | _ \<Rightarrow> NewWootCvrdtWithView x)"

definition two_typed :: "woot_cvrdt \<Rightarrow> woot_cvrdt \<Rightarrow> replicas" where
  "two_typed u v = put_replica (put_replica replicas_init ''a'' u) ''b'' v"

lemma two_typed_reachable:
  assumes "UpdateState (NewWootCvrdtWithView ''a'') [Local l] = Ret (u, None)"
    "UpdateState (NewWootCvrdtWithView ''b'') [Local l'] = Ret (v, None)"
  shows "replicas_reachable (\<lambda>s l. True) ''a'' ''b'' (two_typed u v)"
proof -
  let ?c = "put_replica replicas_init ''a'' u"
  have new: "replica replicas_init ''a'' = NewWootCvrdtWithView ''a''" "replica ?c ''b'' = NewWootCvrdtWithView ''b''"
    by (simp_all add: replicas_init_def put_replica_def)
  have "replicas_step (\<lambda>s l. True) ''a'' ''b'' replicas_init ?c"
    by (rule replicas_step.edit [of _ _ _ _ _ l u None]) (simp_all add: new assms(1))
  from replicas_next [OF replicas_new this] have "replicas_reachable (\<lambda>s l. True) ''a'' ''b'' ?c" .
  moreover have "replicas_step (\<lambda>s l. True) ''a'' ''b'' ?c (put_replica ?c ''b'' v)"
    by (rule replicas_step.edit [of _ _ _ _ _ l' v None]) (simp_all add: new assms(2))
  ultimately show ?thesis unfolding two_typed_def by (rule replicas_next)
qed

text \<open>The restriction of the properties to edits within the text is needed: two replicas that both insert past
  the end hold the same operations after one exchange and show different texts.\<close>

theorem past_end_diverges:
  "\<exists>c u v. replicas_reachable (\<lambda>s l. True) ''a'' ''b'' c \<and>
     UpdateState (replica c ''a'') (GetState (replica c ''b'')) = Ret (u, None) \<and>
     UpdateState (replica c ''b'') (GetState (replica c ''a'')) = Ret (v, None) \<and>
     set (GetState u) = set (GetState v) \<and> shows_text u = ''xy'' \<and> shows_text v = ''yx''"
proof -
  let ?u = "typed ''a'' 1 ''x''" and ?v = "typed ''b'' 1 ''y''"
  let ?merge = "\<lambda>w st. case UpdateState w st of Ret (w', err) \<Rightarrow> w' | _ \<Rightarrow> w"
  have run: "UpdateState (NewWootCvrdtWithView ''a'') [Local (CreateNewLocalOp Insertion 1 ''x'' ''a'')] = Ret (?u, None)"
    "UpdateState (NewWootCvrdtWithView ''b'') [Local (CreateNewLocalOp Insertion 1 ''y'' ''b'')] = Ret (?v, None)"
    by code_simp+
  have merge: "UpdateState ?u (GetState ?v) = Ret (?merge ?u (GetState ?v), None)"
    "UpdateState ?v (GetState ?u) = Ret (?merge ?v (GetState ?u), None)"
    by code_simp+
  have res: "set (GetState (?merge ?u (GetState ?v))) = set (GetState (?merge ?v (GetState ?u)))"
    "shows_text (?merge ?u (GetState ?v)) = ''xy''" "shows_text (?merge ?v (GetState ?u)) = ''yx''"
    by code_simp+
  have at: "replica (two_typed ?u ?v) ''a'' = ?u" "replica (two_typed ?u ?v) ''b'' = ?v"
    by (simp_all add: two_typed_def put_replica_def)
  show ?thesis
    by (rule exI [of _ "two_typed ?u ?v"], unfold at, intro exI conjI)
      (fact two_typed_reachable [OF run], fact merge(1), fact merge(2), fact res(1), fact res(2), fact res(3))
qed

text \<open>And one insertion past the end is enough for a merge that never returns: a replica that made it cannot
  merge an insertion at the start.\<close>

theorem past_end_hangs:
  "\<exists>c. replicas_reachable (\<lambda>s l. True) ''a'' ''b'' c \<and>
     UpdateState (replica c ''a'') (GetState (replica c ''b'')) = Hang"
proof -
  let ?u = "typed ''a'' 1 ''x''" and ?v = "typed ''b'' 0 ''y''"
  have run: "UpdateState (NewWootCvrdtWithView ''a'') [Local (CreateNewLocalOp Insertion 1 ''x'' ''a'')] = Ret (?u, None)"
    "UpdateState (NewWootCvrdtWithView ''b'') [Local (CreateNewLocalOp Insertion 0 ''y'' ''b'')] = Ret (?v, None)"
    by code_simp+
  define op where "op = \<lparr>woot_Id = \<lparr>lid_SiteId = ''b'', lid_Clock = [(''b'', 1)]\<rparr>, woot_Type = Insertion,
    woot_Character = \<lparr>data_Id = WCharacterId ''b'' 1, data_AlphaValue = ''y'', data_Visible = True,
      data_PreviousId = WCharacterId ''b'' 0, data_NextId = WCharacterId ''b'' MaxValue\<rparr>\<rparr>"
  define s where "s = cv_site ?u"
  let ?w = "characters s" and ?p = "GetNewSpecialStartWChar ''a''" and ?n = "GetNewSpecialEndWChar ''a''"
  have log: "GetState ?v = [Woot op]" unfolding op_def by code_simp
  have new: "\<not> state_contains CompareOperation (cv_state ?u) (Woot op)" unfolding op_def by code_simp
  have sub: "wstr_SubSeq ?w ?p ?n \<noteq> []" "filter (encloses ?w ?p ?n) (wstr_SubSeq ?w ?p ?n) = []"
    unfolding s_def by code_simp+
  note hang = integrate_ins_hang [OF sub]
  have ex: "IsExecutable s op" "woot_Type op \<noteq> Deletion" unfolding s_def op_def by code_simp+
  have get: "wstr_GetById ?w (data_PreviousId (woot_Character op)) = Some 0" "wstr_GetById ?w (data_NextId (woot_Character op)) = Some 2"
    "?w ! 0 = ?p" "?w ! 2 = ?n"
    unfolding s_def op_def by code_simp+
  have "ComputeOp s (Woot op) = Hang"
    using ex get hang by (simp add: ComputeOp_def computeExtOp_def Let_def IntegrateIns_def wchar_Import_def)
  then have "UpdateState ?u (GetState ?v) = Hang"
    using new unfolding log by (simp add: UpdateState_def s_def)
  moreover have "replica (two_typed ?u ?v) ''a'' = ?u" "replica (two_typed ?u ?v) ''b'' = ?v"
    by (simp_all add: two_typed_def put_replica_def)
  ultimately show ?thesis using two_typed_reachable [OF run] by metis
qed

end
