(* ===== verification/Messages.thy ===== *)
theory Messages
  imports Prelude "HOL-Library.Word"
begin

text \<open>
  The messages of \<open>p2p/message.go\<close>, \<open>p2p/encdec.go\<close> and the session fields of \<open>p2p/session.go\<close>: the
  identity of a peer and its textual form, the metadata of a message, and the envelope that carries
  it.  The payload of an envelope is a parameter \<open>'p\<close>; what the source itself says about payloads
  is the empty one.
\<close>

section \<open>Identities\<close>

record UserData =
  Name :: string
  Address :: string

text \<open>Go embeds \<open>UserData\<close> in \<open>PeerHostInfo\<close>; the extension of the record has the same fields.\<close>

record PeerHostInfo =
  Id :: string
  user_data :: UserData

definition CLUSTER_CLIENT_ID :: string where "CLUSTER_CLIENT_ID = ''Client''"
definition CLUSTER_SERVER_ID :: string where "CLUSTER_SERVER_ID = ''Server''"

definition emptyHostInfo :: PeerHostInfo where
  "emptyHostInfo = \<lparr>Id = '''', user_data = \<lparr>Name = '''', Address = ''''\<rparr>\<rparr>"

definition Format :: "PeerHostInfo \<Rightarrow> string" where
  "Format info = Id info @ ''_'' @ Name (user_data info) @ ''_'' @ Address (user_data info)"

definition CreateNewHostInfo :: "string \<Rightarrow> string \<Rightarrow> string \<Rightarrow> PeerHostInfo" where
  "CreateNewHostInfo ident nam address =
     \<lparr>Id = ident, user_data = \<lparr>Name = nam, Address = address\<rparr>\<rparr>"

definition GetInfoFromUserData :: "string \<Rightarrow> UserData \<Rightarrow> PeerHostInfo" where
  "GetInfoFromUserData ident user = CreateNewHostInfo ident (Name user) (Address user)"

definition CreateClientInfo :: "UserData \<Rightarrow> PeerHostInfo" where
  "CreateClientInfo user = GetInfoFromUserData CLUSTER_CLIENT_ID user"

definition CreateServerInfo :: "UserData \<Rightarrow> PeerHostInfo" where
  "CreateServerInfo user = GetInfoFromUserData CLUSTER_SERVER_ID user"

definition GenerateInfoFromUserData :: "string \<Rightarrow> PeerHostInfo \<Rightarrow> PeerHostInfo" where
  "GenerateInfoFromUserData ident info = \<lparr>Id = ident, user_data = user_data info\<rparr>"

text \<open>\<open>strings.Split\<close> with a separator of one byte.\<close>

fun split_on :: "char \<Rightarrow> string \<Rightarrow> string list" where
  "split_on c [] = [[]]"
| "split_on c (x # xs) =
     (if x = c then [] # split_on c xs
      else (case split_on c xs of [] \<Rightarrow> [[x]] | y # ys \<Rightarrow> (x # y) # ys))"

definition ParseHostInfoFromStr :: "string \<Rightarrow> string \<Rightarrow> go_error + PeerHostInfo" where
  "ParseHostInfoFromStr infoStr specialId =
     (let parts = split_on (CHR ''_'') infoStr;
          failure = Inl (Errorf ''peerhostinfo should be in form <id>_<name>_<address>'')
      in if length parts = 3 then Inr (CreateNewHostInfo (parts ! 0) (parts ! 1) (parts ! 2))
         else if length parts = 2 \<and> (specialId = CLUSTER_CLIENT_ID \<or> specialId = CLUSTER_SERVER_ID)
         then (let userData = \<lparr>Name = parts ! 0, Address = parts ! 1\<rparr>
               in if specialId = CLUSTER_CLIENT_ID then Inr (CreateClientInfo userData)
                  else if specialId = CLUSTER_SERVER_ID then Inr (CreateServerInfo userData)
                  else failure)
         else failure)"

section \<open>Messages\<close>

text \<open>\<open>SeqNo\<close> is an \<open>int32\<close>, whose increment wraps around.\<close>

type_synonym SeqNo = "32 word"

record SessionFields =
  TopicName :: string
  SessionId :: string
  SeqNo :: SeqNo

record PeerMetadata =
  IsError :: string
  host_info :: PeerHostInfo
  session_fields :: SessionFields

definition GetPeerMetadata :: "string \<Rightarrow> string \<Rightarrow> PeerHostInfo \<Rightarrow> PeerMetadata" where
  "GetPeerMetadata topic isError info =
     \<lparr>IsError = isError, host_info = info,
      session_fields = \<lparr>TopicName = topic, SessionId = '''', SeqNo = 0\<rparr>\<rparr>"

datatype 'p payload = EmptyPayload | Payload 'p

text \<open>\<open>EmptyPayload.Decode\<close>; the decoder of the other payloads is a parameter.\<close>

fun payload_Decode :: "('p \<Rightarrow> go_error + 'v) \<Rightarrow> 'p payload \<Rightarrow> go_error + 'v" where
  "payload_Decode dec EmptyPayload = Inl (Errorf ''decoded payload is empty'')"
| "payload_Decode dec (Payload x) = dec x"

record 'p PeerMessage =
  Key :: PeerMetadata
  Data :: "'p payload"

definition GetEmptyEnvelope :: "PeerMetadata \<Rightarrow> 'p PeerMessage" where
  "GetEmptyEnvelope metadata = \<lparr>Key = metadata, Data = EmptyPayload\<rparr>"

abbreviation msg_seq :: "'p PeerMessage \<Rightarrow> SeqNo" where
  "msg_seq msg \<equiv> SeqNo (session_fields (Key msg))"
abbreviation msg_session :: "'p PeerMessage \<Rightarrow> string" where
  "msg_session msg \<equiv> SessionId (session_fields (Key msg))"
abbreviation msg_topic :: "'p PeerMessage \<Rightarrow> string" where
  "msg_topic msg \<equiv> TopicName (session_fields (Key msg))"

section \<open>Splitting\<close>

lemma split_on_not_Nil [simp]: "split_on c s \<noteq> []"
  by (induction s) (auto split: list.splits)

lemma split_on_length: "length (split_on c s) = Suc (count_list s c)"
  by (induction s) (auto split: list.splits)

lemma split_on_plain: "c \<notin> set s \<Longrightarrow> split_on c s = [s]"
  by (induction s) auto

lemma split_on_append: "c \<notin> set s \<Longrightarrow> split_on c (s @ c # t) = s # split_on c t"
  by (induction s) auto

lemma count_list_append: "count_list (xs @ ys) c = count_list xs c + count_list ys c"
  by (induction xs) auto

lemma count_list_pos: "c \<in> set xs \<Longrightarrow> 0 < count_list xs c"
  by (induction xs) auto

section \<open>Properties\<close>

text \<open>Parsing what \<open>Format\<close> prints gives the identity back when none of its three fields has an
  underscore, and is an error in every other case: no identity is ever read back as another one,
  whatever role it is parsed for.\<close>
theorem Parse_Format:
  "ParseHostInfoFromStr (Format info) specialId =
    (if CHR ''_'' \<in> set (Id info) \<union> set (Name (user_data info)) \<union> set (Address (user_data info))
     then Inl (Errorf ''peerhostinfo should be in form <id>_<name>_<address>'')
     else Inr info)"
proof (cases "CHR ''_'' \<in> set (Id info) \<union> set (Name (user_data info)) \<union> set (Address (user_data info))")
  case True
  then have "length (split_on (CHR ''_'') (Format info)) > 3"
    by (auto simp: split_on_length Format_def count_list_append dest!: count_list_pos)
  with True show ?thesis by (simp add: ParseHostInfoFromStr_def)
next
  case False
  then have "split_on (CHR ''_'') (Format info) =
      [Id info, Name (user_data info), Address (user_data info)]"
    by (simp add: Format_def split_on_append split_on_plain)
  with False show ?thesis
    by (simp add: ParseHostInfoFromStr_def CreateNewHostInfo_def)
qed

end
