(* ===== verification/Handshake.thy ===== *)
theory Handshake
  imports Messages
begin

text \<open>
  The exchange of identities that opens a connection, \<open>p2p/hostexhanger.go\<close> and \<open>p2p/handshake.go\<close>.
  A side of the handshake is a program that stops at each send and at each receive, so that two of
  them can be run against each other.  The codec is a parameter; so is the type \<open>'b\<close> of encoded
  messages.
\<close>

section \<open>Programs\<close>

text \<open>A receive answers with a message, or with what the error channel holds, which is nil when that
  channel was closed.\<close>

datatype ('b, 'r) prog =
    Return 'r
  | Send_then 'b "go_error option \<Rightarrow> ('b, 'r) prog"
  | Recv_then "go_error option + 'b \<Rightarrow> ('b, 'r) prog"

primrec prog_bind :: "('b, 'r) prog \<Rightarrow> ('r \<Rightarrow> ('b, 's) prog) \<Rightarrow> ('b, 's) prog" where
  "prog_bind (Return x) f = f x"
| "prog_bind (Send_then b k) f = Send_then b (\<lambda>e. prog_bind (k e) f)"
| "prog_bind (Recv_then k) f = Recv_then (\<lambda>a. prog_bind (k a) f)"

section \<open>The code\<close>

datatype HandshakeRole = Initiator | Receiver

datatype HostExhangerStep = StepInit | StepReceiverExhange | StepSenderExhange | StepACK

fun step_text :: "HostExhangerStep \<Rightarrow> string" where
  "step_text StepInit = ''init''"
| "step_text StepReceiverExhange = ''receiver exhange''"
| "step_text StepSenderExhange = ''sender exhange''"
| "step_text StepACK = ''ack''"

record HandshakeError =
  Step :: string
  Target :: string
  Err :: go_error

definition HandshakeError_Error :: "HandshakeError \<Rightarrow> string" where
  "HandshakeError_Error e = ''handshake with '' @ Target e @ '' address failed at step '' @ Step e @
     '': '' @ error_msg (Err e)"

definition HandshakeError_Unwrap :: "HandshakeError \<Rightarrow> go_error" where
  "HandshakeError_Unwrap e = Err e"

definition NewHandshakeError ::
  "HostExhangerStep \<Rightarrow> string \<Rightarrow> go_error option \<Rightarrow> HandshakeError option" where
  "NewHandshakeError step address err =
     map_option (\<lambda>e. \<lparr>Step = step_text step, Target = address, Err = e\<rparr>) err"

definition TCP_HOST_EXCHANGER :: string where
  "TCP_HOST_EXCHANGER = ''TCP_HOST_EXCHANGER_TOPIC''"

definition checkMsgValidity :: "SeqNo \<Rightarrow> SeqNo \<Rightarrow> string \<Rightarrow> go_error option" where
  "checkMsgValidity expectedSeqNo providedSeqNo providedTopicName =
     (if providedTopicName \<noteq> TCP_HOST_EXCHANGER
      then Some (Errorf (''handshake msg should be send over '' @ TCP_HOST_EXCHANGER @
        '' topic not '' @ providedTopicName))
      else if providedSeqNo \<noteq> expectedSeqNo
      then Some (Errorf (''handshake msg out of sequence (needed '' @ dec_int (sint expectedSeqNo) @
        '' not '' @ dec_int (sint providedSeqNo) @ '')''))
      else None)"

text \<open>A codec is its two operations.\<close>

record ('p, 'b) codec =
  Encode :: "'p PeerMessage \<Rightarrow> go_error + 'b"
  Decode :: "'b \<Rightarrow> go_error + 'p PeerMessage"

record ('p, 'b) TCPHostExchanger =
  encDec :: "('p, 'b) codec"
  localInfo :: PeerHostInfo

definition GetNewHostExhanger ::
  "PeerHostInfo \<Rightarrow> ('p, 'b) codec \<Rightarrow> ('p, 'b) TCPHostExchanger" where
  "GetNewHostExhanger info ed = \<lparr>encDec = ed, localInfo = info\<rparr>"

definition waitForTargetPeerName ::
  "('p, 'b) TCPHostExchanger \<Rightarrow> SeqNo \<Rightarrow> ('b, go_error + PeerHostInfo) prog" where
  "waitForTargetPeerName ex expectedSeqNo =
     Recv_then (\<lambda>answer. case answer of
         Inl (Some err) \<Rightarrow> Return (Inl err)
       | Inl None \<Rightarrow> Return (Inr emptyHostInfo)
       | Inr byMsg \<Rightarrow> (case Decode (encDec ex) byMsg of
           Inl err \<Rightarrow> Return (Inl err)
         | Inr targetPeerName \<Rightarrow>
             (case checkMsgValidity expectedSeqNo (msg_seq targetPeerName) TCP_HOST_EXCHANGER of
                Some err \<Rightarrow> Return (Inl err)
              | None \<Rightarrow> Return (Inr (host_info (Key targetPeerName))))))"

text \<open>The message that carries an identity.\<close>

definition handshake_msg :: "PeerHostInfo \<Rightarrow> SeqNo \<Rightarrow> 'p PeerMessage" where
  "handshake_msg info sendingSeqNo =
     (let metadata = GetPeerMetadata TCP_HOST_EXCHANGER '''' info
      in GetEmptyEnvelope (metadata\<lparr>session_fields := (session_fields metadata)\<lparr>SeqNo := sendingSeqNo\<rparr>\<rparr>))"

definition sendPeerName ::
  "('p, 'b) TCPHostExchanger \<Rightarrow> SeqNo \<Rightarrow> ('b, go_error option) prog" where
  "sendPeerName ex sendingSeqNo =
     (case Encode (encDec ex) (handshake_msg (localInfo ex) sendingSeqNo) of
        Inl err \<Rightarrow> Return (Some err)
      | Inr byPeer \<Rightarrow> Send_then byPeer (\<lambda>err. Return err))"

text \<open>Both sides return the identity that \<open>SetPeerInfo\<close> stores in the peer.\<close>

definition initiateHandshake ::
  "('p, 'b) TCPHostExchanger \<Rightarrow> string \<Rightarrow> ('b, HandshakeError + PeerHostInfo) prog" where
  "initiateHandshake ex remoteAddress =
     prog_bind (waitForTargetPeerName ex 0) (\<lambda>r. case r of
         Inl err \<Rightarrow> Return (Inl (the (NewHandshakeError StepReceiverExhange remoteAddress (Some err))))
       | Inr target \<Rightarrow> prog_bind (sendPeerName ex 1) (\<lambda>e. case e of
           Some err \<Rightarrow> Return (Inl (the (NewHandshakeError StepSenderExhange
               (Address (user_data target)) (Some err))))
         | None \<Rightarrow> prog_bind (waitForTargetPeerName ex 2) (\<lambda>a. case a of
             Inl err \<Rightarrow> Return (Inl (the (NewHandshakeError StepACK
                 (Address (user_data target)) (Some err))))
           | Inr _ \<Rightarrow> Return (Inr target))))"

definition receiveHandshake ::
  "('p, 'b) TCPHostExchanger \<Rightarrow> string \<Rightarrow> ('b, HandshakeError + PeerHostInfo) prog" where
  "receiveHandshake ex remoteAddress =
     prog_bind (sendPeerName ex 0) (\<lambda>e. case e of
         Some err \<Rightarrow> Return (Inl (the (NewHandshakeError StepReceiverExhange remoteAddress (Some err))))
       | None \<Rightarrow> prog_bind (waitForTargetPeerName ex 1) (\<lambda>r. case r of
           Inl err \<Rightarrow> Return (Inl (the (NewHandshakeError StepSenderExhange remoteAddress (Some err))))
         | Inr target \<Rightarrow> prog_bind (sendPeerName ex 2) (\<lambda>a. case a of
             Some err \<Rightarrow> Return (Inl (the (NewHandshakeError StepACK
                 (Address (user_data target)) (Some err))))
           | None \<Rightarrow> Return (Inr target))))"

text \<open>\<open>Shake\<close>; a connection that is nil makes \<open>NewTCPPeer\<close> fail, and then the source reads the
  address of the peer that was not made.\<close>

definition Shake :: "('p, 'b) TCPHostExchanger \<Rightarrow> bool \<Rightarrow> HandshakeRole \<Rightarrow> string \<Rightarrow>
    ('b, HandshakeError + PeerHostInfo) prog go" where
  "Shake ex conn_given role remoteAddress =
     (if \<not> conn_given then Panic
      else if role = Initiator then Ret (initiateHandshake ex remoteAddress)
      else Ret (receiveHandshake ex remoteAddress))"

text \<open>\<open>NopHandshaker.Shake\<close> with the error of its context.\<close>

definition Nop_Shake :: "bool \<Rightarrow> go_error option \<Rightarrow> HandshakeError + PeerHostInfo" where
  "Nop_Shake conn_given ctxErr =
     (if \<not> conn_given then Inl (the (NewHandshakeError StepInit ''unknown''
         (Some (Errorf ''provided connection is not valid''))))
      else case ctxErr of
          Some err \<Rightarrow> Inl (the (NewHandshakeError StepInit ''unknown'' (Some err)))
        | None \<Rightarrow> Inr emptyHostInfo)"

section \<open>Two sides\<close>

text \<open>A side: its program, the messages on their way to it, the channel of its current receive
  session if it ever opened one, and whether it waits there.  A receive first opens a new session,
  which leaves the messages of the previous one behind; the read loop starts with the first session.
  A wait may end with the context's error instead.\<close>

record 'b side =
  prog_at :: "('b, HandshakeError + PeerHostInfo) prog"
  wire :: "'b list"
  session :: "'b list option"
  waiting :: bool

definition begin_side :: "('b, HandshakeError + PeerHostInfo) prog \<Rightarrow> 'b side" where
  "begin_side p = \<lparr>prog_at = p, wire = [], session = None, waiting = False\<rparr>"

inductive side_step :: "'b side \<times> 'b side \<Rightarrow> 'b side \<times> 'b side \<Rightarrow> bool" where
  send: "prog_at p = Send_then b k \<Longrightarrow>
     side_step (p, q) (p\<lparr>prog_at := k None\<rparr>, q\<lparr>wire := wire q @ [b]\<rparr>)"
| open_session: "prog_at p = Recv_then k \<Longrightarrow> \<not> waiting p \<Longrightarrow>
     side_step (p, q) (p\<lparr>session := Some [], waiting := True\<rparr>, q)"
| arrive: "session p = Some ms \<Longrightarrow> wire p = b # bs \<Longrightarrow>
     side_step (p, q) (p\<lparr>session := Some (ms @ [b]), wire := bs\<rparr>, q)"
| take_msg: "prog_at p = Recv_then k \<Longrightarrow> waiting p \<Longrightarrow> session p = Some (b # ms) \<Longrightarrow>
     side_step (p, q) (p\<lparr>prog_at := k (Inr b), session := Some ms, waiting := False\<rparr>, q)"
| expire: "prog_at p = Recv_then k \<Longrightarrow> waiting p \<Longrightarrow>
     side_step (p, q) (p\<lparr>prog_at := k (Inl (Some (Errorf ''context deadline exceeded''))),
       waiting := False\<rparr>, q)"

text \<open>The initiator comes first in the pair.\<close>

inductive shake_reachable :: "'b side \<times> 'b side \<Rightarrow> 'b side \<times> 'b side \<Rightarrow> bool" where
  shake_start: "shake_reachable s s"
| shake_first: "shake_reachable s (p, q) \<Longrightarrow> side_step (p, q) (p', q') \<Longrightarrow> shake_reachable s (p', q')"
| shake_second: "shake_reachable s (p, q) \<Longrightarrow> side_step (q, p) (q', p') \<Longrightarrow> shake_reachable s (p', q')"

definition shake_pair :: "('p, 'b) codec \<Rightarrow> PeerHostInfo \<Rightarrow> PeerHostInfo \<Rightarrow> 'b side \<times> 'b side" where
  "shake_pair ed infoI infoR =
     (begin_side (initiateHandshake (GetNewHostExhanger infoI ed) (Address (user_data infoR))),
      begin_side (receiveHandshake (GetNewHostExhanger infoR ed) (Address (user_data infoI))))"

text \<open>What is asked of the codec: the metadata of the handshake's messages survives.\<close>

definition keeps_keys :: "('p, 'b) codec \<Rightarrow> PeerHostInfo \<Rightarrow> bool" where
  "keeps_keys ed info \<longleftrightarrow> list_all (\<lambda>n. case Encode ed (handshake_msg info n) of
       Inl _ \<Rightarrow> False
     | Inr b \<Rightarrow> (case Decode ed b of
         Inl _ \<Rightarrow> False | Inr m \<Rightarrow> Key m = Key (handshake_msg info n :: 'p PeerMessage))) [0, 1, 2]"


section \<open>The stages of the two programs\<close>

definition init_ack :: "('p, 'b) TCPHostExchanger \<Rightarrow> PeerHostInfo \<Rightarrow> ('b, HandshakeError + PeerHostInfo) prog" where
  "init_ack ex target = prog_bind (waitForTargetPeerName ex 2) (\<lambda>a. case a of
       Inl err \<Rightarrow> Return (Inl (the (NewHandshakeError StepACK (Address (user_data target)) (Some err))))
     | Inr _ \<Rightarrow> Return (Inr target))"

definition init_send :: "('p, 'b) TCPHostExchanger \<Rightarrow> PeerHostInfo \<Rightarrow> ('b, HandshakeError + PeerHostInfo) prog" where
  "init_send ex target = prog_bind (sendPeerName ex 1) (\<lambda>e. case e of
       Some err \<Rightarrow> Return (Inl (the (NewHandshakeError StepSenderExhange
         (Address (user_data target)) (Some err))))
     | None \<Rightarrow> init_ack ex target)"

definition recv_ack :: "('p, 'b) TCPHostExchanger \<Rightarrow> PeerHostInfo \<Rightarrow> ('b, HandshakeError + PeerHostInfo) prog" where
  "recv_ack ex target = prog_bind (sendPeerName ex 2) (\<lambda>a. case a of
       Some err \<Rightarrow> Return (Inl (the (NewHandshakeError StepACK (Address (user_data target)) (Some err))))
     | None \<Rightarrow> Return (Inr target))"

definition recv_wait :: "('p, 'b) TCPHostExchanger \<Rightarrow> string \<Rightarrow> ('b, HandshakeError + PeerHostInfo) prog" where
  "recv_wait ex remote = prog_bind (waitForTargetPeerName ex 1) (\<lambda>r. case r of
       Inl err \<Rightarrow> Return (Inl (the (NewHandshakeError StepSenderExhange remote (Some err))))
     | Inr target \<Rightarrow> recv_ack ex target)"

lemma initiateHandshake_stages:
  "initiateHandshake ex remote = prog_bind (waitForTargetPeerName ex 0) (\<lambda>r. case r of
       Inl err \<Rightarrow> Return (Inl (the (NewHandshakeError StepReceiverExhange remote (Some err))))
     | Inr target \<Rightarrow> init_send ex target)"
  by (simp only: initiateHandshake_def init_send_def init_ack_def)

lemma receiveHandshake_stages:
  "receiveHandshake ex remote = prog_bind (sendPeerName ex 0) (\<lambda>e. case e of
       Some err \<Rightarrow> Return (Inl (the (NewHandshakeError StepReceiverExhange remote (Some err))))
     | None \<Rightarrow> recv_wait ex remote)"
  by (simp only: receiveHandshake_def recv_wait_def recv_ack_def)

definition carries :: "('p, 'b) codec \<Rightarrow> PeerHostInfo \<Rightarrow> SeqNo \<Rightarrow> 'b \<Rightarrow> bool" where
  "carries ed info n b \<longleftrightarrow> Encode ed (handshake_msg info n) = Inr b \<and>
     (\<exists>m. Decode ed b = Inr m \<and> host_info (Key m) = info \<and> msg_seq m = n)"

lemma handshake_msg_Key [simp]:
  "host_info (Key (handshake_msg info n)) = info" "msg_seq (handshake_msg info n) = n"
  by (simp_all add: handshake_msg_def GetPeerMetadata_def GetEmptyEnvelope_def Let_def)

lemma keeps_keys_carries:
  assumes "keeps_keys ed info" "n = 0 \<or> n = 1 \<or> n = 2"
  obtains b where "carries ed info n b"
  using assms by (auto simp: keeps_keys_def carries_def split: sum.splits)


lemma checkMsgValidity_None [simp]: "checkMsgValidity n n TCP_HOST_EXCHANGER = None"
  by (simp add: checkMsgValidity_def)

lemma checkMsgValidity_Some: "n \<noteq> n' \<Longrightarrow> \<exists>e. checkMsgValidity n n' TCP_HOST_EXCHANGER = Some e"
  by (simp add: checkMsgValidity_def)

text \<open>How each stage answers a message, an expired wait and a send.\<close>

lemma init_wait_step:
  assumes "initiateHandshake (GetNewHostExhanger me ed) remote = Recv_then k"
  shows "carries ed info 0 b \<Longrightarrow> k (Inr b) = init_send (GetNewHostExhanger me ed) info"
    "carries ed info 2 b \<Longrightarrow> \<exists>e. k (Inr b) = Return (Inl e)" "\<exists>e. k (Inl (Some err)) = Return (Inl e)"
  using assms checkMsgValidity_Some [of 0 2]
  by (auto simp: initiateHandshake_stages waitForTargetPeerName_def GetNewHostExhanger_def carries_def)

lemma init_ack_step:
  assumes "init_ack (GetNewHostExhanger me ed) target = Recv_then k"
  shows "carries ed info 2 b \<Longrightarrow> k (Inr b) = Return (Inr target)"
    "carries ed info 0 b \<Longrightarrow> \<exists>e. k (Inr b) = Return (Inl e)" "\<exists>e. k (Inl (Some err)) = Return (Inl e)"
  using assms checkMsgValidity_Some [of 2 0]
  by (auto simp: init_ack_def waitForTargetPeerName_def GetNewHostExhanger_def carries_def)

lemma recv_wait_step:
  assumes "recv_wait (GetNewHostExhanger me ed) remote = Recv_then k"
  shows "carries ed info 1 b \<Longrightarrow> k (Inr b) = recv_ack (GetNewHostExhanger me ed) info"
    "\<exists>e. k (Inl (Some err)) = Return (Inl e)"
  using assms
  by (auto simp: recv_wait_def waitForTargetPeerName_def GetNewHostExhanger_def carries_def)

lemma send_steps:
  assumes "carries ed me n b"
  shows "n = 1 \<Longrightarrow> init_send (GetNewHostExhanger me ed) target =
      Send_then b (\<lambda>e. case e of Some err \<Rightarrow> Return (Inl (the (NewHandshakeError StepSenderExhange
         (Address (user_data target)) (Some err)))) | None \<Rightarrow> init_ack (GetNewHostExhanger me ed) target)"
    "n = 0 \<Longrightarrow> receiveHandshake (GetNewHostExhanger me ed) remote =
      Send_then b (\<lambda>e. case e of Some err \<Rightarrow> Return (Inl (the (NewHandshakeError StepReceiverExhange
         remote (Some err)))) | None \<Rightarrow> recv_wait (GetNewHostExhanger me ed) remote)"
    "n = 2 \<Longrightarrow> recv_ack (GetNewHostExhanger me ed) target =
      Send_then b (\<lambda>e. case e of Some err \<Rightarrow> Return (Inl (the (NewHandshakeError StepACK
         (Address (user_data target)) (Some err)))) | None \<Rightarrow> Return (Inr target))"
  using assms
  by (auto simp: init_send_def receiveHandshake_stages recv_ack_def sendPeerName_def
      GetNewHostExhanger_def carries_def)

lemma wait_shape [simp]:
  "initiateHandshake ex remote \<noteq> Send_then b f" "init_ack ex target \<noteq> Send_then b f"
  "recv_wait ex remote \<noteq> Send_then b f"
  "initiateHandshake ex remote \<noteq> Return v" "init_ack ex target \<noteq> Return v"
  "recv_wait ex remote \<noteq> Return v"
  by (simp_all add: initiateHandshake_def init_ack_def recv_wait_def waitForTargetPeerName_def)

lemmas wait_shape_sym [simp] = wait_shape [symmetric]


section \<open>What holds at every moment\<close>

definition in_flight :: "'b side \<Rightarrow> 'b set" where
  "in_flight s = set (wire s) \<union> (case session s of None \<Rightarrow> {} | Some ms \<Rightarrow> set ms)"

definition failed :: "('b, HandshakeError + PeerHostInfo) prog \<Rightarrow> bool" where
  "failed p \<longleftrightarrow> (\<exists>e. p = Return (Inl e))"

lemma failed_simps [simp]:
  "failed (Return r) \<longleftrightarrow> (\<exists>e. r = Inl e)" "\<not> failed (Send_then b k)" "\<not> failed (Recv_then j)"
  by (auto simp: failed_def)

lemma expire_fails:
  "Recv_then k = initiateHandshake (GetNewHostExhanger me ed) remote \<Longrightarrow> failed (k (Inl (Some err)))"
  "Recv_then k = init_ack (GetNewHostExhanger me ed) target \<Longrightarrow> failed (k (Inl (Some err)))"
  "Recv_then k = recv_wait (GetNewHostExhanger me ed) remote \<Longrightarrow> failed (k (Inl (Some err)))"
  using init_wait_step(3) [of me ed remote k err] init_ack_step(3) [of me ed target k err]
    recv_wait_step(2) [of me ed remote k err] by (auto simp: failed_def)

definition first_ok :: "('p, 'b) codec \<Rightarrow> PeerHostInfo \<Rightarrow> PeerHostInfo \<Rightarrow> 'b side \<Rightarrow> 'b side \<Rightarrow> bool" where
  "first_ok ed infoI infoR p q \<longleftrightarrow>
     prog_at p = initiateHandshake (GetNewHostExhanger infoI ed) (Address (user_data infoR)) \<or>
     prog_at p = init_send (GetNewHostExhanger infoI ed) infoR \<or>
     prog_at p = init_ack (GetNewHostExhanger infoI ed) infoR \<or>
     prog_at p = Return (Inr infoR) \<and> prog_at q = Return (Inr infoI) \<or> failed (prog_at p)"

definition second_ok :: "('p, 'b) codec \<Rightarrow> PeerHostInfo \<Rightarrow> PeerHostInfo \<Rightarrow> 'b side \<Rightarrow> bool" where
  "second_ok ed infoI infoR q \<longleftrightarrow>
     prog_at q = receiveHandshake (GetNewHostExhanger infoR ed) (Address (user_data infoI)) \<or>
     prog_at q = recv_wait (GetNewHostExhanger infoR ed) (Address (user_data infoI)) \<or>
     prog_at q = recv_ack (GetNewHostExhanger infoR ed) infoI \<or>
     prog_at q = Return (Inr infoI) \<or> failed (prog_at q)"

definition shake_inv :: "('p, 'b) codec \<Rightarrow> PeerHostInfo \<Rightarrow> PeerHostInfo \<Rightarrow> 'b side \<times> 'b side \<Rightarrow> bool" where
  "shake_inv ed infoI infoR s \<longleftrightarrow> (case s of (p, q) \<Rightarrow>
     first_ok ed infoI infoR p q \<and> second_ok ed infoI infoR q \<and>
     (\<forall>b\<in>in_flight p. carries ed infoR 0 b \<or> carries ed infoR 2 b \<and> prog_at q = Return (Inr infoI)) \<and>
     (\<forall>b\<in>in_flight q. carries ed infoI 1 b))"

lemma shake_inv_first:
  assumes "keeps_keys ed infoI" "shake_inv ed infoI infoR (p, q)" "side_step (p, q) (p', q')"
  shows "shake_inv ed infoI infoR (p', q')"
  using assms(3)
proof cases
  case (send b k)
  obtain b' where b': "carries ed infoI 1 b'" by (rule keeps_keys_carries [OF assms(1)]) auto
  have "prog_at p = init_send (GetNewHostExhanger infoI ed) infoR"
    using assms(2) send(3) by (auto simp: shake_inv_def first_ok_def failed_def)
  with send(3) send_steps(1) [OF b' refl, of infoR] have "b = b'"
    "k None = init_ack (GetNewHostExhanger infoI ed) infoR" by auto
  with b' send assms(2) show ?thesis
    by (auto simp: shake_inv_def first_ok_def second_ok_def in_flight_def)
next
  case (take_msg k b ms)
  then have c: "carries ed infoR 0 b \<or> carries ed infoR 2 b \<and> prog_at q = Return (Inr infoI)"
    using assms(2) by (auto simp: shake_inv_def in_flight_def)
  consider (hello) "prog_at p = initiateHandshake (GetNewHostExhanger infoI ed) (Address (user_data infoR))"
    | (named) "prog_at p = init_send (GetNewHostExhanger infoI ed) infoR"
    | (ack) "prog_at p = init_ack (GetNewHostExhanger infoI ed) infoR"
    using assms(2) take_msg(3) by (auto simp: shake_inv_def first_ok_def failed_def)
  then have "first_ok ed infoI infoR p' q'"
  proof cases
    case hello
    with take_msg(3) have k: "initiateHandshake (GetNewHostExhanger infoI ed) (Address (user_data infoR))
        = Recv_then k" by simp
    show ?thesis using c init_wait_step(1,2) [OF k] take_msg(1,2)
      by (auto simp: first_ok_def failed_def)
  next
    case named
    obtain b' where "carries ed infoI 1 b'" by (rule keeps_keys_carries [OF assms(1)]) auto
    with named take_msg(3) show ?thesis by (auto simp: send_steps(1))
  next
    case ack
    with take_msg(3) have k: "init_ack (GetNewHostExhanger infoI ed) infoR = Recv_then k" by simp
    show ?thesis using c init_ack_step(1,2) [OF k] take_msg(1,2)
      by (auto simp: first_ok_def failed_def)
  qed
  with take_msg assms(2) show ?thesis by (auto simp: shake_inv_def in_flight_def)
next
  case (expire k)
  obtain b' where "carries ed infoI 1 b'" by (rule keeps_keys_carries [OF assms(1)]) auto
  then have "failed (k (Inl (Some (Errorf ''context deadline exceeded''))))"
    using assms(2) expire(3)
    by (auto simp: shake_inv_def first_ok_def send_steps(1) dest: expire_fails)
  with expire assms(2) show ?thesis by (auto simp: shake_inv_def first_ok_def in_flight_def)
qed (use assms(2) in \<open>auto simp: shake_inv_def first_ok_def second_ok_def in_flight_def split: option.splits\<close>)


lemma shake_inv_second:
  assumes "keeps_keys ed infoR" "shake_inv ed infoI infoR (p, q)" "side_step (q, p) (q', p')"
  shows "shake_inv ed infoI infoR (p', q')"
proof -
  obtain b0 where b0: "carries ed infoR 0 b0" by (rule keeps_keys_carries [OF assms(1), of 0]) auto
  obtain b2 where b2: "carries ed infoR 2 b2" by (rule keeps_keys_carries [OF assms(1), of 2]) auto
  show ?thesis
    using assms(3)
  proof cases
    case (send b k)
    then consider
        (hello) "prog_at q = receiveHandshake (GetNewHostExhanger infoR ed) (Address (user_data infoI))"
      | (ack) "prog_at q = recv_ack (GetNewHostExhanger infoR ed) infoI"
      using assms(2) by (auto simp: shake_inv_def second_ok_def failed_def)
    then have "(carries ed infoR 0 b \<and>
          k None = recv_wait (GetNewHostExhanger infoR ed) (Address (user_data infoI))) \<or>
        (carries ed infoR 2 b \<and> k None = Return (Inr infoI))"
    proof cases
      case hello
      then show ?thesis using send(3) send_steps(2) [OF b0 refl] b0 by auto
    next
      case ack
      then show ?thesis using send(3) send_steps(3) [OF b2 refl] b2 by auto
    qed
    with send assms(2) show ?thesis
      by (auto simp: shake_inv_def first_ok_def second_ok_def in_flight_def)
  next
    case (take_msg k b ms)
    then have c: "carries ed infoI 1 b"
      using assms(2) by (auto simp: shake_inv_def in_flight_def)
    have "prog_at q = recv_wait (GetNewHostExhanger infoR ed) (Address (user_data infoI))"
      using assms(2) take_msg(3)
      by (auto simp: shake_inv_def second_ok_def failed_def send_steps(2) [OF b0]
          send_steps(3) [OF b2])
    with take_msg(3) have k: "recv_wait (GetNewHostExhanger infoR ed) (Address (user_data infoI)) =
        Recv_then k" by simp
    then have "k (Inr b) = recv_ack (GetNewHostExhanger infoR ed) infoI"
      using recv_wait_step(1) [OF k c] by simp
    with take_msg assms(2) show ?thesis
      by (auto simp: shake_inv_def first_ok_def second_ok_def in_flight_def)
  next
    case (expire k)
    then have "failed (k (Inl (Some (Errorf ''context deadline exceeded''))))"
      using assms(2)
      by (auto simp: shake_inv_def second_ok_def send_steps(2) [OF b0]
          send_steps(3) [OF b2] dest: expire_fails)
    with expire assms(2) show ?thesis
      by (auto simp: shake_inv_def first_ok_def second_ok_def in_flight_def)
  qed (use assms(2) in \<open>auto simp: shake_inv_def first_ok_def second_ok_def in_flight_def
      split: option.splits\<close>)
qed

lemma shake_reachable_inv:
  assumes "shake_reachable s t" "s = shake_pair ed infoI infoR" "keeps_keys ed infoI" "keeps_keys ed infoR"
  shows "shake_inv ed infoI infoR t"
  using assms
proof (induction rule: shake_reachable.induct)
  case (shake_start s)
  then show ?case
    by (simp add: shake_pair_def shake_inv_def first_ok_def second_ok_def in_flight_def begin_side_def)
qed (blast intro: shake_inv_first shake_inv_second)+


section \<open>Properties\<close>

text \<open>C25. Whatever messages a side misses and whatever waits expire: a side that completes the
  handshake knows the other side's true identity, and when the initiator has completed it, so has the
  receiver.  (The codec only has to keep the metadata of the six messages.)\<close>
theorem handshake_agrees:
  assumes "keeps_keys ed infoI" "keeps_keys ed infoR" "shake_reachable (shake_pair ed infoI infoR) (p, q)"
  shows "(prog_at p = Return (Inr x) \<longrightarrow> x = infoR \<and> prog_at q = Return (Inr infoI)) \<and>
    (prog_at q = Return (Inr y) \<longrightarrow> y = infoI)"
proof -
  obtain b1 where b1: "carries ed infoI 1 b1" by (rule keeps_keys_carries [OF assms(1), of 1]) auto
  obtain b0 where b0: "carries ed infoR 0 b0" by (rule keeps_keys_carries [OF assms(2), of 0]) auto
  obtain b2 where b2: "carries ed infoR 2 b2" by (rule keeps_keys_carries [OF assms(2), of 2]) auto
  have "shake_inv ed infoI infoR (p, q)"
    by (rule shake_reachable_inv [OF assms(3) refl assms(1,2)])
  then show ?thesis
    by (auto simp: shake_inv_def first_ok_def second_ok_def send_steps(1) [OF b1]
        send_steps(2) [OF b0] send_steps(3) [OF b2])
qed

text \<open>The two runs: up to the receiver's last message, and then the initiator opens its session in
  time or too late.\<close>

lemma shake_halfway:
  fixes ed :: "('p, 'b) codec"
  assumes "keeps_keys ed infoI" "keeps_keys ed infoR"
  obtains b and q :: "'b side" where "carries ed infoR 2 b"
    "shake_reachable (shake_pair ed infoI infoR) (\<lparr>prog_at = init_ack (GetNewHostExhanger infoI ed) infoR,
      wire = [b], session = Some [], waiting = False\<rparr>, q)"
    "prog_at q = Return (Inr infoI)"
proof -
  obtain b1 where b1: "carries ed infoI 1 b1" by (rule keeps_keys_carries [OF assms(1), of 1]) auto
  obtain b0 where b0: "carries ed infoR 0 b0" by (rule keeps_keys_carries [OF assms(2), of 0]) auto
  obtain b2 where b2: "carries ed infoR 2 b2" by (rule keeps_keys_carries [OF assms(2), of 2]) auto
  let ?I = "GetNewHostExhanger infoI ed" and ?R = "GetNewHostExhanger infoR ed"
  let ?aI = "Address (user_data infoR)" and ?aR = "Address (user_data infoI)"
  let ?s = "shake_pair ed infoI infoR"
  obtain kI where kI: "initiateHandshake ?I ?aI = Recv_then kI"
    by (simp add: initiateHandshake_stages waitForTargetPeerName_def)
  obtain kR where kR: "recv_wait ?R ?aR = Recv_then kR"
    by (simp add: recv_wait_def waitForTargetPeerName_def)
  note steps = init_wait_step(1) [OF kI b0] recv_wait_step(1) [OF kR b1]
  have "shake_reachable ?s (begin_side (initiateHandshake ?I ?aI), begin_side (receiveHandshake ?R ?aR))"
    using shake_start [of ?s] by (simp add: shake_pair_def)
  from shake_second [OF this side_step.send, of b0] b0
  have "shake_reachable ?s ((begin_side (initiateHandshake ?I ?aI))\<lparr>wire := [b0]\<rparr>,
      begin_side (recv_wait ?R ?aR))"
    by (simp add: begin_side_def send_steps(2) [OF b0])
  from shake_first [OF this side_step.open_session, of kI]
  have "shake_reachable ?s (\<lparr>prog_at = initiateHandshake ?I ?aI, wire = [b0], session = Some [],
      waiting = True\<rparr>, begin_side (recv_wait ?R ?aR))"
    by (simp add: begin_side_def kI)
  from shake_first [OF this side_step.arrive]
  have "shake_reachable ?s (\<lparr>prog_at = initiateHandshake ?I ?aI, wire = [], session = Some [b0],
      waiting = True\<rparr>, begin_side (recv_wait ?R ?aR))"
    by simp
  from shake_first [OF this side_step.take_msg, of kI]
  have "shake_reachable ?s (\<lparr>prog_at = init_send ?I infoR, wire = [], session = Some [],
      waiting = False\<rparr>, begin_side (recv_wait ?R ?aR))"
    by (simp add: kI steps)
  from shake_first [OF this side_step.send, of b1]
  have "shake_reachable ?s (\<lparr>prog_at = init_ack ?I infoR, wire = [], session = Some [],
      waiting = False\<rparr>, (begin_side (recv_wait ?R ?aR))\<lparr>wire := [b1]\<rparr>)"
    by (simp add: send_steps(1) [OF b1] begin_side_def)
  from shake_second [OF this side_step.open_session, of kR]
  have "shake_reachable ?s (\<lparr>prog_at = init_ack ?I infoR, wire = [], session = Some [],
      waiting = False\<rparr>, \<lparr>prog_at = recv_wait ?R ?aR, wire = [b1], session = Some [],
      waiting = True\<rparr>)"
    by (simp add: begin_side_def kR)
  from shake_second [OF this side_step.arrive]
  have "shake_reachable ?s (\<lparr>prog_at = init_ack ?I infoR, wire = [], session = Some [],
      waiting = False\<rparr>, \<lparr>prog_at = recv_wait ?R ?aR, wire = [], session = Some [b1],
      waiting = True\<rparr>)"
    by simp
  from shake_second [OF this side_step.take_msg, of kR]
  have "shake_reachable ?s (\<lparr>prog_at = init_ack ?I infoR, wire = [], session = Some [],
      waiting = False\<rparr>, \<lparr>prog_at = recv_ack ?R infoI, wire = [], session = Some [],
      waiting = False\<rparr>)"
    by (simp add: kR steps)
  from shake_second [OF this side_step.send, of b2]
  have "shake_reachable ?s (\<lparr>prog_at = init_ack ?I infoR, wire = [b2], session = Some [],
      waiting = False\<rparr>, \<lparr>prog_at = Return (Inr infoI), wire = [], session = Some [],
      waiting = False\<rparr>)"
    by (simp add: send_steps(3) [OF b2])
  from that [OF b2 this] show ?thesis by simp
qed


text \<open>Without a loss the handshake completes on both sides, each with the identity of the other.
  It can also end one-sided: the receiver's last message can arrive before the initiator opens the
  session that is to wait for it, and then it is left behind in the previous session, the initiator
  fails at the acknowledgement, and the receiver keeps a peer that nobody else knows.\<close>
theorem handshake_outcomes:
  fixes ed :: "('p, 'b) codec"
  assumes "keeps_keys ed infoI" "keeps_keys ed infoR"
  shows "(\<exists>p q :: 'b side. shake_reachable (shake_pair ed infoI infoR) (p, q) \<and>
      prog_at p = Return (Inr infoR) \<and> prog_at q = Return (Inr infoI)) \<and>
    (\<exists>p q :: 'b side. shake_reachable (shake_pair ed infoI infoR) (p, q) \<and>
      prog_at p = Return (Inl \<lparr>Step = ''ack'', Target = Address (user_data infoR),
        Err = Errorf ''context deadline exceeded''\<rparr>) \<and> prog_at q = Return (Inr infoI))"
proof
  let ?s = "shake_pair ed infoI infoR" and ?I = "GetNewHostExhanger infoI ed"
  obtain b and q :: "'b side" where b: "carries ed infoR 2 b" and q: "prog_at q = Return (Inr infoI)"
    and r: "shake_reachable ?s (\<lparr>prog_at = init_ack ?I infoR, wire = [b], session = Some [],
      waiting = False\<rparr>, q)"
    by (rule shake_halfway [OF assms])
  obtain k where k: "init_ack ?I infoR = Recv_then k"
    by (simp add: init_ack_def waitForTargetPeerName_def)
  have late: "k (Inl (Some err)) = Return (Inl \<lparr>Step = ''ack'',
      Target = Address (user_data infoR), Err = err\<rparr>)" for err
    using k by (auto simp: init_ack_def waitForTargetPeerName_def NewHandshakeError_def)
  from shake_first [OF r side_step.open_session, of k]
  have "shake_reachable ?s (\<lparr>prog_at = Recv_then k, wire = [b], session = Some [], waiting = True\<rparr>, q)"
    by (simp add: k)
  from shake_first [OF this side_step.arrive]
  have "shake_reachable ?s (\<lparr>prog_at = Recv_then k, wire = [], session = Some [b], waiting = True\<rparr>, q)"
    by simp
  from shake_first [OF this side_step.take_msg]
  have "shake_reachable ?s (\<lparr>prog_at = k (Inr b), wire = [], session = Some [], waiting = False\<rparr>, q)"
    by simp
  then show "\<exists>p q :: 'b side. shake_reachable ?s (p, q) \<and> prog_at p = Return (Inr infoR) \<and>
      prog_at q = Return (Inr infoI)"
    using init_ack_step(1) [OF k b] q by fastforce
  from shake_first [OF r side_step.arrive]
  have "shake_reachable ?s (\<lparr>prog_at = Recv_then k, wire = [], session = Some [b], waiting = False\<rparr>, q)"
    by (simp add: k)
  from shake_first [OF this side_step.open_session]
  have "shake_reachable ?s (\<lparr>prog_at = Recv_then k, wire = [], session = Some [], waiting = True\<rparr>, q)"
    by simp
  from shake_first [OF this side_step.expire]
  have "shake_reachable ?s (\<lparr>prog_at = k (Inl (Some (Errorf ''context deadline exceeded''))), wire = [],
      session = Some [], waiting = False\<rparr>, q)"
    by simp
  then show "\<exists>p q :: 'b side. shake_reachable ?s (p, q) \<and> prog_at p = Return (Inl \<lparr>Step = ''ack'',
      Target = Address (user_data infoR), Err = Errorf ''context deadline exceeded''\<rparr>) \<and>
      prog_at q = Return (Inr infoI)"
    using late q by fastforce
qed

text \<open>A codec that passes messages on as they are.\<close>

definition plain_codec :: "(unit, unit PeerMessage) codec" where
  "plain_codec = \<lparr>Encode = Inr, Decode = Inr\<rparr>"

definition alice :: PeerHostInfo where "alice = CreateNewHostInfo ''1'' ''alice'' ''host:1''"
definition bob :: PeerHostInfo where "bob = CreateNewHostInfo ''2'' ''bob'' ''host:2''"

lemma plain_codec_keeps: "keeps_keys plain_codec info"
  by (simp add: keeps_keys_def plain_codec_def)

theorem handshake_outcomes_witness:
  "\<exists>p q. shake_reachable (shake_pair plain_codec alice bob) (p, q) \<and>
     prog_at p = Return (Inr bob) \<and> prog_at q = Return (Inr alice)"
  using handshake_outcomes [OF plain_codec_keeps plain_codec_keeps, of alice bob] by blast

theorem handshake_agrees_witness:
  "prog_at (fst (shake_pair plain_codec alice bob)) \<noteq> Return (Inr alice)"
  using handshake_agrees [OF plain_codec_keeps plain_codec_keeps, of alice bob
      "fst (shake_pair plain_codec alice bob)" "snd (shake_pair plain_codec alice bob)" alice bob]
    shake_start [of "shake_pair plain_codec alice bob"]
  by (auto simp: alice_def bob_def CreateNewHostInfo_def)

end
