(* ===== verification/Transport.thy ===== *)
theory Transport
  imports Handshake
begin

text \<open>
  The transport, \<open>p2p/communication.go\<close>, with the channel of \<open>utils/ch.go\<close> that carries its messages and
  the broadcast error of \<open>utils/errors.go\<close>.  Connections are shared between the map of peers and the
  goroutines that serve them, so they live in a heap (\<open>conns\<close>) and are named by their index.  The
  goroutines take turns: a turn runs from one blocking point to the next and is one event.  What the
  network answers (a listener, a dialled and shaken connection, a write) is a parameter of the event.
\<close>

section \<open>A channel that can be closed under its senders\<close>

text \<open>\<open>blocked\<close> are the senders that hold the read lock and wait for a receiver, \<open>closers\<close> the calls of
  \<open>Close\<close> that wait for the write lock; a waiting writer keeps new readers out.\<close>

record 'd SafeChannel =
  safe_closed :: bool
  ch_closed :: bool
  blocked :: "'d list"
  closers :: nat

definition NewSafeChannel :: "'d SafeChannel" where
  "NewSafeChannel = \<lparr>safe_closed = False, ch_closed = False, blocked = [], closers = 0\<rparr>"

text \<open>\<open>Send\<close> with the read lock: \<open>Some False\<close> is its answer on a closed channel, \<open>None\<close> that it waits.\<close>

definition safe_Send :: "'d SafeChannel \<Rightarrow> 'd \<Rightarrow> (bool option \<times> 'd SafeChannel) go" where
  "safe_Send s v =
     (if safe_closed s then Ret (Some False, s)
      else if ch_closed s then Panic
      else Ret (None, s\<lparr>blocked := blocked s @ [v]\<rparr>))"

text \<open>\<open>Close\<close> with the write lock.  Closing a channel twice panics, and so does a sender that waits on a
  channel when it is closed.\<close>

definition safe_Close :: "'d SafeChannel \<Rightarrow> 'd SafeChannel go" where
  "safe_Close s =
     (if safe_closed s then Ret s
      else if ch_closed s \<or> blocked s \<noteq> [] then Panic
      else Ret (s\<lparr>safe_closed := True, ch_closed := True\<rparr>))"

datatype 'd safe_event = Send_call 'd | Close_call | Close_locked | Receive_one nat

fun safe_run :: "'d safe_event \<Rightarrow> 'd SafeChannel \<Rightarrow> 'd SafeChannel go option" where
  "safe_run (Send_call v) s = (if closers s > 0 then None
     else Some (go_bind (safe_Send s v) (\<lambda>(answer, s'). Ret s')))"
| "safe_run Close_call s = Some (Ret (s\<lparr>closers := closers s + 1\<rparr>))"
| "safe_run Close_locked s = (if closers s = 0 \<or> blocked s \<noteq> [] then None
     else Some (safe_Close (s\<lparr>closers := closers s - 1\<rparr>)))"
| "safe_run (Receive_one i) s = (if i < length (blocked s)
     then Some (Ret (s\<lparr>blocked := take i (blocked s) @ drop (Suc i) (blocked s)\<rparr>)) else None)"

inductive safe_reachable :: "'d SafeChannel \<Rightarrow> bool" where
  safe_new: "safe_reachable NewSafeChannel"
| safe_next: "safe_reachable s \<Longrightarrow> safe_run ev s = Some (Ret s') \<Longrightarrow> safe_reachable s'"

inductive safe_path :: "'d safe_event list \<Rightarrow> 'd SafeChannel \<Rightarrow> 'd SafeChannel \<Rightarrow> bool" where
  safe_stop: "safe_path [] s s"
| safe_go: "safe_run ev s = Some (Ret s') \<Longrightarrow> safe_path evs s' s'' \<Longrightarrow> safe_path (ev # evs) s s''"

definition is_receive :: "'d safe_event \<Rightarrow> bool" where
  "is_receive ev = (case ev of Receive_one i \<Rightarrow> True | _ \<Rightarrow> False)"

section \<open>The shutdown flag\<close>

definition flag_Close :: "bool \<Rightarrow> bool \<times> go_error option" where
  "flag_Close shut = (if shut then (shut, Some (Errorf ''flag was already shut down'')) else (True, None))"

definition flag_IsClosed :: "bool \<Rightarrow> bool" where
  "flag_IsClosed shut = shut"

section \<open>Broadcast errors\<close>

record BroadcastError =
  Targets :: "PeerHostInfo list"
  FailedIndex :: nat
  Cause :: go_error

definition FailedTarget :: "BroadcastError \<Rightarrow> PeerHostInfo" where
  "FailedTarget e = Targets e ! FailedIndex e"

definition NotSent :: "BroadcastError \<Rightarrow> PeerHostInfo list" where
  "NotSent e = drop (FailedIndex e) (Targets e)"

definition SuccessTargets :: "BroadcastError \<Rightarrow> PeerHostInfo list" where
  "SuccessTargets e = take (FailedIndex e) (Targets e)"

definition BroadcastError_Unwrap :: "BroadcastError \<Rightarrow> go_error" where
  "BroadcastError_Unwrap e = Cause e"

text \<open>\<open>%v\<close> of an identity prints the fields of the struct, and of a slice its elements.\<close>

definition print_info :: "PeerHostInfo \<Rightarrow> string" where
  "print_info info = ''{'' @ Id info @ '' {'' @ Name (user_data info) @ '' '' @
     Address (user_data info) @ ''}}''"

definition print_infos :: "PeerHostInfo list \<Rightarrow> string" where
  "print_infos infos = ''['' @ str_join '' '' (map print_info infos) @ '']''"

definition BroadcastError_Error :: "BroadcastError \<Rightarrow> string" where
  "BroadcastError_Error e = ''broadcast failed on target '' @ print_info (FailedTarget e) @
     '' (send to '' @ print_infos (SuccessTargets e) @ '' was successfull, send to '' @
     print_infos (NotSent e) @ '' was aborted): '' @ error_msg (Cause e)"

section \<open>The layer\<close>

definition ErrPeerAlreadyExists :: go_error where
  "ErrPeerAlreadyExists = Errorf ''Peer already Exists''"
definition ErrPeerDoesNotExists :: go_error where
  "ErrPeerDoesNotExists = Errorf ''Peer does not exists''"

text \<open>A connection with its handshake behind it: the identity the other end announced, whether this end
  has closed it, and the messages written to it.\<close>

record 'b peer_conn =
  conn_info :: PeerHostInfo
  conn_closed :: bool
  conn_sent :: "'b list"

text \<open>\<open>running\<close> are the goroutines in \<open>handlePeer\<close>: the connection each serves and the identity that its
  deferred \<open>removePeer\<close> was given.  \<open>inbox\<close> is what the consumer has been handed over \<open>msgCh\<close>.\<close>

record ('p, 'b) TCPLayer =
  LocalID :: PeerHostInfo
  isShutDown :: bool
  msgCh_closed :: bool
  accepting :: bool
  localMsgFactory :: "(PeerMetadata \<Rightarrow> go_error + 'p PeerMessage) option"
  endDec :: "('p, 'b) codec option"
  conns :: "'b peer_conn list"
  peers :: "(PeerHostInfo \<times> nat) list"
  running :: "(nat \<times> PeerHostInfo) list"
  inbox :: "'p PeerMessage list"

definition NewTCPTransportWithShake :: "('p, 'b) TCPLayer" where
  "NewTCPTransportWithShake = \<lparr>LocalID = emptyHostInfo, isShutDown = False, msgCh_closed = False,
     accepting = False, localMsgFactory = None, endDec = None, conns = [], peers = [], running = [], inbox = []\<rparr>"

definition SetCodec :: "('p, 'b) TCPLayer \<Rightarrow> ('p, 'b) codec \<Rightarrow> ('p, 'b) TCPLayer" where
  "SetCodec t codec = t\<lparr>endDec := Some codec\<rparr>"

definition SetLocalMsgFactory ::
  "('p, 'b) TCPLayer \<Rightarrow> (PeerMetadata \<Rightarrow> go_error + 'p PeerMessage) \<Rightarrow> ('p, 'b) TCPLayer" where
  "SetLocalMsgFactory t factory = t\<lparr>localMsgFactory := Some factory\<rparr>"

definition isPeerPresent :: "('p, 'b) TCPLayer \<Rightarrow> PeerHostInfo \<Rightarrow> bool" where
  "isPeerPresent t target = (map_of (peers t) target \<noteq> None)"

definition addPeer :: "('p, 'b) TCPLayer \<Rightarrow> PeerHostInfo \<Rightarrow> nat \<Rightarrow> ('p, 'b) TCPLayer" where
  "addPeer t addr p = t\<lparr>peers := AList.update addr p (peers t)\<rparr>"

abbreviation close_conn :: "('p, 'b) TCPLayer \<Rightarrow> nat \<Rightarrow> ('p, 'b) TCPLayer" where
  "close_conn t c \<equiv> t\<lparr>conns := (conns t)[c := (conns t ! c)\<lparr>conn_closed := True\<rparr>]\<rparr>"

definition removePeer :: "('p, 'b) TCPLayer \<Rightarrow> PeerHostInfo \<Rightarrow> ('p, 'b) TCPLayer" where
  "removePeer t addr = (case map_of (peers t) addr of
       None \<Rightarrow> t
     | Some c \<Rightarrow> (close_conn t c)\<lparr>peers := AList.delete addr (peers t)\<rparr>)"

definition constructAndSendMetaMsg :: "('p, 'b) TCPLayer \<Rightarrow> PeerMetadata \<Rightarrow> ('p, 'b) TCPLayer" where
  "constructAndSendMetaMsg t header = (case localMsgFactory t of
       None \<Rightarrow> t
     | Some factory \<Rightarrow> (case factory header of
           Inl err \<Rightarrow> t
         | Inr env \<Rightarrow> if isShutDown t \<or> msgCh_closed t then t else t\<lparr>inbox := inbox t @ [env]\<rparr>))"

section \<open>Sending\<close>

text \<open>\<open>Peer.Send\<close>: writing to a connection this end has closed is an error; otherwise the network
  decides (\<open>written\<close>).\<close>

definition conn_Send :: "(nat \<Rightarrow> go_error option) \<Rightarrow> ('p, 'b) TCPLayer \<Rightarrow> nat \<Rightarrow> 'b \<Rightarrow>
    ('p, 'b) TCPLayer \<times> go_error option" where
  "conn_Send written t c bytes =
     (if conn_closed (conns t ! c) then (t, Some (Errorf ''use of closed network connection''))
      else case written c of
          Some err \<Rightarrow> (t, Some err)
        | None \<Rightarrow> (t\<lparr>conns := (conns t)[c := (conns t ! c)\<lparr>conn_sent := conn_sent (conns t ! c) @ [bytes]\<rparr>]\<rparr>, None))"

definition tcp_Send :: "(nat \<Rightarrow> go_error option) \<Rightarrow> ('p, 'b) TCPLayer \<Rightarrow> 'p PeerMessage \<Rightarrow> PeerHostInfo \<Rightarrow>
    (('p, 'b) TCPLayer \<times> go_error option) go" where
  "tcp_Send written t data target = (case endDec t of
       None \<Rightarrow> Panic
     | Some codec \<Rightarrow> (case Encode codec data of
           Inl err \<Rightarrow> Ret (t, Some err)
         | Inr byteMsg \<Rightarrow>
             (if \<not> isPeerPresent t target then Ret (t, Some ErrPeerDoesNotExists)
              else case map_of (peers t) target of
                  None \<Rightarrow> Panic
                | Some peer \<Rightarrow> Ret (conn_Send written t peer byteMsg))))"

text \<open>The loop of \<open>Broadcast\<close> over the targets from index \<open>i\<close>; the answer is the index that failed.\<close>

fun broadcast_loop :: "(nat \<Rightarrow> go_error option) \<Rightarrow> ('p, 'b) TCPLayer \<Rightarrow> 'p PeerMessage \<Rightarrow> nat \<Rightarrow>
    PeerHostInfo list \<Rightarrow> (('p, 'b) TCPLayer \<times> (nat \<times> go_error) option) go" where
  "broadcast_loop written t data i [] = Ret (t, None)"
| "broadcast_loop written t data i (addr # addrs) =
     go_bind (tcp_Send written t data addr) (\<lambda>(t', err). case err of
       Some e \<Rightarrow> Ret (t', Some (i, e))
     | None \<Rightarrow> broadcast_loop written t' data (Suc i) addrs)"

definition tcp_Broadcast :: "(nat \<Rightarrow> go_error option) \<Rightarrow> ('p, 'b) TCPLayer \<Rightarrow> 'p PeerMessage \<Rightarrow>
    (('p, 'b) TCPLayer \<times> (go_error + BroadcastError) option) go" where
  "tcp_Broadcast written t data =
     (if peers t = [] then Ret (t, Some (Inl (Errorf ''cannot broadcast, no peers are registered'')))
      else let targets = map fst (peers t)
        in go_bind (broadcast_loop written t data 0 targets) (\<lambda>(t', failed).
          Ret (t', map_option (\<lambda>(i, err). Inr \<lparr>Targets = targets, FailedIndex = i, Cause = err\<rparr>) failed)))"


section \<open>The goroutines\<close>

text \<open>What a handler of \<open>PEER_EXIT\<close> and of \<open>PEER_CONNECTION\<close> will be told.\<close>

definition PEER_CONNECTION_TOPIC :: string where "PEER_CONNECTION_TOPIC = ''PEER_CONNECTION_TOPIC''"
definition PEER_EXIT_TOPIC :: string where "PEER_EXIT_TOPIC = ''PEER_EXIT_TOPIC''"

text \<open>\<open>handlePeer\<close> up to its first \<open>select\<close>, and its return with the deferred call.\<close>

definition handler_exit :: "('p, 'b) TCPLayer \<Rightarrow> nat \<times> PeerHostInfo \<Rightarrow> ('p, 'b) TCPLayer" where
  "handler_exit t h = (removePeer t (snd h))\<lparr>running := remove1 h (running t)\<rparr>"

definition handler_head :: "('p, 'b) TCPLayer \<Rightarrow> nat \<times> PeerHostInfo \<Rightarrow> ('p, 'b) TCPLayer" where
  "handler_head t h = (if isShutDown t then handler_exit t h else t)"

definition handler_start :: "('p, 'b) TCPLayer \<Rightarrow> nat \<Rightarrow> ('p, 'b) TCPLayer" where
  "handler_start t c = (let h = (c, conn_info (conns t ! c))
     in handler_head (t\<lparr>running := h # running t\<rparr>) h)"

text \<open>The cases of the \<open>select\<close>.  A message that cannot be decoded is dropped; one that cannot be handed
  over ends the handler.  The error channel may be closed (\<open>None\<close>) or carry nil.\<close>

definition handler_message :: "('p, 'b) TCPLayer \<Rightarrow> nat \<times> PeerHostInfo \<Rightarrow> 'b \<Rightarrow> ('p, 'b) TCPLayer go" where
  "handler_message t h msg = (case endDec t of
       None \<Rightarrow> Panic
     | Some codec \<Rightarrow> (case Decode codec msg of
           Inl err \<Rightarrow> Ret (handler_head t h)
         | Inr data \<Rightarrow> if msgCh_closed t then Ret (handler_exit t h)
             else Ret (handler_head (t\<lparr>inbox := inbox t @ [data]\<rparr>) h)))"

definition handler_error :: "('p, 'b) TCPLayer \<Rightarrow> nat \<times> PeerHostInfo \<Rightarrow> go_error option option \<Rightarrow>
    ('p, 'b) TCPLayer" where
  "handler_error t h err =
     (let loggingErr = (case err of
            None \<Rightarrow> ''connection forcibly closed''
          | Some (Some e) \<Rightarrow> error_msg e
          | Some None \<Rightarrow> ''unknown peer error'')
      in handler_exit (constructAndSendMetaMsg t
           (GetPeerMetadata PEER_EXIT_TOPIC loggingErr (conn_info (conns t ! fst h)))) h)"

text \<open>A new connection of the heap, after a handshake that found \<open>info\<close> on the other side.\<close>

definition new_conn :: "('p, 'b) TCPLayer \<Rightarrow> PeerHostInfo \<Rightarrow> nat \<times> ('p, 'b) TCPLayer" where
  "new_conn t info = (length (conns t),
     t\<lparr>conns := conns t @ [\<lparr>conn_info = info, conn_closed = False, conn_sent = []\<rparr>]\<rparr>)"

text \<open>A round of the accepting loop, with the outcome of \<open>Accept\<close> and of the handshake.\<close>

definition accept_round :: "('p, 'b) TCPLayer \<Rightarrow> go_error + (go_error + PeerHostInfo) \<Rightarrow> ('p, 'b) TCPLayer" where
  "accept_round t outcome =
     (if flag_IsClosed (isShutDown t) then t\<lparr>accepting := False\<rparr>
      else case outcome of
          Inl err \<Rightarrow> t
        | Inr (Inl err) \<Rightarrow>
            constructAndSendMetaMsg t (GetPeerMetadata PEER_CONNECTION_TOPIC (error_msg err) emptyHostInfo)
        | Inr (Inr info) \<Rightarrow>
            (let (c, t1) = new_conn t info;
                 t2 = handler_start (addPeer t1 info c) c
             in constructAndSendMetaMsg t2 (GetPeerMetadata PEER_CONNECTION_TOPIC '''' info)))"

text \<open>\<open>ListenFor\<close> up to its wait, with what resolving and listening answer; and its end.\<close>

definition ListenFor :: "('p, 'b) TCPLayer \<Rightarrow> PeerHostInfo \<Rightarrow> go_error option \<Rightarrow> go_error option \<Rightarrow>
    ('p, 'b) TCPLayer \<times> go_error option" where
  "ListenFor t ident resolved listened =
     (case resolved of
        Some e \<Rightarrow> (t, Some (Errorf (''provided address '' @ Address (user_data ident) @ '' was not valid'')))
      | None \<Rightarrow> (let t' = t\<lparr>LocalID := ident\<rparr>
          in case listened of
              Some e \<Rightarrow> (t', Some (Errorf (''listening error: '' @ error_msg e)))
            | None \<Rightarrow> (t'\<lparr>accepting := True\<rparr>, None)))"

definition ListenFor_end :: "('p, 'b) TCPLayer \<Rightarrow> ('p, 'b) TCPLayer" where
  "ListenFor_end t = t\<lparr>msgCh_closed := True\<rparr>"

definition connectTo :: "('p, 'b) TCPLayer \<Rightarrow> go_error + (go_error + PeerHostInfo) \<Rightarrow>
    ('p, 'b) TCPLayer \<times> (go_error + nat)" where
  "connectTo t outcome = (case outcome of
       Inl err \<Rightarrow> (t, Inl err)
     | Inr (Inl err) \<Rightarrow> (t, Inl (Errorf (''Connection closed: '' @ error_msg err)))
     | Inr (Inr info) \<Rightarrow> (let (c, t') = new_conn t info in (t', Inr c)))"

definition tcp_Add :: "('p, 'b) TCPLayer \<Rightarrow> PeerHostInfo \<Rightarrow> go_error + (go_error + PeerHostInfo) \<Rightarrow>
    ('p, 'b) TCPLayer \<times> go_error option" where
  "tcp_Add t target outcome =
     (if target = LocalID t then (t, Some (Errorf (''Cannot connect to '' @ Format (LocalID t) @
        '' (same address as local listening address)'')))
      else if isPeerPresent t target then (t, Some ErrPeerAlreadyExists)
      else case connectTo t outcome of
          (t1, Inl err) \<Rightarrow> (t1, Some err)
        | (t1, Inr c) \<Rightarrow> (handler_start (addPeer t1 target c) c, None))"

definition tcp_Remove :: "('p, 'b) TCPLayer \<Rightarrow> PeerHostInfo \<Rightarrow> ('p, 'b) TCPLayer \<times> go_error option" where
  "tcp_Remove t target =
     (if \<not> isPeerPresent t target then (t, Some ErrPeerDoesNotExists) else (removePeer t target, None))"

definition GetTargets :: "('p, 'b) TCPLayer \<Rightarrow> PeerHostInfo set" where
  "GetTargets t = fst ` set (peers t)"

text \<open>\<open>Shutdown\<close> is a loop over the map, and then the flag; the goroutines can come between the two.\<close>

definition shutdown_peers :: "('p, 'b) TCPLayer \<Rightarrow> ('p, 'b) TCPLayer" where
  "shutdown_peers t = foldl removePeer t (map fst (peers t))"

definition shutdown_flag :: "('p, 'b) TCPLayer \<Rightarrow> ('p, 'b) TCPLayer \<times> go_error option" where
  "shutdown_flag t = (let (shut, err) = flag_Close (isShutDown t) in (t\<lparr>isShutDown := shut\<rparr>, err))"

definition tcp_Shutdown :: "('p, 'b) TCPLayer \<Rightarrow> ('p, 'b) TCPLayer \<times> go_error option" where
  "tcp_Shutdown t = shutdown_flag (shutdown_peers t)"

section \<open>Runs\<close>

datatype 'b layer_event =
    Listen PeerHostInfo
  | Accept "go_error + (go_error + PeerHostInfo)"
  | Connect PeerHostInfo "go_error + (go_error + PeerHostInfo)"
  | Disconnect PeerHostInfo
  | Arrived "nat \<times> PeerHostInfo" 'b
  | Channel_closed "nat \<times> PeerHostInfo"
  | Failed "nat \<times> PeerHostInfo" "go_error option option"
  | Cancelled "nat \<times> PeerHostInfo"
  | Shutdown_loop
  | Shutdown_flag
  | Listen_end

fun layer_run :: "'b layer_event \<Rightarrow> ('p, 'b) TCPLayer \<Rightarrow> ('p, 'b) TCPLayer go option" where
  "layer_run (Listen ident) t = Some (Ret (fst (ListenFor t ident None None)))"
| "layer_run (Accept outcome) t = (if accepting t then Some (Ret (accept_round t outcome)) else None)"
| "layer_run (Connect target outcome) t = Some (Ret (fst (tcp_Add t target outcome)))"
| "layer_run (Disconnect target) t = Some (Ret (fst (tcp_Remove t target)))"
| "layer_run (Arrived h msg) t = (if h \<in> set (running t) then Some (handler_message t h msg) else None)"
| "layer_run (Channel_closed h) t = (if h \<in> set (running t) then Some (Ret (handler_exit t h)) else None)"
| "layer_run (Failed h err) t = (if h \<in> set (running t) then Some (Ret (handler_error t h err)) else None)"
| "layer_run (Cancelled h) t = (if h \<in> set (running t) then Some (Ret (handler_exit t h)) else None)"
| "layer_run Shutdown_loop t = Some (Ret (shutdown_peers t))"
| "layer_run Shutdown_flag t = Some (Ret (fst (shutdown_flag t)))"
| "layer_run Listen_end t = (if isShutDown t then Some (Ret (ListenFor_end t)) else None)"

text \<open>A step is clean when it registers nothing under an identity that is taken, and dials nobody who
  announces another identity than the one dialled.\<close>

fun clean :: "('p, 'b) TCPLayer \<Rightarrow> 'b layer_event \<Rightarrow> bool" where
  "clean t (Accept (Inr (Inr info))) = (\<not> isPeerPresent t info)"
| "clean t (Connect target (Inr (Inr info))) = (info = target)"
| "clean t ev = True"

inductive layer_reachable :: "('p, 'b) TCPLayer \<Rightarrow> ('p, 'b) TCPLayer \<Rightarrow> bool" for start where
  layer_start: "layer_reachable start start"
| layer_next: "layer_reachable start t \<Longrightarrow> layer_run ev t = Some (Ret t') \<Longrightarrow> layer_reachable start t'"

inductive clean_reachable :: "('p, 'b) TCPLayer \<Rightarrow> ('p, 'b) TCPLayer \<Rightarrow> bool" for start where
  clean_start: "clean_reachable start start"
| clean_next: "clean_reachable start t \<Longrightarrow> clean t ev \<Longrightarrow> layer_run ev t = Some (Ret t') \<Longrightarrow>
    clean_reachable start t'"

text \<open>A layer as \<open>initModule\<close> of \<open>p2p/factory.go\<close> sets it up.\<close>

definition setup_transport :: "('p, 'b) codec \<Rightarrow> (PeerMetadata \<Rightarrow> go_error + 'p PeerMessage) \<Rightarrow> ('p, 'b) TCPLayer" where
  "setup_transport codec enveloper =
     SetLocalMsgFactory (SetCodec NewTCPTransportWithShake codec) enveloper"


section \<open>The safe channel\<close>

lemma safe_flags: "safe_reachable s \<Longrightarrow> ch_closed s = safe_closed s \<and> (safe_closed s \<longrightarrow> blocked s = [])"
proof (induction rule: safe_reachable.induct)
  case (safe_next s ev s')
  then show ?case
    by (cases ev) (auto simp: safe_Send_def safe_Close_def split: if_splits)
qed (simp add: NewSafeChannel_def)

lemma safe_path_reachable: "safe_path evs s s' \<Longrightarrow> safe_reachable s \<Longrightarrow> safe_reachable s'"
  by (induction rule: safe_path.induct) (auto intro: safe_next)

text \<open>Whatever the order of its senders, receivers and closers, the channel never panics: nobody
  closes it twice, sends on it after its close, or is caught waiting in it by a close.\<close>
theorem safe_channel_never_panics:
  assumes "safe_reachable s"
  shows "safe_run ev s \<noteq> Some Panic"
  using safe_flags [OF assms] by (cases ev) (auto simp: safe_Send_def safe_Close_def)

theorem safe_channel_never_panics_witness:
  "safe_run Close_locked \<lparr>safe_closed = True, ch_closed = True, blocked = [] :: nat list, closers = 1\<rparr> \<noteq> Some Panic"
proof -
  have new: "safe_reachable NewSafeChannel" by (rule safe_new)
  have "safe_reachable \<lparr>safe_closed = False, ch_closed = False, blocked = [] :: nat list, closers = 1\<rparr>"
    by (rule safe_next [OF new, of Close_call]) (simp add: NewSafeChannel_def)
  then have "safe_reachable \<lparr>safe_closed = False, ch_closed = False, blocked = [] :: nat list, closers = 2\<rparr>"
    by (rule safe_next [of _ Close_call]) simp
  then have "safe_reachable \<lparr>safe_closed = True, ch_closed = True, blocked = [] :: nat list, closers = 1\<rparr>"
    by (rule safe_next [of _ Close_locked]) (simp add: safe_Close_def)
  then show ?thesis by (rule safe_channel_never_panics)
qed

lemma blocked_path:
  assumes "safe_path evs s s'" "safe_reachable s" "blocked s \<noteq> []" "\<forall>ev\<in>set evs. \<not> is_receive ev"
  shows "\<not> safe_closed s' \<and> (\<exists>more. blocked s' = blocked s @ more) \<and> (closers s > 0 \<longrightarrow> blocked s' = blocked s)"
  using assms
proof (induction rule: safe_path.induct)
  case (safe_stop s)
  then show ?case using safe_flags by auto
next
  case (safe_go ev s s' evs s'')
  have "\<not> safe_closed s" using safe_flags [OF safe_go.prems(1)] safe_go.prems(2) by auto
  with safe_go.hyps(1) safe_go.prems(2,3)
  have "(\<exists>more. blocked s' = blocked s @ more) \<and> (closers s > 0 \<longrightarrow> blocked s' = blocked s \<and> closers s' > 0)"
    by (cases ev) (auto simp: safe_Send_def is_receive_def split: if_splits)
  moreover have "safe_reachable s'" using safe_go.prems(1) safe_go.hyps(1) by (rule safe_next)
  ultimately show ?case using safe_go.IH safe_go.prems by auto
qed

text \<open>A sender that waits keeps the channel from being closed: until somebody receives, \<open>Close\<close>, and
  with it \<open>ListenFor\<close>, does not return; and once a close waits, no further sender gets in.\<close>
theorem close_waits_for_receiver:
  assumes "safe_reachable s" "blocked s \<noteq> []" "safe_path evs s s'" "\<forall>ev\<in>set evs. \<not> is_receive ev"
  shows "\<not> safe_closed s' \<and> safe_run Close_locked s' = None \<and> set (blocked s) \<subseteq> set (blocked s') \<and>
    (closers s > 0 \<longrightarrow> blocked s' = blocked s)"
  using blocked_path [OF assms(3,1,2,4)] assms(2) by auto

theorem close_waits_for_receiver_witness:
  "\<not> safe_closed \<lparr>safe_closed = False, ch_closed = False, blocked = [7 :: nat], closers = 1\<rparr>"
proof -
  let ?s = "\<lparr>safe_closed = False, ch_closed = False, blocked = [7 :: nat], closers = 0\<rparr>"
  have "safe_reachable ?s"
    by (rule safe_next [OF safe_new, of "Send_call 7"]) (simp add: NewSafeChannel_def safe_Send_def)
  moreover have "safe_path [Close_call] ?s \<lparr>safe_closed = False, ch_closed = False, blocked = [7], closers = 1\<rparr>"
    by (rule safe_go [OF _ safe_stop]) simp
  ultimately show ?thesis using close_waits_for_receiver [of ?s "[Close_call]"] by (simp add: is_receive_def)
qed

section \<open>What every run keeps\<close>

definition layer_ok :: "('p, 'b) codec \<Rightarrow> ('p, 'b) TCPLayer \<Rightarrow> bool" where
  "layer_ok codec t \<longleftrightarrow> endDec t = Some codec \<and> distinct (map fst (peers t)) \<and> distinct (map snd (peers t)) \<and>
     (\<forall>c\<in>snd ` set (peers t). c < length (conns t) \<and> \<not> conn_closed (conns t ! c))"

lemma distinct_snd_update:
  "c \<notin> snd ` set m \<Longrightarrow> distinct (map snd m) \<Longrightarrow> distinct (map snd (AList.update k c m))"
proof (induction m)
  case (Cons x m)
  then show ?case
    using set_update_subset [of k c m] by (cases x) (auto simp: image_iff)
qed simp

lemma snd_update: "snd ` set (AList.update k c m) \<subseteq> insert c (snd ` set m)"
  using set_update_subset [of k c m] by auto

lemma layer_ok_frame:
  "layer_ok codec (t\<lparr>running := r\<rparr>) = layer_ok codec t" "layer_ok codec (t\<lparr>inbox := i\<rparr>) = layer_ok codec t"
  "layer_ok codec (t\<lparr>accepting := a\<rparr>) = layer_ok codec t" "layer_ok codec (t\<lparr>msgCh_closed := a\<rparr>) = layer_ok codec t"
  "layer_ok codec (t\<lparr>isShutDown := a\<rparr>) = layer_ok codec t" "layer_ok codec (t\<lparr>LocalID := l\<rparr>) = layer_ok codec t"
  by (simp_all add: layer_ok_def)

lemma meta_ok: "layer_ok codec (constructAndSendMetaMsg t h) = layer_ok codec t"
  by (simp add: constructAndSendMetaMsg_def layer_ok_frame split: option.split sum.split)

lemma in_delete: "x \<in> set (AList.delete k m) \<longleftrightarrow> x \<in> set m \<and> fst x \<noteq> k"
  by (auto simp: AList.delete_eq)

lemma removePeer_ok: "layer_ok codec t \<Longrightarrow> layer_ok codec (removePeer t k)"
proof (cases "map_of (peers t) k")
  case (Some c)
  assume ok: "layer_ok codec t"
  have "c \<noteq> snd x \<and> snd x < length (conns t) \<and> \<not> conn_closed (conns t ! snd x)"
    if x: "x \<in> set (AList.delete k (peers t))" for x
  proof -
    have "x \<in> set (peers t)" "fst x \<noteq> k" using x by (simp_all add: in_delete)
    moreover have "snd x = c \<Longrightarrow> x = (k, c)"
      using map_of_SomeD [OF Some] ok \<open>x \<in> set (peers t)\<close>
      unfolding layer_ok_def distinct_map inj_on_def by (metis snd_conv)
    ultimately have "c \<noteq> snd x" by (metis fst_conv)
    with \<open>x \<in> set (peers t)\<close> show ?thesis using ok by (simp add: layer_ok_def)
  qed
  moreover have "distinct (map snd (AList.delete k (peers t)))" "distinct (map fst (AList.delete k (peers t)))"
    using ok by (auto simp: layer_ok_def AList.delete_eq distinct_map_filter)
  moreover have "endDec t = Some codec" using ok by (simp add: layer_ok_def)
  ultimately show ?thesis using Some by (simp add: removePeer_def layer_ok_def)
qed (simp add: removePeer_def)

lemma handler_ok:
  "layer_ok codec t \<Longrightarrow> layer_ok codec (handler_exit t h)"
  "layer_ok codec t \<Longrightarrow> layer_ok codec (handler_head t h)"
  "layer_ok codec t \<Longrightarrow> layer_ok codec (handler_start t c)"
  by (simp_all add: handler_exit_def handler_head_def handler_start_def Let_def layer_ok_frame removePeer_ok)

lemma registered_ok:
  assumes "layer_ok codec t" "new_conn t info = (c, t')"
  shows "layer_ok codec (addPeer t' k c)"
proof -
  have c: "c = length (conns t)" and t': "t' = t\<lparr>conns := conns t @ [\<lparr>conn_info = info, conn_closed = False, conn_sent = []\<rparr>]\<rparr>"
    using assms(2) by (auto simp: new_conn_def)
  have "c \<notin> snd ` set (peers t)" using assms(1) c by (auto simp: layer_ok_def)
  then have "distinct (map snd (AList.update k c (peers t)))" using assms(1) by (simp add: layer_ok_def distinct_snd_update)
  moreover have "x < length (conns t') \<and> \<not> conn_closed (conns t' ! x)" if "x \<in> snd ` set (AList.update k c (peers t))" for x
  proof -
    from that snd_update [of k c "peers t"] have "x = c \<or> x \<in> snd ` set (peers t)" by blast
    with assms(1) c t' show ?thesis by (auto simp: layer_ok_def nth_append)
  qed
  ultimately show ?thesis using assms(1) t' by (simp add: layer_ok_def addPeer_def distinct_update)
qed

lemma fold_removePeer_ok: "layer_ok codec t \<Longrightarrow> layer_ok codec (foldl removePeer t ks)"
  by (induction ks arbitrary: t) (simp_all add: removePeer_ok)

lemma layer_run_ok:
  assumes "layer_ok codec t" "layer_run ev t = Some (Ret t')"
  shows "layer_ok codec t'"
proof (cases ev)
  case (Accept outcome)
  with assms show ?thesis
    by (auto simp: accept_round_def meta_ok layer_ok_frame flag_IsClosed_def Let_def
        intro!: handler_ok(3) registered_ok [of codec t] split: if_splits sum.splits prod.splits)
next
  case (Connect target outcome)
  with assms show ?thesis
    by (auto simp: tcp_Add_def connectTo_def intro: handler_ok(3) registered_ok split: if_splits sum.splits prod.splits)
next
  case (Arrived h msg)
  with assms show ?thesis
    by (auto simp: handler_message_def layer_ok_frame intro!: handler_ok split: if_splits option.splits sum.splits)
next
  case (Failed h err)
  with assms show ?thesis
    by (auto simp: handler_error_def Let_def meta_ok intro!: handler_ok split: if_splits)
qed (use assms in \<open>auto simp: ListenFor_def Let_def layer_ok_frame tcp_Remove_def removePeer_ok handler_ok
      shutdown_peers_def fold_removePeer_ok shutdown_flag_def ListenFor_end_def split: if_splits prod.splits\<close>)

lemma setup_transport_ok: "layer_ok codec (setup_transport codec enveloper)"
  by (simp add: layer_ok_def setup_transport_def SetLocalMsgFactory_def SetCodec_def NewTCPTransportWithShake_def)

lemma layer_reachable_ok: "layer_reachable (setup_transport codec enveloper) t \<Longrightarrow> layer_ok codec t"
  by (induction rule: layer_reachable.induct) (auto intro: layer_run_ok setup_transport_ok)


section \<open>Broadcasting\<close>

definition write_ok :: "(nat \<Rightarrow> go_error option) \<Rightarrow> PeerHostInfo \<times> nat \<Rightarrow> bool" where
  "write_ok written kc = (written (snd kc) = None)"

text \<open>One message to one registered connection.\<close>

lemma tcp_Send_registered:
  assumes "layer_ok codec t" "Encode codec data = Inr bytes" "(k, c) \<in> set (peers t)"
  shows "tcp_Send written t data k = Ret (case written c of Some err \<Rightarrow> (t, Some err)
    | None \<Rightarrow> (t\<lparr>conns := (conns t)[c := (conns t ! c)\<lparr>conn_sent := conn_sent (conns t ! c) @ [bytes]\<rparr>]\<rparr>, None))"
proof -
  have "map_of (peers t) k = Some c" using assms(1,3) by (simp add: layer_ok_def)
  moreover have "\<not> conn_closed (conns t ! c)" using assms(1,3) by (force simp: layer_ok_def)
  ultimately show ?thesis using assms(1,2)
    by (simp add: tcp_Send_def layer_ok_def isPeerPresent_def conn_Send_def split: option.split)
qed

lemma layer_ok_sent:
  "layer_ok codec t \<Longrightarrow> layer_ok codec (t\<lparr>conns := (conns t)[c := (conns t ! c)\<lparr>conn_sent := bs\<rparr>]\<rparr>)"
  by (simp add: layer_ok_def) (metis nth_list_update_eq nth_list_update_neq peer_conn.select_convs(2) peer_conn.surjective
      peer_conn.update_convs(3))

lemma write_ok_pair [simp]: "write_ok written (k, c) \<longleftrightarrow> written c = None"
  by (simp add: write_ok_def)

lemma broadcast_loop_outcome:
  assumes "layer_ok codec t" "Encode codec data = Inr bytes" "set todo \<subseteq> set (peers t)" "distinct (map snd todo)"
  shows "\<exists>cs. length cs = length (conns t) \<and>
    broadcast_loop written t data i (map fst todo) = Ret (t\<lparr>conns := cs\<rparr>,
      (let done = length (takeWhile (write_ok written) todo)
       in if done = length todo then None else Some (i + done, the (written (snd (todo ! done)))))) \<and>
    (\<forall>c<length cs. cs ! c = (if c \<in> snd ` set (takeWhile (write_ok written) todo)
       then (conns t ! c)\<lparr>conn_sent := conn_sent (conns t ! c) @ [bytes]\<rparr> else conns t ! c))"
  using assms
proof (induction todo arbitrary: t i)
  case Nil
  then show ?case by (intro exI [of _ "conns t"]) simp
next
  case (Cons kc todo)
  obtain k c where kc: "kc = (k, c)" by (cases kc)
  have c: "c < length (conns t)" using Cons.prems(1,3) kc by (auto simp: layer_ok_def)
  note sent = tcp_Send_registered [OF Cons.prems(1,2), of k c written]
  show ?case
  proof (cases "written c")
    case (Some err)
    with Cons.prems kc sent show ?thesis
      by (intro exI [of _ "conns t"]) simp
  next
    case None
    let ?t = "t\<lparr>conns := (conns t)[c := (conns t ! c)\<lparr>conn_sent := conn_sent (conns t ! c) @ [bytes]\<rparr>]\<rparr>"
    have step: "tcp_Send written t data k = Ret (?t, None)" using None Cons.prems(3) kc sent by simp
    have "layer_ok codec ?t" using Cons.prems(1) by (rule layer_ok_sent)
    moreover have "set todo \<subseteq> set (peers ?t)" "distinct (map snd todo)" using Cons.prems(3,4) by auto
    ultimately obtain cs where cs: "length cs = length (conns t)"
      "broadcast_loop written ?t data (Suc i) (map fst todo) = Ret (?t\<lparr>conns := cs\<rparr>,
        (let done = length (takeWhile (write_ok written) todo)
         in if done = length todo then None else Some (Suc i + done, the (written (snd (todo ! done))))))"
      "\<forall>x<length cs. cs ! x = (if x \<in> snd ` set (takeWhile (write_ok written) todo)
         then (conns ?t ! x)\<lparr>conn_sent := conn_sent (conns ?t ! x) @ [bytes]\<rparr> else conns ?t ! x)"
      using Cons.IH [of ?t "Suc i"] Cons.prems(2) by auto
    have new: "c \<notin> snd ` set (takeWhile (write_ok written) todo)"
      using Cons.prems(4) kc by (auto dest: set_takeWhileD)
    have "broadcast_loop written t data i (map fst (kc # todo)) = Ret (t\<lparr>conns := cs\<rparr>,
        (let done = length (takeWhile (write_ok written) (kc # todo))
         in if done = length (kc # todo) then None else Some (i + done, the (written (snd ((kc # todo) ! done))))))"
      using cs(2) step None kc by (simp add: Let_def)
    moreover have "cs ! x = (if x \<in> snd ` set (takeWhile (write_ok written) (kc # todo))
        then (conns t ! x)\<lparr>conn_sent := conn_sent (conns t ! x) @ [bytes]\<rparr> else conns t ! x)" if "x < length cs" for x
      using cs(1,3) that new None kc c by (cases "x = c") simp_all
    ultimately show ?thesis using cs(1) by blast
  qed
qed

text \<open>C21. A broadcast, in any state of a layer, sends the message over the registered connections in their
  order up to the first write that fails: exactly those before it get the message, the error names the
  one that failed with its cause, and no connection after it, and no other one, is touched.\<close>
theorem broadcast_outcome:
  assumes "layer_reachable (setup_transport codec enveloper) t" "Encode codec data = Inr bytes" "peers t \<noteq> []"
  shows "\<exists>t' failed. tcp_Broadcast written t data = Ret (t', failed) \<and>
    (let done = length (takeWhile (\<lambda>(k, c). written c = None) (peers t)) in
      failed = (if done = length (peers t) then None
        else Some (Inr \<lparr>Targets = map fst (peers t), FailedIndex = done,
          Cause = the (written (snd (peers t ! done)))\<rparr>)) \<and>
      peers t' = peers t \<and>
      (\<forall>c<length (conns t). conn_sent (conns t' ! c) =
        (if c \<in> snd ` set (take done (peers t)) then conn_sent (conns t ! c) @ [bytes] else conn_sent (conns t ! c))))"
proof -
  have ok: "layer_ok codec t" using assms(1) by (rule layer_reachable_ok)
  have w: "(\<lambda>(k, c). written c = None) = write_ok written" by (auto simp: write_ok_def)
  let ?done = "length (takeWhile (write_ok written) (peers t))"
  have dist: "distinct (map snd (peers t))" using ok by (simp add: layer_ok_def)
  obtain cs where cs: "length cs = length (conns t)"
    "broadcast_loop written t data 0 (map fst (peers t)) = Ret (t\<lparr>conns := cs\<rparr>,
      (let done = ?done in if done = length (peers t) then None
       else Some (0 + done, the (written (snd (peers t ! done))))))"
    "\<forall>c<length cs. cs ! c = (if c \<in> snd ` set (takeWhile (write_ok written) (peers t))
       then (conns t ! c)\<lparr>conn_sent := conn_sent (conns t ! c) @ [bytes]\<rparr> else conns t ! c)"
    using broadcast_loop_outcome [OF ok assms(2) subset_refl dist, of written 0] by blast
  let ?failed = "if ?done = length (peers t) then None else Some (Inr \<lparr>Targets = map fst (peers t),
    FailedIndex = ?done, Cause = the (written (snd (peers t ! ?done)))\<rparr>) :: (go_error + BroadcastError) option"
  have "tcp_Broadcast written t data = Ret (t\<lparr>conns := cs\<rparr>, ?failed)"
    using assms(3) by (simp add: tcp_Broadcast_def cs(2) Let_def)
  moreover have "take ?done (peers t) = takeWhile (write_ok written) (peers t)" by (rule takeWhile_eq_take [symmetric])
  then have "conn_sent (conns (t\<lparr>conns := cs\<rparr>) ! c) =
      (if c \<in> snd ` set (take ?done (peers t)) then conn_sent (conns t ! c) @ [bytes] else conn_sent (conns t ! c))"
    if "c < length (conns t)" for c
    using cs(3) [rule_format, of c] cs(1) that by simp
  ultimately show ?thesis unfolding w Let_def
    by (intro exI [of _ "t\<lparr>conns := cs\<rparr>"] exI [of _ ?failed]) simp
qed


text \<open>A codec and a constructor of messages that carry the metadata in the clear, and two peers.\<close>

definition clear_codec :: "(unit, unit PeerMessage) codec" where
  "clear_codec = \<lparr>Encode = Inr, Decode = Inr\<rparr>"

definition clear_layer :: "(unit, unit PeerMessage) TCPLayer" where
  "clear_layer = setup_transport clear_codec (\<lambda>meta. Inr (GetEmptyEnvelope meta))"

definition peer0 :: PeerHostInfo where "peer0 = CreateNewHostInfo ''0'' ''me'' ''h:0''"
definition peer1 :: PeerHostInfo where "peer1 = CreateNewHostInfo ''1'' ''ann'' ''h:1''"
definition peer2 :: PeerHostInfo where "peer2 = CreateNewHostInfo ''2'' ''bob'' ''h:2''"

fun layer_runs :: "bool \<Rightarrow> ('p, 'b) TCPLayer \<Rightarrow> 'b layer_event list \<Rightarrow> ('p, 'b) TCPLayer option" where
  "layer_runs strict t [] = Some t"
| "layer_runs strict t (ev # evs) = (if strict \<longrightarrow> clean t ev then
     (case layer_run ev t of Some (Ret t') \<Rightarrow> layer_runs strict t' evs | _ \<Rightarrow> None) else None)"

lemma layer_runs_reachable:
  "layer_runs True t evs = Some t' \<Longrightarrow> clean_reachable s t \<Longrightarrow> clean_reachable s t'"
  "layer_runs False t evs = Some t' \<Longrightarrow> layer_reachable s t \<Longrightarrow> layer_reachable s t'"
  by (induction evs arbitrary: t)
    (auto split: if_splits option.splits go.splits dest: clean_next layer_next)

lemma layer_runs_the:
  "layer_runs True s evs \<noteq> None \<Longrightarrow> clean_reachable s (the (layer_runs True s evs))"
  "layer_runs False s evs \<noteq> None \<Longrightarrow> layer_reachable s (the (layer_runs False s evs))"
  by (metis layer_runs_reachable(1) clean_start option.collapse)
    (metis layer_runs_reachable(2) layer_start option.collapse)

lemma clean_layer_reachable: "clean_reachable s t \<Longrightarrow> layer_reachable s t"
  by (induction rule: clean_reachable.induct) (auto intro: layer_start layer_next)

definition two_peers :: "(unit, unit PeerMessage) TCPLayer" where
  "two_peers = the (layer_runs True clear_layer [Connect peer1 (Inr (Inr peer1)), Connect peer2 (Inr (Inr peer2))])"

lemma two_peers_reachable: "clean_reachable clear_layer two_peers"
  unfolding two_peers_def by (rule layer_runs_the) code_simp

theorem broadcast_outcome_witness:
  "\<exists>t'. tcp_Broadcast (\<lambda>c. if c = 1 then Some (Errorf ''timeout'') else None) two_peers
      \<lparr>Key = GetPeerMetadata ''T'' '''' peer1, Data = EmptyPayload\<rparr> =
    Ret (t', Some (Inr \<lparr>Targets = [peer1, peer2], FailedIndex = 1, Cause = Errorf ''timeout''\<rparr>)) \<and>
    conn_sent (conns t' ! 0) = [\<lparr>Key = GetPeerMetadata ''T'' '''' peer1, Data = EmptyPayload\<rparr>] \<and>
    conn_sent (conns t' ! 1) = []"
proof -
  let ?msg = "\<lparr>Key = GetPeerMetadata ''T'' '''' peer1, Data = EmptyPayload\<rparr> :: unit PeerMessage"
  have "layer_reachable (setup_transport clear_codec (\<lambda>meta. Inr (GetEmptyEnvelope meta))) two_peers"
    using clean_layer_reachable [OF two_peers_reachable] by (simp add: clear_layer_def)
  moreover have "Encode clear_codec ?msg = Inr ?msg" by (simp add: clear_codec_def)
  moreover have p: "peers two_peers = [(peer1, 0), (peer2, 1)]" "map conn_sent (conns two_peers) = [[], []]"
    by code_simp+
  moreover from p(2) have "conn_sent (conns two_peers ! 0) = []" "conn_sent (conns two_peers ! 1) = []"
    "length (conns two_peers) = 2"
    by (auto simp: map_eq_Cons_conv)
  ultimately show ?thesis
    using broadcast_outcome [of clear_codec _ two_peers ?msg ?msg "\<lambda>c. if c = 1 then Some (Errorf ''timeout'') else None"]
    by (fastforce simp: Let_def)
qed


section \<open>Registered connections\<close>

text \<open>In a clean run the map of peers holds exactly the open connections, each under the identity it
  announced, and each with its goroutine.\<close>

definition served :: "('p, 'b) TCPLayer \<Rightarrow> bool" where
  "served t \<longleftrightarrow>
     (\<forall>k c. map_of (peers t) k = Some c \<longleftrightarrow>
       c < length (conns t) \<and> \<not> conn_closed (conns t ! c) \<and> conn_info (conns t ! c) = k) \<and>
     (\<forall>k c. map_of (peers t) k = Some c \<longrightarrow> (c, k) \<in> set (running t)) \<and>
     (\<forall>(c, k)\<in>set (running t). c < length (conns t) \<and> conn_info (conns t ! c) = k)"

lemma served_frame:
  "served (t\<lparr>inbox := i\<rparr>) = served t" "served (t\<lparr>accepting := a\<rparr>) = served t"
  "served (t\<lparr>msgCh_closed := a\<rparr>) = served t" "served (t\<lparr>isShutDown := a\<rparr>) = served t"
  "served (t\<lparr>LocalID := l\<rparr>) = served t"
  by (simp_all add: served_def)

lemma meta_frame:
  "served (constructAndSendMetaMsg t h) = served t"
  "running (constructAndSendMetaMsg t h) = running t"
  by (simp_all add: constructAndSendMetaMsg_def served_frame split: option.split sum.split)

lemma removePeer_running [simp]: "running (removePeer t k) = running t"
  by (simp add: removePeer_def split: option.split)

lemma map_of_removePeer: "map_of (peers (removePeer t k)) x = (if x = k then None else map_of (peers t) x)"
  by (auto simp: removePeer_def delete_conv' split: option.split)

lemma nth_close:
  "conn_info (cs[x := (cs ! x)\<lparr>conn_closed := True\<rparr>] ! c) = conn_info (cs ! c)"
  "c < length cs \<Longrightarrow> conn_closed (cs[x := (cs ! x)\<lparr>conn_closed := True\<rparr>] ! c) \<longleftrightarrow> conn_closed (cs ! c) \<or> x = c"
  by (cases "x = c"; cases "x < length cs"; simp add: list_update_beyond)+

lemma removePeer_conns:
  "length (conns (removePeer t k)) = length (conns t)"
  "conn_info (conns (removePeer t k) ! c) = conn_info (conns t ! c)"
  "c < length (conns t) \<Longrightarrow> conn_closed (conns (removePeer t k) ! c) \<longleftrightarrow>
     conn_closed (conns t ! c) \<or> map_of (peers t) k = Some c"
  by (auto simp: removePeer_def nth_close split: option.split)

lemma removePeer_served: "served t \<Longrightarrow> served (removePeer t k)"
  unfolding served_def by (auto simp: map_of_removePeer removePeer_conns)

lemma exit_served:
  assumes "served t"
  shows "served (handler_exit t h)"
proof -
  have s: "served (removePeer t (snd h))" using assms by (rule removePeer_served)
  have "(c, k) \<in> set (remove1 h (running t))" if "map_of (peers (removePeer t (snd h))) k = Some c" for c k
  proof -
    have "(c, k) \<in> set (running t)" using s that by (simp add: served_def)
    moreover have "k \<noteq> snd h" using that by (auto simp: map_of_removePeer)
    ultimately show ?thesis by (cases h) (auto simp: in_set_remove1)
  qed
  moreover have "set (remove1 h (running t)) \<subseteq> set (running t)" by (rule set_remove1_subset)
  ultimately show ?thesis using s unfolding handler_exit_def served_def by fastforce
qed

lemma head_served: "served t \<Longrightarrow> served (handler_head t h)"
  by (simp add: handler_head_def exit_served)

text \<open>A new connection, registered under what it announced.\<close>

lemma start_served:
  assumes "served t" "\<not> isPeerPresent t info" "new_conn t info = (c, t')"
  shows "served (handler_start (addPeer t' info c) c)"
proof -
  have c: "c = length (conns t)" and t': "t' = t\<lparr>conns := conns t @ [\<lparr>conn_info = info, conn_closed = False, conn_sent = []\<rparr>]\<rparr>"
    using assms(3) by (auto simp: new_conn_def)
  let ?t = "(addPeer t' info c)\<lparr>running := (c, info) # running t\<rparr>"
  have "map_of (peers ?t) k = Some x \<longleftrightarrow>
      x < length (conns ?t) \<and> \<not> conn_closed (conns ?t ! x) \<and> conn_info (conns ?t ! x) = k" for k x
  proof (cases "x < length (conns t)")
    case True
    then have "map_of (peers ?t) k = Some x \<longleftrightarrow> map_of (peers t) k = Some x"
      using assms(2) c t' by (auto simp: addPeer_def isPeerPresent_def update_conv')
    with True assms(1) t' show ?thesis by (simp add: served_def addPeer_def nth_append)
  next
    case False
    then have "map_of (peers t) k \<noteq> Some x" using assms(1) by (auto simp: served_def)
    with False c t' show ?thesis by (auto simp: addPeer_def update_conv' nth_append less_Suc_eq)
  qed
  moreover have "(x, k) \<in> set (running ?t)" if "map_of (peers ?t) k = Some x" for k x
    using that assms(1) t' c by (auto simp: served_def addPeer_def update_conv' split: if_splits)
  moreover have "\<forall>(x, k)\<in>set (running ?t). x < length (conns ?t) \<and> conn_info (conns ?t ! x) = k"
    using assms(1) t' c by (auto simp: served_def addPeer_def nth_append)
  ultimately have "served ?t" by (simp add: served_def)
  moreover have "handler_start (addPeer t' info c) c = handler_head ?t (c, info)"
    using c t' by (simp add: handler_start_def addPeer_def nth_append Let_def)
  ultimately show ?thesis by (simp add: head_served)
qed

lemma fold_removePeer_served: "served t \<Longrightarrow> served (foldl removePeer t ks)"
  by (induction ks arbitrary: t) (simp_all add: removePeer_served)

lemma clean_run_served:
  assumes "served t" "clean t ev" "layer_run ev t = Some (Ret t')"
  shows "served t'"
proof (cases ev)
  case (Accept outcome)
  with assms show ?thesis
    by (auto simp: accept_round_def meta_frame served_frame flag_IsClosed_def Let_def
        intro!: start_served [of t] split: if_splits sum.splits prod.splits)
next
  case (Connect target outcome)
  with assms show ?thesis
    by (auto simp: tcp_Add_def connectTo_def intro!: start_served [of t] split: if_splits sum.splits prod.splits)
next
  case (Arrived h msg)
  with assms show ?thesis
    by (auto simp: handler_message_def served_frame intro!: head_served exit_served
        split: if_splits option.splits sum.splits)
next
  case (Failed h err)
  with assms show ?thesis
    by (auto simp: handler_error_def Let_def meta_frame intro!: exit_served split: if_splits)
qed (use assms in \<open>auto simp: ListenFor_def Let_def served_frame tcp_Remove_def removePeer_served exit_served
      shutdown_peers_def fold_removePeer_served shutdown_flag_def ListenFor_end_def split: if_splits prod.splits\<close>)

lemma clean_reachable_served: "clean_reachable (setup_transport codec enveloper) t \<Longrightarrow> served t"
proof (induction rule: clean_reachable.induct)
  case clean_start
  then show ?case
    by (simp add: served_def setup_transport_def SetLocalMsgFactory_def SetCodec_def NewTCPTransportWithShake_def)
qed (rule clean_run_served)

text \<open>C13. In a clean run the map of peers is exactly the set of open connections by the identity each
  announced, and every one of them is served by a goroutine that will unregister that identity.\<close>
theorem peers_are_open_connections:
  assumes "clean_reachable (setup_transport codec enveloper) t"
  shows "(map_of (peers t) k = Some c \<longleftrightarrow>
      c < length (conns t) \<and> \<not> conn_closed (conns t ! c) \<and> conn_info (conns t ! c) = k) \<and>
    (k \<in> GetTargets t \<longrightarrow> (\<exists>c. map_of (peers t) k = Some c \<and> (c, k) \<in> set (running t)))"
proof -
  have "served t" using assms by (rule clean_reachable_served)
  moreover have "k \<in> GetTargets t \<longleftrightarrow> map_of (peers t) k \<noteq> None"
    by (simp add: GetTargets_def map_of_eq_None_iff)
  ultimately show ?thesis by (auto simp: served_def)
qed

theorem peers_are_open_connections_witness:
  "map_of (peers two_peers) peer2 = Some 1 \<and> \<not> conn_closed (conns two_peers ! 1)"
proof -
  have "map_of (peers two_peers) peer2 = Some 1" by code_simp
  with peers_are_open_connections [of clear_codec "\<lambda>meta. Inr (GetEmptyEnvelope meta)" two_peers peer2 1]
    two_peers_reachable
  show ?thesis by (simp add: clear_layer_def)
qed

section \<open>Where connections are lost\<close>

text \<open>C39. The deferred \<open>removePeer\<close> of a goroutine unregisters an identity and not a connection.  After a
  clean disconnection and a new connection of the same peer, the exit of the old goroutine closes the
  new connection, while its goroutine goes on serving it.\<close>
theorem late_exit_closes_new_connection:
  "\<exists>t t'. clean_reachable clear_layer t \<and> isPeerPresent t peer1 \<and> \<not> conn_closed (conns t ! 1) \<and>
    clean t (Channel_closed (0, peer1)) \<and> layer_run (Channel_closed (0, peer1)) t = Some (Ret t') \<and>
    \<not> isPeerPresent t' peer1 \<and> conn_closed (conns t' ! 1) \<and> (1, peer1) \<in> set (running t')"
proof -
  let ?evs = "[Connect peer1 (Inr (Inr peer1)), Disconnect peer1, Connect peer1 (Inr (Inr peer1))]"
  define t where "t = the (layer_runs True clear_layer ?evs)"
  have "clean_reachable clear_layer t" unfolding t_def by (rule layer_runs_the) code_simp
  moreover have "isPeerPresent t peer1 \<and> \<not> conn_closed (conns t ! 1) \<and> clean t (Channel_closed (0, peer1)) \<and>
    (case layer_run (Channel_closed (0, peer1)) t of
       Some (Ret t') \<Rightarrow> \<not> isPeerPresent t' peer1 \<and> conn_closed (conns t' ! 1) \<and> (1, peer1) \<in> set (running t')
     | _ \<Rightarrow> False)"
    unfolding t_def by code_simp
  ultimately show ?thesis by (auto simp del: layer_run.simps split: option.splits go.splits)
qed

text \<open>\<open>Shutdown\<close> empties the map before it raises the flag.  A peer that is accepted in between stays
  connected, registered and served in a layer that is shut down; and a second connection under the
  identity of a first one leaves the first open for ever, unknown to \<open>Shutdown\<close>.\<close>
theorem shutdown_leaves_connections:
  "(\<exists>t t1 t2. clean_reachable clear_layer t \<and> shutdown_peers t = t1 \<and>
      layer_run (Accept (Inr (Inr peer2))) t1 = Some (Ret t2) \<and>
      (case shutdown_flag t2 of (t3, err) \<Rightarrow> err = None \<and> isPeerPresent t3 peer2 \<and>
         \<not> conn_closed (conns t3 ! 1) \<and> (1, peer2) \<in> set (running t3))) \<and>
   (\<exists>t. layer_reachable clear_layer t \<and> (case tcp_Shutdown t of (t', err) \<Rightarrow> err = None \<and> peers t' = [] \<and>
      \<not> conn_closed (conns t' ! 0) \<and> conn_closed (conns t' ! 1)))"
proof (intro conjI)
  show "\<exists>t t1 t2. clean_reachable clear_layer t \<and> shutdown_peers t = t1 \<and>
      layer_run (Accept (Inr (Inr peer2))) t1 = Some (Ret t2) \<and>
      (case shutdown_flag t2 of (t3, err) \<Rightarrow> err = None \<and> isPeerPresent t3 peer2 \<and>
         \<not> conn_closed (conns t3 ! 1) \<and> (1, peer2) \<in> set (running t3))"
  proof -
    define t where "t = the (layer_runs True clear_layer [Listen peer0, Connect peer1 (Inr (Inr peer1))])"
    have "clean_reachable clear_layer t" unfolding t_def by (rule layer_runs_the) code_simp
    moreover have "case layer_run (Accept (Inr (Inr peer2))) (shutdown_peers t) of
        Some (Ret t2) \<Rightarrow> (case shutdown_flag t2 of (t3, err) \<Rightarrow> err = None \<and> isPeerPresent t3 peer2 \<and>
          \<not> conn_closed (conns t3 ! 1) \<and> (1, peer2) \<in> set (running t3)) | _ \<Rightarrow> False"
      unfolding t_def by code_simp
    then obtain t2 where "layer_run (Accept (Inr (Inr peer2))) (shutdown_peers t) = Some (Ret t2)"
      "case shutdown_flag t2 of (t3, err) \<Rightarrow> err = None \<and> isPeerPresent t3 peer2 \<and>
          \<not> conn_closed (conns t3 ! 1) \<and> (1, peer2) \<in> set (running t3)"
      by (simp del: layer_run.simps split: option.splits go.splits)
    ultimately show ?thesis
      by (intro exI [of _ t] exI [of _ "shutdown_peers t"] exI [of _ t2] conjI refl)
  qed
  define t where "t = the (layer_runs False clear_layer
    [Listen peer0, Accept (Inr (Inr peer1)), Accept (Inr (Inr peer1))])"
  have "layer_reachable clear_layer t" unfolding t_def by (rule layer_runs_the) code_simp
  moreover have "case tcp_Shutdown t of (t', err) \<Rightarrow> err = None \<and> peers t' = [] \<and>
      \<not> conn_closed (conns t' ! 0) \<and> conn_closed (conns t' ! 1)"
    unfolding t_def by code_simp
  ultimately show "\<exists>t. layer_reachable clear_layer t \<and> (case tcp_Shutdown t of (t', err) \<Rightarrow> err = None \<and> peers t' = [] \<and>
      \<not> conn_closed (conns t' ! 0) \<and> conn_closed (conns t' ! 1))" by (intro exI [of _ t] conjI)
qed

end
