(* ===== verification/Wire.thy ===== *)
theory Wire
  imports Messages
begin

text \<open>
  The framing of messages on a connection, \<open>ByteStreamProcessor\<close> of \<open>p2p/peer.go\<close>: a header that
  holds the length of the message, then its bytes.  The write operation of the connection is a
  parameter; the stream a reader sees is the list of the bytes that still arrive before the other
  side closes.
\<close>

unbundle bit_operations_syntax

type_synonym byte = "8 word"

section \<open>The code\<close>

record ByteStreamProcessor =
  headerSizeByte :: "32 word"
  maxMessageByte :: "32 word"

definition GetNewStreamProcessor :: "32 word \<Rightarrow> 32 word \<Rightarrow> go_error + ByteStreamProcessor" where
  "GetNewStreamProcessor header maxMessage =
     (if header \<ge> maxMessage then Inl (Errorf ''header size should be less than max message size'')
      else Inr \<lparr>headerSizeByte = header, maxMessageByte = maxMessage\<rparr>)"

text \<open>\<open>binary.BigEndian\<close>: both operations panic on a slice of less than four bytes.\<close>

definition be_bytes :: "32 word \<Rightarrow> byte list" where
  "be_bytes v = map (\<lambda>i. ucast (drop_bit (8 * i) v)) [3, 2, 1, 0]"

definition PutUint32 :: "byte list \<Rightarrow> 32 word \<Rightarrow> byte list go" where
  "PutUint32 b v = (if length b < 4 then Panic else Ret (be_bytes v @ drop 4 b))"

definition Uint32 :: "byte list \<Rightarrow> 32 word go" where
  "Uint32 b = (if length b < 4 then Panic else
     Ret (push_bit 24 (ucast (b ! 0)) OR push_bit 16 (ucast (b ! 1)) OR
          push_bit 8 (ucast (b ! 2)) OR ucast (b ! 3)))"

definition SendByteOnStream :: "ByteStreamProcessor \<Rightarrow> ('c \<Rightarrow> byte list \<Rightarrow> 'c \<times> go_error option) \<Rightarrow>
    'c \<Rightarrow> byte list \<Rightarrow> ('c \<times> go_error option) go" where
  "SendByteOnStream b write conn bytes =
     go_bind (PutUint32 (replicate (unat (headerSizeByte b)) 0) (word_of_nat (length bytes)))
       (\<lambda>header. case write conn header of
          (conn', Some err) \<Rightarrow> Ret (conn', Some err)
        | (conn', None) \<Rightarrow> Ret (write conn' bytes))"

text \<open>\<open>io.ReadFull\<close> on the bytes that arrive.\<close>

definition ReadFull :: "byte list \<Rightarrow> nat \<Rightarrow> go_error + byte list \<times> byte list" where
  "ReadFull stream n =
     (if n \<le> length stream then Inr (take n stream, drop n stream)
      else if stream = [] then Inl (Errorf ''EOF'') else Inl (Errorf ''unexpected EOF''))"

definition too_large :: "ByteStreamProcessor \<Rightarrow> 32 word \<Rightarrow> go_error" where
  "too_large b sz = Errorf (''bytestream too large: '' @ dec_nat (unat sz) @ '' bytes (max is '' @
     dec_nat (unat (maxMessageByte b)) @ '')'')"

definition ReceiveByteFromStream ::
  "ByteStreamProcessor \<Rightarrow> byte list \<Rightarrow> (go_error + byte list \<times> byte list) go" where
  "ReceiveByteFromStream b stream =
     (case ReadFull stream (unat (headerSizeByte b)) of
        Inl err \<Rightarrow> Ret (Inl err)
      | Inr (header, rest) \<Rightarrow>
          go_bind (Uint32 header) (\<lambda>sz.
            if sz > maxMessageByte b then Ret (Inl (too_large b sz))
            else Ret (ReadFull rest (unat sz))))"

lemma Receive_shorter:
  "ReceiveByteFromStream b stream = Ret (Inr (msg, rest)) \<Longrightarrow> length rest < length stream"
  by (auto simp: ReceiveByteFromStream_def ReadFull_def go_bind_Ret_iff Uint32_def
      split: if_splits sum.splits)

text \<open>\<open>readLoop\<close>: the messages it hands to \<open>deliverMessage\<close>, in order, and the error it ends with.
  Every round consumes a header of at least four bytes.\<close>

function read_loop :: "ByteStreamProcessor \<Rightarrow> byte list \<Rightarrow> (byte list list \<times> go_error) go" where
  "read_loop b stream =
     (case ReceiveByteFromStream b stream of
        Panic \<Rightarrow> Panic
      | Hang \<Rightarrow> Hang
      | Ret (Inl err) \<Rightarrow> Ret ([], err)
      | Ret (Inr (msg, rest)) \<Rightarrow> go_bind (read_loop b rest) (\<lambda>(msgs, err). Ret (msg # msgs, err)))"
  by pat_completeness auto
termination by (relation "measure (\<lambda>(b, stream). length stream)") (auto dest: Receive_shorter)

declare read_loop.simps [simp del]

text \<open>A connection whose writes all succeed, and a sender that uses it for several messages.\<close>

definition append_write :: "byte list \<Rightarrow> byte list \<Rightarrow> byte list \<times> go_error option" where
  "append_write sent bytes = (sent @ bytes, None)"

fun send_all :: "ByteStreamProcessor \<Rightarrow> byte list \<Rightarrow> byte list list \<Rightarrow> byte list go" where
  "send_all b sent [] = Ret sent"
| "send_all b sent (msg # msgs) =
     go_bind (SendByteOnStream b append_write sent msg) (\<lambda>(sent', err). send_all b sent' msgs)"

section \<open>One frame\<close>

definition frame :: "ByteStreamProcessor \<Rightarrow> byte list \<Rightarrow> byte list" where
  "frame b msg = be_bytes (word_of_nat (length msg)) @
     replicate (unat (headerSizeByte b) - 4) 0 @ msg"

lemma length_be_bytes [simp]: "length (be_bytes v) = 4"
  by (simp add: be_bytes_def)

lemma Uint32_be_bytes [simp]: "Uint32 (be_bytes v @ xs) = Ret v"
proof -
  have "push_bit 24 (ucast (ucast (drop_bit 24 v) :: byte)) OR
        push_bit 16 (ucast (ucast (drop_bit 16 v) :: byte)) OR
        push_bit 8 (ucast (ucast (drop_bit 8 v) :: byte)) OR
        ucast (ucast v :: byte) = (v :: 32 word)"
  proof (rule bit_word_eqI)
    fix n assume "n < LENGTH(32)"
    then have "n < 8 \<or> (8 \<le> n \<and> n < 16) \<or> (16 \<le> n \<and> n < 24) \<or> (24 \<le> n \<and> n < 32)"
      by simp arith
    then show "bit (push_bit 24 (ucast (ucast (drop_bit 24 v) :: byte)) OR
        push_bit 16 (ucast (ucast (drop_bit 16 v) :: byte)) OR
        push_bit 8 (ucast (ucast (drop_bit 8 v) :: byte)) OR
        ucast (ucast v :: byte) :: 32 word) n = bit v n"
      by (elim disjE) (auto simp: bit_simps)
  qed
  then show ?thesis by (simp add: Uint32_def be_bytes_def nth_Cons')
qed

lemma SendByteOnStream_append:
  assumes "4 \<le> unat (headerSizeByte b)"
  shows "SendByteOnStream b append_write sent msg = Ret (sent @ frame b msg, None)"
  using assms
  by (simp add: SendByteOnStream_def append_write_def PutUint32_def frame_def)

lemma send_all_frames:
  assumes "4 \<le> unat (headerSizeByte b)"
  shows "send_all b sent msgs = Ret (sent @ concat (map (frame b) msgs))"
  using SendByteOnStream_append [OF assms] by (induction msgs arbitrary: sent) simp_all

lemma Receive_frame:
  assumes "4 \<le> unat (headerSizeByte b)" "length msg < 2 ^ 32"
  shows "ReceiveByteFromStream b (frame b msg @ rest) =
    (if length msg > unat (maxMessageByte b) then Ret (Inl (too_large b (word_of_nat (length msg))))
     else Ret (Inr (msg, rest)))"
  using assms
  by (simp add: ReceiveByteFromStream_def ReadFull_def frame_def word_less_nat_alt
      unat_of_nat take_bit_nat_eq_self)

section \<open>Properties\<close>

text \<open>C26. Whatever is sent over a connection, each message through \<open>SendByteOnStream\<close>, the read loop
  at the other end receives message by message with its boundaries, up to the first one that exceeds
  the maximum; that one ends the loop with the size error, and if there is none the loop ends with the
  end of the stream.  The sender is never told: all its calls succeed.\<close>
theorem framing_roundtrip:
  assumes "4 \<le> unat (headerSizeByte b)" "list_all (\<lambda>msg. length msg < 2 ^ 32) msgs"
  shows "go_bind (send_all b [] msgs) (read_loop b) =
    Ret (takeWhile (\<lambda>msg. length msg \<le> unat (maxMessageByte b)) msgs,
      case dropWhile (\<lambda>msg. length msg \<le> unat (maxMessageByte b)) msgs of
        [] \<Rightarrow> Errorf ''EOF'' | msg # _ \<Rightarrow> too_large b (word_of_nat (length msg)))"
proof -
  have "read_loop b (concat (map (frame b) msgs)) =
    Ret (takeWhile (\<lambda>msg. length msg \<le> unat (maxMessageByte b)) msgs,
      case dropWhile (\<lambda>msg. length msg \<le> unat (maxMessageByte b)) msgs of
        [] \<Rightarrow> Errorf ''EOF'' | msg # _ \<Rightarrow> too_large b (word_of_nat (length msg)))"
    using assms(2)
  proof (induction msgs)
    case Nil
    have "\<not> unat (headerSizeByte b) \<le> 0" using assms(1) by simp
    then show ?case
      by (simp add: read_loop.simps [of b "[]"] ReceiveByteFromStream_def ReadFull_def)
  next
    case (Cons msg msgs)
    then show ?case
      by (simp add: read_loop.simps [of b "frame b msg @ _"] Receive_frame [OF assms(1)])
  qed
  then show ?thesis by (simp add: send_all_frames [OF assms(1)])
qed

theorem framing_roundtrip_witness:
  "go_bind (send_all \<lparr>headerSizeByte = 4, maxMessageByte = 5\<rparr> []
      [[1, 2], [], [1, 2, 3, 4, 5, 6], [7]]) (read_loop \<lparr>headerSizeByte = 4, maxMessageByte = 5\<rparr>) =
    Ret ([[1, 2], []], too_large \<lparr>headerSizeByte = 4, maxMessageByte = 5\<rparr> 6)"
  using framing_roundtrip [of "\<lparr>headerSizeByte = 4, maxMessageByte = 5\<rparr>"
      "[[1, 2], [], [1, 2, 3, 4, 5, 6], [7]]"]
  by simp

end
