(* ===== verification/Receivers.thy ===== *)
theory Receivers
  imports Wire
begin

text \<open>
  The receive sessions of a connection, \<open>TCPPeer\<close> of \<open>p2p/peer.go\<close>.  The goroutines that share a
  peer take turns under its mutex: the callers of \<open>Receive\<close> and \<open>Close\<close>, one watcher per session,
  and the read loop.  A turn is an event; the read loop keeps the mutex while it waits for room in
  the session's channel, so that wait is part of the state (\<open>delivering\<close>).  Channels and contexts
  live in a heap and are named by their index.
\<close>

section \<open>Channels\<close>

record 'a channel =
  buffer :: "'a list"
  capacity :: nat
  closed :: bool

definition chan_make :: "nat \<Rightarrow> 'a channel" where
  "chan_make n = \<lparr>buffer = [], capacity = n, closed = False\<rparr>"

definition chan_close :: "'a channel \<Rightarrow> 'a channel go" where
  "chan_close c = (if closed c then Panic else Ret (c\<lparr>closed := True\<rparr>))"

text \<open>A send inside \<open>select\<close> with a default: dropped when there is no room.\<close>

definition chan_offer :: "'a channel \<Rightarrow> 'a \<Rightarrow> 'a channel go" where
  "chan_offer c x =
     (if closed c then Panic
      else if length (buffer c) < capacity c then Ret (c\<lparr>buffer := buffer c @ [x]\<rparr>) else Ret c)"

definition at_heap :: "'a list \<Rightarrow> nat \<Rightarrow> ('a \<Rightarrow> 'a go) \<Rightarrow> 'a list go" where
  "at_heap cs i f = go_bind (f (cs ! i)) (\<lambda>c. Ret (cs[i := c]))"

section \<open>The peer\<close>

record tcp_peer =
  streamProcessor :: ByteStreamProcessor
  remotePeerInfo :: PeerHostInfo
  closeOnce :: bool
  readOnce :: bool
  recvActive :: bool
  recvCtx :: "nat option"
  recvCancel :: "nat option"
  recvMsgCh :: "nat option"
  recvErrCh :: "nat option"
  msg_chans :: "byte list channel list"
  err_chans :: "go_error channel list"
  ctxs :: "go_error option list"
  watchers :: "nat list"
  delivering :: "byte list option"
  read_ended :: bool

definition MAX_HEADER_BYTE :: "32 word" where "MAX_HEADER_BYTE = 4"
definition MAX_MESSAGE_SIZE :: "32 word" where "MAX_MESSAGE_SIZE = 4 * 1024 * 1024"

definition NewTCPPeer :: "bool \<Rightarrow> go_error + tcp_peer" where
  "NewTCPPeer conn_given =
     (if \<not> conn_given then Inl (Errorf ''provided connection is not valid'') else
      case GetNewStreamProcessor MAX_HEADER_BYTE MAX_MESSAGE_SIZE of
        Inl err \<Rightarrow> Inl err
      | Inr processor \<Rightarrow> Inr \<lparr>streamProcessor = processor, remotePeerInfo = emptyHostInfo,
          closeOnce = False, readOnce = False, recvActive = False, recvCtx = None,
          recvCancel = None, recvMsgCh = None, recvErrCh = None, msg_chans = [], err_chans = [],
          ctxs = [], watchers = [], delivering = None, read_ended = False\<rparr>)"

definition GetPeerInfo :: "tcp_peer \<Rightarrow> PeerHostInfo" where
  "GetPeerInfo t = remotePeerInfo t"

definition SetPeerInfo :: "tcp_peer \<Rightarrow> PeerHostInfo \<Rightarrow> tcp_peer" where
  "SetPeerInfo t info = t\<lparr>remotePeerInfo := info\<rparr>"

text \<open>The first error of a context is the one it keeps.\<close>

definition end_ctx :: "tcp_peer \<Rightarrow> nat \<Rightarrow> go_error \<Rightarrow> tcp_peer" where
  "end_ctx t c err =
     t\<lparr>ctxs := (ctxs t)[c := (case ctxs t ! c of None \<Rightarrow> Some err | Some e \<Rightarrow> Some e)]\<rparr>"

definition closeSessionLocked :: "tcp_peer \<Rightarrow> go_error option \<Rightarrow> tcp_peer go" where
  "closeSessionLocked t optionalErr =
     (if \<not> recvActive t then Ret t else
      go_bind (case (optionalErr, recvErrCh t) of
          (Some err, Some e) \<Rightarrow> at_heap (err_chans t) e (\<lambda>c. chan_offer c err)
        | _ \<Rightarrow> Ret (err_chans t)) (\<lambda>errs.
      go_bind (case recvMsgCh t of
          None \<Rightarrow> Ret (msg_chans t) | Some m \<Rightarrow> at_heap (msg_chans t) m chan_close) (\<lambda>msgs.
      go_bind (case recvErrCh t of
          None \<Rightarrow> Ret errs | Some e \<Rightarrow> at_heap errs e chan_close) (\<lambda>errs'.
      Ret (t\<lparr>msg_chans := msgs, err_chans := errs', recvActive := False, recvCtx := None,
             recvCancel := None, recvMsgCh := None, recvErrCh := None\<rparr>)))))"

definition Receive :: "tcp_peer \<Rightarrow> go_error option \<Rightarrow> ((nat \<times> nat) \<times> tcp_peer) go" where
  "Receive t parentErr =
     (let c = length (ctxs t); m = length (msg_chans t); e = length (err_chans t);
          t0 = t\<lparr>readOnce := True, ctxs := ctxs t @ [parentErr],
                 msg_chans := msg_chans t @ [chan_make 16], err_chans := err_chans t @ [chan_make 1]\<rparr>
      in go_bind (if recvActive t0
             then closeSessionLocked (case recvCancel t0 of
                 None \<Rightarrow> t0 | Some k \<Rightarrow> end_ctx t0 k (Errorf ''context canceled'')) None
             else Ret t0) (\<lambda>t1.
         Ret ((m, e), t1\<lparr>recvActive := True, recvCtx := Some c, recvCancel := Some c,
           recvMsgCh := Some m, recvErrCh := Some e, watchers := c # watchers t1\<rparr>)))"

text \<open>The watcher of the context \<open>c\<close>, once that is done.\<close>

definition watcher_wakes :: "tcp_peer \<Rightarrow> nat \<Rightarrow> tcp_peer go" where
  "watcher_wakes t c =
     go_bind (if recvActive t \<and> recvCtx t = Some c then closeSessionLocked t (ctxs t ! c) else Ret t)
       (\<lambda>t'. Ret (t'\<lparr>watchers := remove1 c (watchers t')\<rparr>))"

text \<open>\<open>deliverMessage\<close> up to its second \<open>select\<close>, and the two cases of that.\<close>

definition deliverMessage :: "tcp_peer \<Rightarrow> byte list \<Rightarrow> tcp_peer go" where
  "deliverMessage t msg =
     (if \<not> recvActive t \<or> recvMsgCh t = None then Ret t
      else case recvCtx t of
          None \<Rightarrow> Panic
        | Some c \<Rightarrow> (case ctxs t ! c of
            Some err \<Rightarrow> closeSessionLocked t (Some err)
          | None \<Rightarrow> Ret (t\<lparr>delivering := Some msg\<rparr>)))"

definition deliver_ready :: "tcp_peer \<Rightarrow> bool" where
  "deliver_ready t = (case recvMsgCh t of
       None \<Rightarrow> False
     | Some m \<Rightarrow> closed (msg_chans t ! m) \<or>
         length (buffer (msg_chans t ! m)) < capacity (msg_chans t ! m))"

definition deliver_send :: "tcp_peer \<Rightarrow> byte list \<Rightarrow> tcp_peer go" where
  "deliver_send t msg =
     go_bind (at_heap (msg_chans t) (the (recvMsgCh t)) (\<lambda>c. chan_offer c msg))
       (\<lambda>msgs. Ret (t\<lparr>msg_chans := msgs, delivering := None\<rparr>))"

definition deliver_done :: "tcp_peer \<Rightarrow> tcp_peer go" where
  "deliver_done t =
     go_bind (closeSessionLocked t (ctxs t ! the (recvCtx t))) (\<lambda>t'. Ret (t'\<lparr>delivering := None\<rparr>))"

definition handleReadError :: "tcp_peer \<Rightarrow> go_error \<Rightarrow> tcp_peer go" where
  "handleReadError t err =
     (case (recvActive t, recvErrCh t) of
        (True, Some e) \<Rightarrow>
          go_bind (at_heap (err_chans t) e (\<lambda>c. chan_offer c err)) (\<lambda>errs.
            closeSessionLocked (t\<lparr>err_chans := errs\<rparr>) None)
      | _ \<Rightarrow> Ret t)"

definition peer_Close :: "tcp_peer \<Rightarrow> tcp_peer go" where
  "peer_Close t =
     (if closeOnce t then Ret t
      else go_bind (closeSessionLocked t None) (\<lambda>t'. Ret (t'\<lparr>closeOnce := True\<rparr>)))"

section \<open>Events\<close>

datatype recv_event =
    Call_Receive "go_error option"
  | Call_Close
  | Wake nat
  | Arrive "byte list"
  | Delivered
  | Gave_up
  | Read_error go_error
  | End_context nat go_error
  | Take nat

text \<open>What an event does, or \<open>None\<close> where it cannot happen: everything that locks the mutex waits
  for the delivery in progress.\<close>

fun recv_run :: "recv_event \<Rightarrow> tcp_peer \<Rightarrow> tcp_peer go option" where
  "recv_run (Call_Receive parentErr) t = (if delivering t \<noteq> None then None
     else Some (go_bind (Receive t parentErr) (\<lambda>(chs, t'). Ret t')))"
| "recv_run Call_Close t = (if delivering t \<noteq> None then None else Some (peer_Close t))"
| "recv_run (Wake c) t = (if delivering t \<noteq> None \<or> c \<notin> set (watchers t) \<or> ctxs t ! c = None then None
     else Some (watcher_wakes t c))"
| "recv_run (Arrive msg) t = (if delivering t \<noteq> None \<or> \<not> readOnce t \<or> read_ended t then None
     else Some (deliverMessage t msg))"
| "recv_run Delivered t = (case delivering t of None \<Rightarrow> None
     | Some msg \<Rightarrow> if deliver_ready t then Some (deliver_send t msg) else None)"
| "recv_run Gave_up t = (if delivering t \<noteq> None \<and> ctxs t ! the (recvCtx t) \<noteq> None
     then Some (deliver_done t) else None)"
| "recv_run (Read_error err) t = (if delivering t \<noteq> None \<or> \<not> readOnce t \<or> read_ended t then None
     else Some (go_bind (handleReadError t err) (\<lambda>t'. Ret (t'\<lparr>read_ended := True\<rparr>))))"
| "recv_run (End_context c err) t = (if c < length (ctxs t) then Some (Ret (end_ctx t c err)) else None)"
| "recv_run (Take i) t = (if i < length (msg_chans t) \<and> buffer (msg_chans t ! i) \<noteq> []
     then Some (Ret (t\<lparr>msg_chans := (msg_chans t)[i := (msg_chans t ! i)
        \<lparr>buffer := tl (buffer (msg_chans t ! i))\<rparr>]\<rparr>)) else None)"

inductive recv_reachable :: "tcp_peer \<Rightarrow> bool" where
  recv_start: "NewTCPPeer True = Inr t \<Longrightarrow> recv_reachable t"
| recv_next: "recv_reachable t \<Longrightarrow> recv_run ev t = Some (Ret t') \<Longrightarrow> recv_reachable t'"


section \<open>The invariant\<close>

text \<open>The current channel is the only open one.\<close>

definition only_open :: "'a channel list \<Rightarrow> nat option \<Rightarrow> bool" where
  "only_open cs cur \<longleftrightarrow> (\<forall>i<length cs. closed (cs ! i) \<longleftrightarrow> cur \<noteq> Some i) \<and>
     (\<forall>i. cur = Some i \<longrightarrow> i < length cs)"

definition recv_core :: "tcp_peer \<Rightarrow> bool" where
  "recv_core t \<longleftrightarrow> only_open (msg_chans t) (recvMsgCh t) \<and> only_open (err_chans t) (recvErrCh t) \<and>
     (if recvActive t then recvMsgCh t \<noteq> None \<and> recvErrCh t \<noteq> None \<and>
          (\<exists>c<length (ctxs t). recvCtx t = Some c \<and> recvCancel t = Some c)
      else recvMsgCh t = None \<and> recvErrCh t = None \<and> recvCtx t = None \<and> recvCancel t = None)"

definition recv_ok :: "tcp_peer \<Rightarrow> bool" where
  "recv_ok t \<longleftrightarrow> recv_core t \<and> (delivering t \<noteq> None \<longrightarrow> recvActive t)"

definition close_all :: "'a channel list \<Rightarrow> 'a channel list" where
  "close_all cs = map (\<lambda>c. c\<lparr>closed := True\<rparr>) cs"

lemma closed_self: "closed c \<Longrightarrow> c\<lparr>closed := True\<rparr> = c"
  by (cases c) simp

lemma only_open_close:
  "only_open cs (Some i) \<Longrightarrow> at_heap cs i chan_close = Ret (close_all cs)"
  by (auto simp: only_open_def at_heap_def chan_close_def close_all_def nth_list_update closed_self
      intro!: nth_equalityI)

lemma only_open_None: "only_open cs None \<Longrightarrow> close_all cs = cs"
  by (auto simp: only_open_def close_all_def closed_self intro!: nth_equalityI)

lemma only_open_close_all [simp]: "only_open (close_all cs) None"
  by (auto simp: only_open_def close_all_def)

lemma length_close_all [simp]: "length (close_all cs) = length cs"
  by (simp add: close_all_def)

lemma only_open_offer:
  "only_open cs (Some i) \<Longrightarrow> \<exists>cs'. at_heap cs i (\<lambda>c. chan_offer c x) = Ret cs' \<and> only_open cs' (Some i)"
  by (auto simp: only_open_def at_heap_def chan_offer_def nth_list_update)

lemma only_open_snoc:
  "only_open cs None \<Longrightarrow> n = length cs \<Longrightarrow> only_open (cs @ [chan_make k]) (Some n)"
  by (auto simp: only_open_def nth_append chan_make_def less_Suc_eq)

lemma only_open_taken:
  "only_open cs cur \<Longrightarrow> i < length cs \<Longrightarrow> only_open (cs[i := (cs ! i)\<lparr>buffer := b\<rparr>]) cur"
  by (auto simp: only_open_def nth_list_update)

lemma only_open_make:
  "at_heap (cs @ [chan_make k]) i f = go_bind (at_heap cs i f) (\<lambda>cs'. Ret (cs' @ [chan_make k]))"
  if "i < length cs"
  using that by (cases "f (cs ! i)") (simp_all add: at_heap_def nth_append list_update_append)

text \<open>Closing the session closes every channel that is open and touches no buffer of messages.\<close>

lemma closeSessionLocked_ok:
  assumes "recv_core t"
  obtains t' where "closeSessionLocked t err = Ret t'" "recv_core t'" "\<not> recvActive t'"
    "msg_chans t' = close_all (msg_chans t)" "delivering t' = delivering t" "ctxs t' = ctxs t"
    "watchers t' = watchers t" "length (err_chans t') = length (err_chans t)"
proof (cases "recvActive t")
  case False
  with assms have "only_open (msg_chans t) None" by (auto simp: recv_core_def)
  with assms False show ?thesis
    by (intro that [of t]) (simp_all add: closeSessionLocked_def only_open_None)
next
  case True
  with assms obtain m e where cur: "recvMsgCh t = Some m" "recvErrCh t = Some e"
    "only_open (msg_chans t) (Some m)" "only_open (err_chans t) (Some e)"
    by (auto simp: recv_core_def)
  obtain es where es: "(case err of None \<Rightarrow> Ret (err_chans t)
      | Some x \<Rightarrow> at_heap (err_chans t) e (\<lambda>c. chan_offer c x)) = Ret es" "only_open es (Some e)"
    and len: "length es = length (err_chans t)"
  proof (cases err)
    case (Some x)
    with only_open_offer [OF cur(4), of x] that show ?thesis
      by (auto simp: at_heap_def go_bind_Ret_iff)
  qed (use cur that in auto)
  show ?thesis
    by (rule that [of "t\<lparr>msg_chans := close_all (msg_chans t), err_chans := close_all es,
          recvActive := False, recvCtx := None, recvCancel := None, recvMsgCh := None,
          recvErrCh := None\<rparr>"])
      (use True cur es len in \<open>simp_all add: closeSessionLocked_def recv_core_def only_open_close
          split: option.splits\<close>)
qed


lemma end_ctx_core: "recv_core t \<Longrightarrow> recv_core (end_ctx t c err)"
  by (simp add: recv_core_def end_ctx_def)

lemma end_ctx_frame [simp]:
  "recvActive (end_ctx t c err) = recvActive t" "msg_chans (end_ctx t c err) = msg_chans t"
  "delivering (end_ctx t c err) = delivering t" "length (ctxs (end_ctx t c err)) = length (ctxs t)"
  "err_chans (end_ctx t c err) = err_chans t" "recvMsgCh (end_ctx t c err) = recvMsgCh t"
  "recvErrCh (end_ctx t c err) = recvErrCh t"
  by (simp_all add: end_ctx_def)

lemma recv_core_more:
  "recv_core t \<Longrightarrow> recvActive t \<Longrightarrow> recv_core (t\<lparr>ctxs := ctxs t @ cs\<rparr>)"
  by (auto simp: recv_core_def)

text \<open>Closing a session after the slices have grown is closing it before.\<close>

lemma closeSessionLocked_grown:
  assumes "recv_core t" "recvActive t" "closeSessionLocked t None = Ret t'"
  shows "closeSessionLocked (t\<lparr>readOnce := True, ctxs := ctxs t @ [p],
      msg_chans := msg_chans t @ [chan_make a], err_chans := err_chans t @ [chan_make b]\<rparr>) None =
    Ret (t'\<lparr>readOnce := True, ctxs := ctxs t' @ [p],
      msg_chans := msg_chans t' @ [chan_make a], err_chans := err_chans t' @ [chan_make b]\<rparr>)"
  using assms
  by (auto simp: closeSessionLocked_def recv_core_def only_open_def only_open_make go_bind_Ret_iff
      split: option.splits)

text \<open>\<open>Receive\<close> starts on an empty channel and closes the other ones as they are.\<close>

lemma Receive_ok:
  assumes "recv_core t"
  obtains t' where "Receive t parentErr = Ret ((length (msg_chans t), length (err_chans t)), t')"
    "recv_core t'" "recvActive t'" "delivering t' = delivering t"
    "msg_chans t' = close_all (msg_chans t) @ [chan_make 16]"
    "recvMsgCh t' = Some (length (msg_chans t))" "read_ended t' = read_ended t"
proof -
  define t0 where "t0 = (case recvCancel t of None \<Rightarrow> t
    | Some k \<Rightarrow> end_ctx t k (Errorf ''context canceled''))"
  have "recv_core t0"
    using assms by (auto simp: t0_def end_ctx_core split: option.split)
  then have t0: "recv_core t0" "msg_chans t0 = msg_chans t" "delivering t0 = delivering t"
    "length (err_chans t0) = length (err_chans t)" "length (ctxs t0) = length (ctxs t)"
    "recvActive t0 = recvActive t" "read_ended t0 = read_ended t"
    by (auto simp: t0_def end_ctx_def split: option.splits)
  let ?grow = "\<lambda>t. t\<lparr>readOnce := True, ctxs := ctxs t @ [parentErr],
    msg_chans := msg_chans t @ [chan_make 16], err_chans := err_chans t @ [chan_make 1]\<rparr>"
  obtain t1 where t1: "closeSessionLocked t0 None = Ret t1" "recv_core t1" "\<not> recvActive t1"
    "msg_chans t1 = close_all (msg_chans t0)" "delivering t1 = delivering t0"
    "ctxs t1 = ctxs t0" "length (err_chans t1) = length (err_chans t0)"
    using closeSessionLocked_ok [OF t0(1), of None] by metis
  have r1: "read_ended t1 = read_ended t0"
    using t1(1) by (auto simp: closeSessionLocked_def go_bind_Ret_iff split: if_splits)
  have "(if recvActive (?grow t)
         then closeSessionLocked (case recvCancel (?grow t) of None \<Rightarrow> ?grow t
           | Some k \<Rightarrow> end_ctx (?grow t) k (Errorf ''context canceled'')) None
         else Ret (?grow t)) = Ret (?grow t1)"
  proof (cases "recvActive t")
    case True
    then obtain k where "recvCancel t = Some k" "k < length (ctxs t)"
      using assms by (auto simp: recv_core_def)
    then have "(case recvCancel (?grow t) of None \<Rightarrow> ?grow t
        | Some k \<Rightarrow> end_ctx (?grow t) k (Errorf ''context canceled'')) = ?grow t0"
      by (simp add: t0_def end_ctx_def nth_append list_update_append)
    with True show ?thesis
      using closeSessionLocked_grown [OF t0(1) _ t1(1)] t0(6) by simp
  next
    case False
    with assms have "t0 = t" by (simp add: t0_def recv_core_def)
    with False t1(1) show ?thesis by (simp add: closeSessionLocked_def)
  qed
  then have "Receive t parentErr = Ret ((length (msg_chans t), length (err_chans t)),
      (?grow t1)\<lparr>recvActive := True, recvCtx := Some (length (ctxs t)),
        recvCancel := Some (length (ctxs t)), recvMsgCh := Some (length (msg_chans t)),
        recvErrCh := Some (length (err_chans t)), watchers := length (ctxs t) # watchers (?grow t1)\<rparr>)"
    by (simp only: Receive_def Let_def go_bind.simps)
  then show ?thesis
  proof (rule that)
    have "only_open (msg_chans t1) None" "only_open (err_chans t1) None"
      using t1(2,3) by (auto simp: recv_core_def)
    then show "recv_core ((?grow t1)\<lparr>recvActive := True, recvCtx := Some (length (ctxs t)),
        recvCancel := Some (length (ctxs t)), recvMsgCh := Some (length (msg_chans t)),
        recvErrCh := Some (length (err_chans t)), watchers := length (ctxs t) # watchers (?grow t1)\<rparr>)"
      using t0 t1 by (simp add: recv_core_def only_open_snoc)
  qed (use t0 t1 r1 in simp_all)
qed


lemma recv_ok_start: "NewTCPPeer True = Inr t \<Longrightarrow> recv_ok t"
  by (auto simp: NewTCPPeer_def recv_ok_def recv_core_def only_open_def split: sum.splits)

lemma closes_ok:
  assumes "recv_core t" "delivering t = None"
  shows "\<exists>t'. closeSessionLocked t err = Ret t' \<and> recv_ok t'"
  using closeSessionLocked_ok [OF assms(1), of err] assms(2) by (metis recv_ok_def)

lemma recv_core_frame [simp]:
  "recv_core (t\<lparr>closeOnce := a\<rparr>) = recv_core t" "recv_core (t\<lparr>watchers := ws\<rparr>) = recv_core t"
  "recv_core (t\<lparr>delivering := d\<rparr>) = recv_core t" "recv_core (t\<lparr>read_ended := b\<rparr>) = recv_core t"
  by (simp_all add: recv_core_def)

lemma recv_ok_frame [simp]:
  "recv_ok (t\<lparr>closeOnce := a\<rparr>) = recv_ok t" "recv_ok (t\<lparr>watchers := ws\<rparr>) = recv_ok t"
  "recv_ok (t\<lparr>read_ended := b\<rparr>) = recv_ok t"
  by (simp_all add: recv_ok_def)

lemma recv_core_taken:
  "recv_core t \<Longrightarrow> i < length (msg_chans t) \<Longrightarrow>
   recv_core (t\<lparr>msg_chans := (msg_chans t)[i := (msg_chans t ! i)\<lparr>buffer := b\<rparr>]\<rparr>)"
  by (simp add: recv_core_def only_open_taken)

lemma recv_current:
  assumes "recv_ok t" "recvActive t"
  obtains m e c where "recvMsgCh t = Some m" "recvErrCh t = Some e" "recvCtx t = Some c"
    "only_open (msg_chans t) (Some m)" "only_open (err_chans t) (Some e)"
  using assms by (auto simp: recv_ok_def recv_core_def)

text \<open>Every event that can happen does so without a panic and keeps the invariant.\<close>

lemma recv_run_ok:
  assumes ok: "recv_ok t" and run: "recv_run ev t = Some r"
  shows "\<exists>t'. r = Ret t' \<and> recv_ok t'"
proof -
  have core: "recv_core t" using ok by (simp add: recv_ok_def)
  show ?thesis
  proof (cases ev)
    case (Call_Receive p)
    with run show ?thesis
      by - (rule Receive_ok [OF core, of p], auto simp: recv_ok_def split: if_splits)
  next
    case Call_Close
    with run ok closes_ok [OF core, of None] show ?thesis
      by (auto simp: peer_Close_def split: if_splits)
  next
    case (Wake c)
    with run ok closes_ok [OF core, of "ctxs t ! c"] show ?thesis
      by (auto simp: watcher_wakes_def split: if_splits)
  next
    case (Arrive msg)
    show ?thesis
    proof (cases "recvActive t")
      case True
      with recv_current [OF ok] obtain m c where "recvMsgCh t = Some m" "recvCtx t = Some c"
        by metis
      with Arrive run ok True closes_ok [OF core, of "ctxs t ! c"] core show ?thesis
        by (auto simp: deliverMessage_def recv_ok_def split: if_splits option.splits)
    qed (use Arrive run ok in \<open>auto simp: deliverMessage_def split: if_splits\<close>)
  next
    case Delivered
    then obtain msg where d: "delivering t = Some msg" "r = deliver_send t msg"
      using run by (auto split: option.splits if_splits)
    then have "recvActive t" using ok by (simp add: recv_ok_def)
    then obtain m where m: "recvMsgCh t = Some m" "only_open (msg_chans t) (Some m)"
      using recv_current [OF ok] by metis
    then show ?thesis
      using only_open_offer [OF m(2), of msg] d core \<open>recvActive t\<close>
      by (auto simp: deliver_send_def recv_ok_def recv_core_def)
  next
    case Gave_up
    then have "r = deliver_done t" using run by (auto split: if_splits)
    then show ?thesis
      by - (rule closeSessionLocked_ok [OF core, of "ctxs t ! the (recvCtx t)"],
        auto simp: deliver_done_def recv_ok_def)
  next
    case (Read_error err)
    show ?thesis
    proof (cases "recvActive t")
      case True
      with recv_current [OF ok] obtain e where e: "recvErrCh t = Some e"
        "only_open (err_chans t) (Some e)" by metis
      then obtain es where es: "at_heap (err_chans t) e (\<lambda>c. chan_offer c err) = Ret es"
        "only_open es (Some e)" using only_open_offer [OF e(2), of err] by blast
      have idle: "delivering t = None" using Read_error run by (simp split: if_splits)
      have "recv_core (t\<lparr>err_chans := es\<rparr>)" using core True e es by (simp add: recv_core_def)
      then obtain t' where t': "closeSessionLocked (t\<lparr>err_chans := es\<rparr>) None = Ret t'" "recv_ok t'"
        using closes_ok [of "t\<lparr>err_chans := es\<rparr>" None] idle by auto
      have "handleReadError t err = Ret t'"
        using True e(1) es(1) t'(1) by (simp add: handleReadError_def)
      then have "r = Ret (t'\<lparr>read_ended := True\<rparr>)" using Read_error run by (simp split: if_splits)
      with t'(2) show ?thesis by simp
    qed (use Read_error run ok in \<open>auto simp: handleReadError_def split: if_splits\<close>)
  next
    case (End_context c err)
    with run ok show ?thesis
      by (auto simp: recv_ok_def end_ctx_core split: if_splits)
  next
    case (Take i)
    with run have "r = Ret (t\<lparr>msg_chans := (msg_chans t)[i := (msg_chans t ! i)
        \<lparr>buffer := tl (buffer (msg_chans t ! i))\<rparr>]\<rparr>)" "i < length (msg_chans t)"
      by (simp_all split: if_splits)
    with ok show ?thesis by (simp add: recv_ok_def recv_core_taken)
  qed
qed

lemma recv_reachable_ok: "recv_reachable t \<Longrightarrow> recv_ok t"
proof (induction rule: recv_reachable.induct)
  case (recv_next t ev t')
  then show ?case using recv_run_ok by fastforce
qed (rule recv_ok_start)

section \<open>Properties\<close>

text \<open>C24. However the callers, the watchers and the read loop take turns, no event panics: no channel
  is closed twice or sent on after it was closed, and no nil channel or context is used.  At every
  moment at most one channel of messages is open.\<close>
theorem receive_sessions_safe:
  assumes "recv_reachable t"
  shows "recv_run ev t \<noteq> Some Panic \<and>
    (\<forall>i j. i < length (msg_chans t) \<and> j < length (msg_chans t) \<and>
       \<not> closed (msg_chans t ! i) \<and> \<not> closed (msg_chans t ! j) \<longrightarrow> i = j)"
proof
  show "recv_run ev t \<noteq> Some Panic"
    using recv_run_ok [OF recv_reachable_ok [OF assms], of ev] by blast
  have "only_open (msg_chans t) (recvMsgCh t)"
    using recv_reachable_ok [OF assms] by (simp add: recv_ok_def recv_core_def)
  then show "\<forall>i j. i < length (msg_chans t) \<and> j < length (msg_chans t) \<and>
       \<not> closed (msg_chans t ! i) \<and> \<not> closed (msg_chans t ! j) \<longrightarrow> i = j"
    by (auto simp: only_open_def)
qed

text \<open>A new session starts with an empty channel: the messages that arrived under the previous
  one and were not taken yet stay behind in channels that are closed, so a reader that only looks at
  the new channel has lost them.\<close>
theorem Receive_leaves_messages:
  assumes "recv_reachable t" "Receive t parentErr = Ret ((m, e), t')"
  shows "msg_chans t' = map (\<lambda>c. c\<lparr>closed := True\<rparr>) (msg_chans t) @
      [\<lparr>buffer = [], capacity = 16, closed = False\<rparr>] \<and> m = length (msg_chans t) \<and>
    recvMsgCh t' = Some m"
proof -
  have "recv_core t" using recv_reachable_ok [OF assms(1)] by (simp add: recv_ok_def)
  then show ?thesis
    by (rule Receive_ok [of _ parentErr]) (use assms(2) in \<open>simp add: close_all_def chan_make_def\<close>)
qed


section \<open>Runs\<close>

text \<open>A run of several events from a new peer, for the concrete cases.\<close>

definition new_peer :: tcp_peer where
  "new_peer = (case NewTCPPeer True of Inr t \<Rightarrow> t)"

fun recv_runs :: "recv_event list \<Rightarrow> tcp_peer \<Rightarrow> tcp_peer option" where
  "recv_runs [] t = Some t"
| "recv_runs (ev # evs) t = (case recv_run ev t of Some (Ret t') \<Rightarrow> recv_runs evs t' | _ \<Rightarrow> None)"

lemma NewTCPPeer_new_peer: "NewTCPPeer True = Inr new_peer"
  by (simp add: new_peer_def NewTCPPeer_def GetNewStreamProcessor_def MAX_HEADER_BYTE_def
      MAX_MESSAGE_SIZE_def)

lemma recv_runs_reachable:
  "recv_reachable t \<Longrightarrow> recv_runs evs t = Some t' \<Longrightarrow> recv_reachable t'"
  by (induction evs arbitrary: t) (auto split: option.splits go.splits intro: recv_next)

lemma new_peer_runs: "recv_runs evs new_peer = Some t \<Longrightarrow> recv_reachable t"
  using recv_runs_reachable recv_start [OF NewTCPPeer_new_peer] by blast

text \<open>Two messages arrive in the first session, and the reader takes only one of them.\<close>

definition two_arrivals :: tcp_peer where
  "two_arrivals = the (recv_runs [Call_Receive None, Arrive [1], Delivered, Take 0, Arrive [2],
     Delivered] new_peer)"

lemma two_arrivals_reachable: "recv_reachable two_arrivals"
proof -
  have "recv_runs [Call_Receive None, Arrive [1], Delivered, Take 0, Arrive [2], Delivered] new_peer
      = Some two_arrivals"
    unfolding two_arrivals_def by code_simp
  then show ?thesis by (rule new_peer_runs)
qed

theorem receive_sessions_safe_witness:
  "recv_run Call_Close two_arrivals \<noteq> Some Panic \<and> \<not> closed (msg_chans two_arrivals ! 0)"
proof
  show "recv_run Call_Close two_arrivals \<noteq> Some Panic"
    using receive_sessions_safe [OF two_arrivals_reachable] by blast
  show "\<not> closed (msg_chans two_arrivals ! 0)" by code_simp
qed

theorem Receive_leaves_messages_witness:
  "case Receive two_arrivals None of
     Ret ((m, e), t) \<Rightarrow> msg_chans t =
       [\<lparr>buffer = [[2]], capacity = 16, closed = True\<rparr>,
        \<lparr>buffer = [], capacity = 16, closed = False\<rparr>] \<and> m = 1
   | _ \<Rightarrow> False"
proof -
  obtain t m e where r: "Receive two_arrivals None = Ret ((m, e), t)"
    by (rule Receive_ok [of two_arrivals None])
      (use recv_reachable_ok [OF two_arrivals_reachable] in \<open>simp_all add: recv_ok_def\<close>)
  have "msg_chans two_arrivals = [\<lparr>buffer = [[2]], capacity = 16, closed = False\<rparr>]"
    by code_simp
  with r Receive_leaves_messages [OF two_arrivals_reachable r] show ?thesis by simp
qed

text \<open>A reader that stops taking messages.\<close>

definition crowded :: tcp_peer where
  "crowded = the (recv_runs (Call_Receive None #
     concat (replicate 16 [Arrive [7], Delivered]) @ [Arrive [7]]) new_peer)"

lemma crowded_reachable: "recv_reachable crowded"
proof -
  have "recv_runs (Call_Receive None # concat (replicate 16 [Arrive [7], Delivered]) @ [Arrive [7]])
      new_peer = Some crowded"
    unfolding crowded_def by code_simp
  then show ?thesis by (rule new_peer_runs)
qed

text \<open>C40. The read loop holds the mutex while it waits for room.  Once seventeen messages have come in
  and none was taken, \<open>Close\<close>, \<open>Receive\<close> and the watchers all wait for it, and only a reader of the
  channel or the end of the session's context can set things going: a reader that calls \<open>Close\<close>
  instead waits for itself.\<close>
theorem full_channel_blocks_Close:
  "\<exists>t. recv_reachable t \<and> recv_run Call_Close t = None \<and>
     (\<forall>ev. case ev of Take i \<Rightarrow> True | End_context c err \<Rightarrow> True | _ \<Rightarrow> recv_run ev t = None)"
proof (intro exI conjI allI)
  show "recv_reachable crowded" by (rule crowded_reachable)
  have d: "delivering crowded = Some [7]" by code_simp
  have r: "\<not> deliver_ready crowded" by code_simp
  have c: "ctxs crowded ! the (recvCtx crowded) = None" by code_simp
  show "recv_run Call_Close crowded = None" using d by simp
  fix ev
  show "case ev of Take i \<Rightarrow> True | End_context c err \<Rightarrow> True | _ \<Rightarrow> recv_run ev crowded = None"
    using d r c by (cases ev) simp_all
qed

end
