(* ===== verification/Broker.thy ===== *)
theory Broker
  imports Receivers
begin

text \<open>
  Sessions and the message broker, \<open>p2p/session.go\<close>.  Sessions are shared between the broker's map and
  the goroutines that hold them, so they live in a heap (\<open>sessions\<close>) and are named by their index.
  What a goroutine does between two operations on a lock is one operation of the model; delivering a
  message takes two, since the broker lets go of its lock before it sends on the session's channel.
  Handlers are values of a type parameter \<open>'h\<close>: the broker only counts and starts them.
\<close>

section \<open>The code\<close>

definition NEW_MSG_SEQUENCE :: SeqNo where "NEW_MSG_SEQUENCE = 0"
definition INITIATED_MSG_SEQUENCE :: SeqNo where "INITIATED_MSG_SEQUENCE = 1"

datatype SessionRole = SessionInitiator | SessionReceiver

record 'p PeerMessageSession =
  sess_Id :: string
  sess_topic :: string
  Recv :: "'p PeerMessage channel"
  CurrentSeqNo :: SeqNo
  isClosed :: bool

record ('p, 'h) PeerMessageBroker =
  handlers :: "(string \<times> 'h list) list"
  consumers :: "(string \<times> nat) list"
  stopped :: bool
  started :: bool
  cancelled :: bool
  QueueSize :: nat
  sessions :: "'p PeerMessageSession list"

definition NewPeerMessageBroker :: "nat \<Rightarrow> ('p, 'h) PeerMessageBroker" where
  "NewPeerMessageBroker queueSize = \<lparr>handlers = [], consumers = [], stopped = False, started = False,
     cancelled = False, QueueSize = queueSize, sessions = []\<rparr>"

abbreviation update_session ::
  "('p, 'h) PeerMessageBroker \<Rightarrow> nat \<Rightarrow> 'p PeerMessageSession \<Rightarrow> ('p, 'h) PeerMessageBroker" where
  "update_session mb i s \<equiv> mb\<lparr>sessions := (sessions mb)[i := s]\<rparr>"

definition GetTopic :: "('p, 'h) PeerMessageBroker \<Rightarrow> nat \<Rightarrow> string" where
  "GetTopic mb i = sess_topic (sessions mb ! i)"

definition setupSendingMsg :: "('p, 'h) PeerMessageBroker \<Rightarrow> nat \<Rightarrow> 'p PeerMessage \<Rightarrow>
    ('p, 'h) PeerMessageBroker \<times> (go_error + 'p PeerMessage)" where
  "setupSendingMsg mb i data =
     (let s = sessions mb ! i
      in if isClosed s then (mb, Inl (Errorf ''session was already closed''))
         else (update_session mb i (s\<lparr>CurrentSeqNo := CurrentSeqNo s + 1\<rparr>),
           Inr (data\<lparr>Key := (Key data)\<lparr>session_fields :=
             \<lparr>TopicName = sess_topic s, SessionId = sess_Id s, SeqNo = CurrentSeqNo s\<rparr>\<rparr>\<rparr>)))"

text \<open>\<open>Send\<close> and \<open>Broadcast\<close> hand the message to the transport, a parameter with a state of its own.\<close>

definition session_Send :: "('c \<Rightarrow> 'p PeerMessage \<Rightarrow> PeerHostInfo \<Rightarrow> 'c \<times> go_error option) \<Rightarrow> 'c \<Rightarrow>
    ('p, 'h) PeerMessageBroker \<Rightarrow> nat \<Rightarrow> 'p PeerMessage \<Rightarrow> PeerHostInfo \<Rightarrow>
    'c \<times> ('p, 'h) PeerMessageBroker \<times> go_error option" where
  "session_Send transport c mb i data target =
     (case setupSendingMsg mb i data of
        (mb', Inl err) \<Rightarrow> (c, mb', Some err)
      | (mb', Inr data') \<Rightarrow> (let (c', err) = transport c data' target in (c', mb', err)))"

definition session_Broadcast :: "('c \<Rightarrow> 'p PeerMessage \<Rightarrow> 'c \<times> go_error option) \<Rightarrow> 'c \<Rightarrow>
    ('p, 'h) PeerMessageBroker \<Rightarrow> nat \<Rightarrow> 'p PeerMessage \<Rightarrow>
    'c \<times> ('p, 'h) PeerMessageBroker \<times> go_error option" where
  "session_Broadcast transport c mb i data =
     (case setupSendingMsg mb i data of
        (mb', Inl err) \<Rightarrow> (c, mb', Some err)
      | (mb', Inr data') \<Rightarrow> (let (c', err) = transport c data' in (c', mb', err)))"

definition out_of_order :: "string \<Rightarrow> go_error" where
  "out_of_order t = Errorf (''message for topic '' @ t @ '' was received out of order, proceed to drop it'')"

text \<open>\<open>WaitOn\<close> with the context's error if that ended; \<open>None\<close> where it goes on waiting.  When a message
  is there and the context has ended too, Go may choose either: the two calls of the model.\<close>

definition WaitOn :: "('p, 'h) PeerMessageBroker \<Rightarrow> nat \<Rightarrow> go_error option \<Rightarrow>
    (('p, 'h) PeerMessageBroker \<times> (go_error + 'p PeerMessage)) option" where
  "WaitOn mb i ctxErr =
     (let s = sessions mb ! i
      in if isClosed s then Some (mb, Inl (Errorf ''session was already closed''))
         else case ctxErr of
             Some err \<Rightarrow> Some (mb, Inl err)
           | None \<Rightarrow> (case buffer (Recv s) of
               [] \<Rightarrow> if closed (Recv s) then Some (mb, Inl (Errorf ''session was already closed'')) else None
             | msg # msgs \<Rightarrow>
                 Some (update_session mb i (s\<lparr>Recv := (Recv s)\<lparr>buffer := msgs\<rparr>\<rparr>),
                   if msg_seq msg \<noteq> CurrentSeqNo s then Inl (out_of_order (sess_topic s)) else Inr msg)))"

definition removeSession :: "('p, 'h) PeerMessageBroker \<Rightarrow> string \<Rightarrow> ('p, 'h) PeerMessageBroker" where
  "removeSession mb ident = mb\<lparr>consumers := AList.delete ident (consumers mb)\<rparr>"

definition session_Close :: "('p, 'h) PeerMessageBroker \<Rightarrow> nat \<Rightarrow> ('p, 'h) PeerMessageBroker go" where
  "session_Close mb i =
     (let s = sessions mb ! i
      in if isClosed s then Ret mb
         else go_bind (chan_close (Recv s)) (\<lambda>ch.
           Ret (removeSession (update_session mb i (s\<lparr>isClosed := True, Recv := ch\<rparr>)) (sess_Id s))))"

definition RegisterHandler ::
  "('p, 'h) PeerMessageBroker \<Rightarrow> string \<Rightarrow> 'h \<Rightarrow> ('p, 'h) PeerMessageBroker" where
  "RegisterHandler mb topic handler =
     (if stopped mb then mb
      else mb\<lparr>handlers := AList.update topic
        (case_option [] id (map_of (handlers mb) topic) @ [handler]) (handlers mb)\<rparr>)"

definition createSessionLocked :: "('p, 'h) PeerMessageBroker \<Rightarrow> string \<Rightarrow> SessionRole \<Rightarrow> string \<Rightarrow>
    nat \<times> ('p, 'h) PeerMessageBroker" where
  "createSessionLocked mb topic role ident =
     (let startingSeqNo = (if role = SessionInitiator then NEW_MSG_SEQUENCE else INITIATED_MSG_SEQUENCE);
          i = length (sessions mb);
          session = \<lparr>sess_Id = ident, sess_topic = topic, Recv = chan_make (QueueSize mb),
            CurrentSeqNo = startingSeqNo, isClosed = False\<rparr>
      in (i, mb\<lparr>sessions := sessions mb @ [session], consumers := AList.update ident i (consumers mb)\<rparr>))"

text \<open>The new identifier comes from the uuid package.  A stopped broker answers nil.\<close>

definition CreateNewSession :: "('p, 'h) PeerMessageBroker \<Rightarrow> string \<Rightarrow> string \<Rightarrow>
    (nat \<times> ('p, 'h) PeerMessageBroker) option" where
  "CreateNewSession mb topic uuid =
     (if stopped mb then None else Some (createSessionLocked mb topic SessionInitiator uuid))"

fun create_sessions :: "('p, 'h) PeerMessageBroker \<Rightarrow> string \<Rightarrow> string \<Rightarrow> 'h list \<Rightarrow>
    ('h \<times> nat) list \<times> ('p, 'h) PeerMessageBroker" where
  "create_sessions mb topic ident [] = ([], mb)"
| "create_sessions mb topic ident (h # hs) =
     (let (i, mb1) = createSessionLocked mb topic SessionReceiver ident;
          (runs, mb2) = create_sessions mb1 topic ident hs
      in ((h, i) # runs, mb2))"

text \<open>The part of \<open>dispatchMessage\<close> under the lock: start handlers, each with a session, or forward
  to a session.\<close>

datatype 'h dispatched = Dropped | Run "('h \<times> nat) list" | Forward nat

definition dispatch_locked :: "('p, 'h) PeerMessageBroker \<Rightarrow> 'p PeerMessage \<Rightarrow>
    ('p, 'h) PeerMessageBroker \<times> 'h dispatched" where
  "dispatch_locked mb msg =
     (if stopped mb then (mb, Dropped)
      else if msg_seq msg = NEW_MSG_SEQUENCE then
        (let (runs, mb') = create_sessions mb (msg_topic msg) (msg_session msg)
               (case_option [] id (map_of (handlers mb) (msg_topic msg)))
         in (mb', Run runs))
      else case map_of (consumers mb) (msg_session msg) of
          None \<Rightarrow> (mb, Dropped)
        | Some i \<Rightarrow> (mb, Forward i))"

definition dispatch_send ::
  "('p, 'h) PeerMessageBroker \<Rightarrow> nat \<Rightarrow> 'p PeerMessage \<Rightarrow> ('p, 'h) PeerMessageBroker go" where
  "dispatch_send mb i msg =
     go_bind (chan_offer (Recv (sessions mb ! i)) msg)
       (\<lambda>ch. Ret (update_session mb i ((sessions mb ! i)\<lparr>Recv := ch\<rparr>)))"

text \<open>The two parts with nothing in between.\<close>

definition dispatchMessage :: "('p, 'h) PeerMessageBroker \<Rightarrow> 'p PeerMessage \<Rightarrow>
    (('p, 'h) PeerMessageBroker \<times> ('h \<times> nat) list) go" where
  "dispatchMessage mb msg =
     (case dispatch_locked mb msg of
        (mb', Dropped) \<Rightarrow> Ret (mb', [])
      | (mb', Run runs) \<Rightarrow> Ret (mb', runs)
      | (mb', Forward i) \<Rightarrow> go_bind (dispatch_send mb' i msg) (\<lambda>mb''. Ret (mb'', [])))"

text \<open>\<open>StartWaiting\<close> on a receive channel that gives these messages and is then closed; the handlers it
  starts are listed.\<close>

fun wait_loop :: "('p, 'h) PeerMessageBroker \<Rightarrow> 'p PeerMessage list \<Rightarrow>
    (('p, 'h) PeerMessageBroker \<times> ('h \<times> nat) list) go" where
  "wait_loop mb [] = Ret (mb, [])"
| "wait_loop mb (msg # msgs) =
     go_bind (dispatchMessage mb msg) (\<lambda>(mb', runs).
       go_bind (wait_loop mb' msgs) (\<lambda>(mb'', more). Ret (mb'', runs @ more)))"

definition StartWaiting :: "('p, 'h) PeerMessageBroker \<Rightarrow> 'p PeerMessage list \<Rightarrow>
    (('p, 'h) PeerMessageBroker \<times> ('h \<times> nat) list \<times> go_error) go" where
  "StartWaiting mb received =
     (if stopped mb then Ret (mb, [], Errorf ''broker already stopped'')
      else if started mb then Ret (mb, [], Errorf ''broker already started'')
      else go_bind (wait_loop (mb\<lparr>started := True\<rparr>) received) (\<lambda>(mb', runs).
        Ret (mb'\<lparr>started := False, cancelled := False\<rparr>, runs,
          Errorf ''transport receive channel closed'')))"

fun close_sessions :: "('p, 'h) PeerMessageBroker \<Rightarrow> nat list \<Rightarrow> ('p, 'h) PeerMessageBroker go" where
  "close_sessions mb [] = Ret mb"
| "close_sessions mb (i # is) = go_bind (session_Close mb i) (\<lambda>mb'. close_sessions mb' is)"

definition Stop :: "('p, 'h) PeerMessageBroker \<Rightarrow> ('p, 'h) PeerMessageBroker go" where
  "Stop mb =
     (if stopped mb then Ret mb
      else close_sessions (mb\<lparr>stopped := True, cancelled := started mb\<rparr>) (map snd (consumers mb)))"


section \<open>The invariant\<close>

text \<open>The map of consumers only names sessions of the heap that are open and have that identifier;
  a session and its channel are closed together.\<close>

definition broker_ok :: "('p, 'h) PeerMessageBroker \<Rightarrow> bool" where
  "broker_ok mb \<longleftrightarrow> distinct (map fst (consumers mb)) \<and>
     (\<forall>ident i. map_of (consumers mb) ident = Some i \<longrightarrow>
        i < length (sessions mb) \<and> sess_Id (sessions mb ! i) = ident \<and> \<not> isClosed (sessions mb ! i)) \<and>
     (\<forall>s\<in>set (sessions mb). closed (Recv s) = isClosed s)"

lemma broker_ok_new: "broker_ok (NewPeerMessageBroker n)"
  by (simp add: broker_ok_def NewPeerMessageBroker_def)

lemma broker_ok_same:
  "broker_ok mb \<Longrightarrow> sessions mb' = sessions mb \<Longrightarrow> consumers mb' = consumers mb \<Longrightarrow> broker_ok mb'"
  by (simp add: broker_ok_def)

lemma broker_ok_consumer:
  assumes "broker_ok mb" "map_of (consumers mb) ident = Some i"
  shows "i < length (sessions mb)" "sess_Id (sessions mb ! i) = ident" "\<not> isClosed (sessions mb ! i)"
    "\<not> closed (Recv (sessions mb ! i))"
  using assms by (auto simp: broker_ok_def)

lemma broker_ok_update:
  assumes "broker_ok mb" "i < length (sessions mb)" "sess_Id s = sess_Id (sessions mb ! i)"
    "isClosed s = isClosed (sessions mb ! i)" "closed (Recv s) = isClosed s"
  shows "broker_ok (update_session mb i s)"
  using assms by (auto simp: broker_ok_def nth_list_update dest!: subsetD [OF set_update_subset_insert])

lemma broker_ok_session:
  "broker_ok mb \<Longrightarrow> i < length (sessions mb) \<Longrightarrow> closed (Recv (sessions mb ! i)) = isClosed (sessions mb ! i)"
  by (simp add: broker_ok_def)

lemma setupSendingMsg_ok:
  "broker_ok mb \<Longrightarrow> i < length (sessions mb) \<Longrightarrow> broker_ok (fst (setupSendingMsg mb i data))"
  by (auto simp: setupSendingMsg_def Let_def broker_ok_session intro!: broker_ok_update)

lemma WaitOn_ok:
  "broker_ok mb \<Longrightarrow> i < length (sessions mb) \<Longrightarrow> WaitOn mb i c = Some (mb', r) \<Longrightarrow> broker_ok mb'"
  by (auto simp: WaitOn_def Let_def broker_ok_session split: if_splits option.splits list.splits
      intro!: broker_ok_update)

lemma createSessionLocked_ok:
  assumes "broker_ok mb" "createSessionLocked mb topic role ident = (i, mb')"
  shows "broker_ok mb'"
  using assms
  by (auto simp: createSessionLocked_def Let_def broker_ok_def nth_append chan_make_def
      distinct_update gomap_simps less_Suc_eq split: if_splits)

lemma create_sessions_ok:
  "broker_ok mb \<Longrightarrow> create_sessions mb topic ident hs = (runs, mb') \<Longrightarrow> broker_ok mb'"
  by (induction hs arbitrary: mb runs mb')
    (auto split: prod.splits dest: createSessionLocked_ok)

lemma session_Close_ok:
  assumes "broker_ok mb" "i < length (sessions mb)"
  obtains mb' where "session_Close mb i = Ret mb'" "broker_ok mb'" "isClosed (sessions mb' ! i)"
    "length (sessions mb') = length (sessions mb)" "closed (Recv (sessions mb' ! i))"
    "\<And>j. j < length (sessions mb) \<Longrightarrow> isClosed (sessions mb ! j) \<Longrightarrow> isClosed (sessions mb' ! j)"
proof (cases "isClosed (sessions mb ! i)")
  case True
  with assms show ?thesis
    by (intro that [of mb]) (auto simp: session_Close_def broker_ok_def)
next
  case False
  with assms have "\<not> closed (Recv (sessions mb ! i))" by (simp add: broker_ok_def)
  with False assms show ?thesis
    by (intro that [of "removeSession (update_session mb i ((sessions mb ! i)\<lparr>isClosed := True,
          Recv := (Recv (sessions mb ! i))\<lparr>closed := True\<rparr>\<rparr>)) (sess_Id (sessions mb ! i))"])
      (auto simp: session_Close_def Let_def chan_close_def removeSession_def broker_ok_def nth_list_update
        distinct_delete delete_conv map_of_delete dest: subsetD [OF set_update_subset_insert]
        split: if_splits)
qed

lemma dispatch_send_ok:
  assumes "broker_ok mb" "i < length (sessions mb)" "\<not> isClosed (sessions mb ! i)"
  shows "\<exists>mb'. dispatch_send mb i msg = Ret mb' \<and> broker_ok mb'"
  using assms by (auto simp: dispatch_send_def chan_offer_def broker_ok_session intro!: broker_ok_update)


section \<open>A request and its replies\<close>

definition addressed :: "'p PeerMessage \<Rightarrow> string \<Rightarrow> string \<Rightarrow> SeqNo \<Rightarrow> 'p PeerMessage" where
  "addressed data topic ident n =
     data\<lparr>Key := (Key data)\<lparr>session_fields := \<lparr>TopicName = topic, SessionId = ident, SeqNo = n\<rparr>\<rparr>\<rparr>"

text \<open>A handler that sends these messages in its session, and a requester that waits as many times.\<close>

fun send_replies :: "('p, 'h) PeerMessageBroker \<Rightarrow> nat \<Rightarrow> 'p PeerMessage list \<Rightarrow>
    (go_error + 'p PeerMessage) list" where
  "send_replies mb i [] = []"
| "send_replies mb i (data # rest) =
     (let (mb', r) = setupSendingMsg mb i data in r # send_replies mb' i rest)"

fun wait_all :: "('p, 'h) PeerMessageBroker \<Rightarrow> nat \<Rightarrow> nat \<Rightarrow> (go_error + 'p PeerMessage) list" where
  "wait_all mb i 0 = []"
| "wait_all mb i (Suc n) =
     (case WaitOn mb i None of None \<Rightarrow> [] | Some (mb', r) \<Rightarrow> r # wait_all mb' i n)"

text \<open>A requests with a session of its own, B runs the first handler of the topic, A receives.\<close>

definition ask :: "('p, 'h) PeerMessageBroker \<Rightarrow> ('p, 'h) PeerMessageBroker \<Rightarrow> string \<Rightarrow> string \<Rightarrow>
    'p PeerMessage \<Rightarrow> 'p PeerMessage list \<Rightarrow> (go_error + 'p PeerMessage) list go" where
  "ask A B topic uuid request replies =
     (case CreateNewSession A topic uuid of
        None \<Rightarrow> Panic
      | Some (i, A1) \<Rightarrow> (case setupSendingMsg A1 i request of
          (A2, Inl err) \<Rightarrow> Ret [Inl err]
        | (A2, Inr req) \<Rightarrow>
            go_bind (dispatchMessage B req) (\<lambda>(B1, runs). case runs of
              [] \<Rightarrow> Ret []
            | (h, j) # _ \<Rightarrow>
                go_bind (wait_loop A2 (map projr (send_replies B1 j replies)))
                  (\<lambda>(A3, _). Ret (wait_all A3 i (length replies))))))"

lemma send_replies_open:
  assumes "i < length (sessions mb)" "\<not> isClosed (sessions mb ! i)"
  shows "send_replies mb i ds =
    map (\<lambda>(k, d). Inr (addressed d (sess_topic (sessions mb ! i)) (sess_Id (sessions mb ! i))
      (CurrentSeqNo (sessions mb ! i) + of_nat k))) (enumerate 0 ds)"
proof -
  have "send_replies mb i ds =
    map (\<lambda>(k, d). Inr (addressed d t ident (n + of_nat k))) (enumerate m ds)"
    if "i < length (sessions mb)" "\<not> isClosed (sessions mb ! i)" "sess_topic (sessions mb ! i) = t"
      "sess_Id (sessions mb ! i) = ident" "CurrentSeqNo (sessions mb ! i) = n + of_nat m" for t ident n m
    using that
  proof (induction ds arbitrary: mb m)
    case (Cons d ds)
    let ?s = "sessions mb ! i"
    have "send_replies (update_session mb i (?s\<lparr>CurrentSeqNo := CurrentSeqNo ?s + 1\<rparr>)) i ds =
        map (\<lambda>(k, d). Inr (addressed d t ident (n + of_nat k))) (enumerate (Suc m) ds)"
      by (rule Cons.IH) (use Cons.prems in \<open>simp_all add: algebra_simps\<close>)
    with Cons.prems show ?case
      by (simp add: setupSendingMsg_def Let_def addressed_def)
  qed simp
  from this [of _ _ "CurrentSeqNo (sessions mb ! i)" 0] assms show ?thesis by simp
qed

lemma wait_loop_forwards:
  assumes "\<not> stopped mb" "map_of (consumers mb) ident = Some i" "i < length (sessions mb)"
    "\<not> closed (Recv (sessions mb ! i))"
    "length (buffer (Recv (sessions mb ! i))) + length msgs \<le> capacity (Recv (sessions mb ! i))"
    "list_all (\<lambda>m. msg_seq m \<noteq> 0 \<and> msg_session m = ident) msgs"
  shows "wait_loop mb msgs = Ret (update_session mb i ((sessions mb ! i)\<lparr>Recv :=
    (Recv (sessions mb ! i))\<lparr>buffer := buffer (Recv (sessions mb ! i)) @ msgs\<rparr>\<rparr>), [])"
  using assms
proof (induction msgs arbitrary: mb)
  case (Cons m ms)
  let ?s = "sessions mb ! i"
  let ?mb = "update_session mb i (?s\<lparr>Recv := (Recv ?s)\<lparr>buffer := buffer (Recv ?s) @ [m]\<rparr>\<rparr>)"
  have "dispatchMessage mb m = Ret (?mb, [])"
    using Cons.prems by (simp add: dispatchMessage_def dispatch_locked_def NEW_MSG_SEQUENCE_def
        dispatch_send_def chan_offer_def)
  moreover have "wait_loop ?mb ms = Ret (update_session ?mb i ((sessions ?mb ! i)\<lparr>Recv :=
      (Recv (sessions ?mb ! i))\<lparr>buffer := buffer (Recv (sessions ?mb ! i)) @ ms\<rparr>\<rparr>), [])"
    by (rule Cons.IH) (use Cons.prems in simp_all)
  ultimately show ?case using Cons.prems by simp
qed simp

lemma wait_all_open:
  assumes "i < length (sessions mb)" "\<not> isClosed (sessions mb ! i)" "buffer (Recv (sessions mb ! i)) = msgs"
  shows "wait_all mb i (length msgs) = map (\<lambda>m. if msg_seq m \<noteq> CurrentSeqNo (sessions mb ! i)
    then Inl (out_of_order (sess_topic (sessions mb ! i))) else Inr m) msgs"
  using assms
proof (induction msgs arbitrary: mb)
  case (Cons m ms)
  let ?s = "sessions mb ! i"
  let ?mb = "update_session mb i (?s\<lparr>Recv := (Recv ?s)\<lparr>buffer := ms\<rparr>\<rparr>)"
  have "wait_all ?mb i (length ms) = map (\<lambda>m. if msg_seq m \<noteq> CurrentSeqNo (sessions ?mb ! i)
      then Inl (out_of_order (sess_topic (sessions ?mb ! i))) else Inr m) ms"
    by (rule Cons.IH) (use Cons.prems in simp_all)
  with Cons.prems show ?case by (simp add: WaitOn_def Let_def)
qed simp


lemma of_nat_seq_nonzero: "Suc k < 2 ^ 32 \<Longrightarrow> 1 + word_of_nat k \<noteq> (0 :: SeqNo)"
  using word_of_nat_eq_0_iff [of "Suc k", where 'a = 32] by (auto dest: dvd_imp_le)

lemma of_nat_seq_one: "0 < k \<Longrightarrow> k < 2 ^ 32 \<Longrightarrow> 1 + word_of_nat k \<noteq> (1 :: SeqNo)"
  using word_of_nat_eq_0_iff [of k, where 'a = 32] by (auto dest: dvd_imp_le)

text \<open>A session for a handler, as \<open>createSessionLocked\<close> makes it.\<close>

abbreviation fresh_session :: "nat \<Rightarrow> string \<Rightarrow> string \<Rightarrow> SeqNo \<Rightarrow> 'p PeerMessageSession" where
  "fresh_session cap topic ident n \<equiv>
     \<lparr>sess_Id = ident, sess_topic = topic, Recv = chan_make cap, CurrentSeqNo = n, isClosed = False\<rparr>"

lemma create_sessions_appends:
  "create_sessions mb topic ident hs = (runs, mb') \<Longrightarrow> \<exists>ts. sessions mb' = sessions mb @ ts"
proof (induction hs arbitrary: mb runs)
  case (Cons h hs)
  then show ?case
    by (fastforce simp: createSessionLocked_def Let_def split: prod.splits)
qed simp

lemma create_sessions_first:
  assumes "create_sessions mb topic ident (h # hs) = (runs, mb')"
  obtains more where "runs = (h, length (sessions mb)) # more"
    "length (sessions mb) < length (sessions mb')"
    "sessions mb' ! length (sessions mb) = fresh_session (QueueSize mb) topic ident 1"
proof -
  obtain i mb1 where 1: "createSessionLocked mb topic SessionReceiver ident = (i, mb1)"
    by (cases "createSessionLocked mb topic SessionReceiver ident")
  obtain more mb2 where 2: "create_sessions mb1 topic ident hs = (more, mb2)"
    by (cases "create_sessions mb1 topic ident hs")
  obtain ts where "sessions mb2 = sessions mb1 @ ts" using create_sessions_appends [OF 2] by blast
  with 1 2 assms that show ?thesis
    by (auto simp: createSessionLocked_def Let_def INITIATED_MSG_SEQUENCE_def nth_append)
qed

lemma addressed_simps [simp]:
  "msg_seq (addressed d t u n) = n" "msg_session (addressed d t u n) = u"
  "msg_topic (addressed d t u n) = t"
  by (simp_all add: addressed_def)

text \<open>Messages numbered from 2 on, where 1 is expected.\<close>

lemma late_replies:
  assumes "Suc (length rs) < 2 ^ 32"
  shows "map ((\<lambda>m. if msg_seq m \<noteq> 1 then e else Inr m) \<circ> (\<lambda>(k, d). addressed d t u (1 + word_of_nat k)))
    (enumerate (Suc 0) rs) = map (\<lambda>_. e) rs"
proof (rule nth_equalityI)
  fix i assume "i < length (map ((\<lambda>m. if msg_seq m \<noteq> 1 then e else Inr m) \<circ>
    (\<lambda>(k, d). addressed d t u (1 + word_of_nat k))) (enumerate (Suc 0) rs))"
  with assms show "map ((\<lambda>m. if msg_seq m \<noteq> 1 then e else Inr m) \<circ>
      (\<lambda>(k, d). addressed d t u (1 + word_of_nat k))) (enumerate (Suc 0) rs) ! i = map (\<lambda>_. e) rs ! i"
    using of_nat_seq_one [of "Suc i"] by (simp add: nth_enumerate_eq addressed_def)
qed simp

section \<open>Properties\<close>

text \<open>C27. A request that opens a session reaches the handler of its topic, and the first message the
  handler sends back is what the requester's wait returns, with the topic and the identifier of the
  session.  Every further message is refused as out of order: waiting does not advance the expected
  sequence number, so a session carries one answer.\<close>
theorem session_carries_one_reply:
  assumes "\<not> stopped A" "\<not> stopped B" "map_of (handlers B) topic = Some (h # hs)"
    "length replies \<le> QueueSize A" "length replies < 2 ^ 32 - 1"
  shows "ask A B topic uuid request replies = Ret (case replies of [] \<Rightarrow> []
    | r # rs \<Rightarrow> Inr (addressed r topic uuid 1) # map (\<lambda>_. Inl (out_of_order topic)) rs)"
proof -
  let ?i = "length (sessions A)"
  let ?A1 = "A\<lparr>sessions := sessions A @ [fresh_session (QueueSize A) topic uuid 0],
    consumers := AList.update uuid ?i (consumers A)\<rparr>"
  let ?A2 = "A\<lparr>sessions := sessions A @ [fresh_session (QueueSize A) topic uuid 1],
    consumers := AList.update uuid ?i (consumers A)\<rparr>"
  let ?msgs = "map (\<lambda>(k, d). addressed d topic uuid (1 + of_nat k)) (enumerate 0 replies)"
  let ?A3 = "update_session ?A2 ?i ((fresh_session (QueueSize A) topic uuid 1)\<lparr>Recv :=
    (chan_make (QueueSize A))\<lparr>buffer := ?msgs\<rparr>\<rparr>)"
  have A1: "CreateNewSession A topic uuid = Some (?i, ?A1)"
    using assms(1) by (simp add: CreateNewSession_def createSessionLocked_def Let_def NEW_MSG_SEQUENCE_def)
  have A2: "setupSendingMsg ?A1 ?i request = (?A2, Inr (addressed request topic uuid 0))"
    by (simp add: setupSendingMsg_def addressed_def)
  obtain runs B1 where B1: "create_sessions B topic uuid (h # hs) = (runs, B1)"
    by (cases "create_sessions B topic uuid (h # hs)")
  then obtain more where more: "runs = (h, length (sessions B)) # more"
    "length (sessions B) < length (sessions B1)"
    "sessions B1 ! length (sessions B) = fresh_session (QueueSize B) topic uuid 1"
    by (rule create_sessions_first)
  have B: "dispatchMessage B (addressed request topic uuid 0) = Ret (B1, runs)"
    using assms(2,3) B1
    by (simp add: dispatchMessage_def dispatch_locked_def addressed_def NEW_MSG_SEQUENCE_def)
  have sent: "map projr (send_replies B1 (length (sessions B)) replies) = ?msgs"
    using send_replies_open [OF more(2)] more(3) by (simp add: case_prod_beta)
  have "wait_loop ?A2 ?msgs = Ret (?A3, [])"
  proof (subst wait_loop_forwards [of _ uuid ?i])
    show "list_all (\<lambda>m. msg_seq m \<noteq> 0 \<and> msg_session m = uuid) ?msgs"
      using assms(5) of_nat_seq_nonzero
      by (auto simp: list_all_iff addressed_def in_set_enumerate_eq)
  qed (use assms in \<open>simp_all add: gomap_simps chan_make_def\<close>)
  moreover have "wait_all ?A3 ?i (length ?msgs) =
      map (\<lambda>m. if msg_seq m \<noteq> 1 then Inl (out_of_order topic) else Inr m) ?msgs"
    by (subst wait_all_open [where msgs = ?msgs]) simp_all
  moreover have "map (\<lambda>m. if msg_seq m \<noteq> 1 then Inl (out_of_order topic) else Inr m) ?msgs =
    (case replies of [] \<Rightarrow> []
     | r # rs \<Rightarrow> Inr (addressed r topic uuid 1) # map (\<lambda>_. Inl (out_of_order topic)) rs)"
    using assms(5) by (cases replies) (simp_all add: late_replies)
  ultimately show ?thesis
    by (simp add: ask_def A1 A2 B more(1) sent)
qed

text \<open>A message, a broker that answers on one topic, and a requester.\<close>

definition memo :: "unit PeerMessage" where
  "memo = GetEmptyEnvelope (GetPeerMetadata '''' '''' emptyHostInfo)"

definition answering :: "(unit, nat) PeerMessageBroker" where
  "answering = RegisterHandler (NewPeerMessageBroker 4) ''T'' 7"

theorem session_carries_one_reply_witness:
  "ask (NewPeerMessageBroker 4) answering ''T'' ''u'' memo [memo, memo] =
     Ret [Inr (addressed memo ''T'' ''u'' 1), Inl (out_of_order ''T'')]"
  using session_carries_one_reply [of "NewPeerMessageBroker 4" answering "''T''" 7 "[]" "[memo, memo]" "''u''" memo]
  by (simp add: answering_def RegisterHandler_def NewPeerMessageBroker_def)

text \<open>Delivering a message to an open session takes two locks, one to find the session and one to
  use its channel.  Without anything in between it succeeds; if the session's owner closes it in
  between, the send hits a closed channel and the program panics.\<close>
theorem dispatch_close_race:
  assumes "broker_ok mb" "dispatch_locked mb msg = (mb, Forward i)"
  shows "(\<exists>mb'. dispatchMessage mb msg = Ret (mb', [])) \<and>
    (\<exists>mb'. session_Close mb i = Ret mb' \<and> dispatch_send mb' i msg = Panic)"
proof
  have i: "i < length (sessions mb)" "\<not> isClosed (sessions mb ! i)"
    using assms(2) broker_ok_consumer [OF assms(1)]
    by (auto simp: dispatch_locked_def split: if_splits option.splits prod.splits)
  obtain mb' where "dispatch_send mb i msg = Ret mb'"
    using dispatch_send_ok [OF assms(1) i] by blast
  then show "\<exists>mb'. dispatchMessage mb msg = Ret (mb', [])"
    by (simp add: dispatchMessage_def assms(2))
  show "\<exists>mb'. session_Close mb i = Ret mb' \<and> dispatch_send mb' i msg = Panic"
    by (rule session_Close_ok [OF assms(1) i(1)]) (simp add: dispatch_send_def chan_offer_def)
qed

text \<open>A requester with an open session, and the first reply to it.\<close>

definition asking :: "(unit, nat) PeerMessageBroker" where
  "asking = snd (the (CreateNewSession (NewPeerMessageBroker 4) ''T'' ''u''))"

lemma asking_ok: "broker_ok asking"
proof -
  have "createSessionLocked (NewPeerMessageBroker 4) ''T'' SessionInitiator ''u'' = (0, asking)"
    by (simp add: asking_def CreateNewSession_def createSessionLocked_def Let_def NewPeerMessageBroker_def)
  then show ?thesis by (rule createSessionLocked_ok [OF broker_ok_new])
qed

theorem dispatch_close_race_witness:
  "\<exists>mb'. session_Close asking 0 = Ret mb' \<and> dispatch_send mb' 0 (addressed memo ''T'' ''u'' 1) = Panic"
proof -
  have "dispatch_locked asking (addressed memo ''T'' ''u'' 1) = (asking, Forward 0)"
    by (simp add: asking_def dispatch_locked_def CreateNewSession_def createSessionLocked_def
        Let_def NewPeerMessageBroker_def NEW_MSG_SEQUENCE_def)
  from dispatch_close_race [OF asking_ok this] show ?thesis by blast
qed

text \<open>Two handlers of one topic get sessions with the same identifier, and the broker only knows
  the later one: as soon as the first handler returns and closes its session, the second one, still
  open, receives nothing more.\<close>
theorem handlers_share_session:
  assumes "broker_ok mb" "\<not> stopped mb" "map_of (handlers mb) (msg_topic msg) = Some [h1, h2]"
    "msg_seq msg = 0" "msg_session later = msg_session msg" "msg_seq later \<noteq> 0"
  shows "\<exists>mb1 mb2 i j. dispatchMessage mb msg = Ret (mb1, [(h1, i), (h2, j)]) \<and>
    dispatch_locked mb1 later = (mb1, Forward j) \<and> i \<noteq> j \<and>
    session_Close mb1 i = Ret mb2 \<and> \<not> isClosed (sessions mb2 ! j) \<and>
    dispatchMessage mb2 later = Ret (mb2, [])"
proof -
  let ?n = "length (sessions mb)" and ?id = "msg_session msg"
  let ?s = "fresh_session (QueueSize mb) (msg_topic msg) ?id 1"
  let ?mb1 = "mb\<lparr>sessions := sessions mb @ [?s, ?s],
    consumers := AList.update ?id (Suc ?n) (AList.update ?id ?n (consumers mb))\<rparr>"
  let ?mb2 = "removeSession (update_session ?mb1 ?n (?s\<lparr>isClosed := True,
    Recv := (chan_make (QueueSize mb))\<lparr>closed := True\<rparr>\<rparr>)) ?id"
  have "dispatchMessage mb msg = Ret (?mb1, [(h1, ?n), (h2, Suc ?n)])"
    using assms(2-4) by (simp add: dispatchMessage_def dispatch_locked_def NEW_MSG_SEQUENCE_def
        createSessionLocked_def Let_def INITIATED_MSG_SEQUENCE_def)
  moreover have "dispatch_locked ?mb1 later = (?mb1, Forward (Suc ?n))"
    using assms(2,5,6) by (simp add: dispatch_locked_def NEW_MSG_SEQUENCE_def gomap_simps)
  moreover have "session_Close ?mb1 ?n = Ret ?mb2"
    by (simp add: session_Close_def Let_def nth_append chan_close_def chan_make_def)
  moreover have "\<not> isClosed (sessions ?mb2 ! Suc ?n)"
    by (simp add: removeSession_def nth_append nth_list_update)
  moreover have "dispatchMessage ?mb2 later = Ret (?mb2, [])"
    using assms(2,5,6) by (simp add: dispatchMessage_def dispatch_locked_def NEW_MSG_SEQUENCE_def
        removeSession_def delete_conv' map_of_delete)
  ultimately show ?thesis by (intro exI [of _ ?mb1] exI [of _ ?mb2] exI [of _ ?n] exI [of _ "Suc ?n"]) simp
qed

theorem handlers_share_session_witness:
  "\<exists>mb1 mb2 i j. dispatchMessage (RegisterHandler answering ''T'' 8) (addressed memo ''T'' ''u'' 0) =
      Ret (mb1, [(7, i), (8, j)]) \<and> session_Close mb1 i = Ret mb2 \<and> \<not> isClosed (sessions mb2 ! j) \<and>
      dispatchMessage mb2 (addressed memo ''T'' ''u'' 2) = Ret (mb2, [])"
proof -
  have "broker_ok (RegisterHandler answering ''T'' 8)"
    by (rule broker_ok_same [OF broker_ok_new]) (simp_all add: RegisterHandler_def answering_def
        NewPeerMessageBroker_def)
  from handlers_share_session [OF this, of "addressed memo ''T'' ''u'' 0" 7 8 "addressed memo ''T'' ''u'' 2"]
  show ?thesis
    by (fastforce simp: RegisterHandler_def answering_def NewPeerMessageBroker_def)
qed

end
