(* ===== verification/Modules.thy ===== *)
theory Modules
  imports Transport Broker
begin

text \<open>
  What a node is assembled from: the envelopes of \<open>p2p/json.go\<close>, the configuration of \<open>config/\<close>, the
  network module of \<open>p2p/factory.go\<close> and the application module of \<open>cluster/nodemodule.go\<close>.  JSON itself
  is Go's library: marshalling is a parameter, over the type \<open>'r\<close> of raw JSON and \<open>'b\<close> of bytes.
  Logging is output only and left out.
\<close>

section \<open>JSON envelopes\<close>

text \<open>A payload is held by value when it was encoded here, and by reference when it was decoded; the
  encoder's type switch tells the two apart.\<close>

datatype 'r JsonPayload = JsonPayload 'r | JsonPayloadRef 'r

fun raw :: "'r JsonPayload \<Rightarrow> 'r" where
  "raw (JsonPayload r) = r"
| "raw (JsonPayloadRef r) = r"

definition NewJsonPayload :: "'r \<Rightarrow> 'r JsonPayload" where
  "NewJsonPayload data = JsonPayloadRef data"

definition NewJsonPayloadEncode :: "('v \<Rightarrow> go_error + 'r) \<Rightarrow> 'v \<Rightarrow> go_error + 'r JsonPayload" where
  "NewJsonPayloadEncode marshal data = (case marshal data of Inl err \<Rightarrow> Inl err | Inr r \<Rightarrow> Inr (JsonPayload r))"

definition JsonPayload_Decode :: "('r \<Rightarrow> go_error + 'v) \<Rightarrow> 'r JsonPayload \<Rightarrow> go_error + 'v" where
  "JsonPayload_Decode unmarshal p = unmarshal (raw p)"

definition GetJsonBasedEnvelope ::
  "('v \<Rightarrow> go_error + 'r) \<Rightarrow> PeerMetadata \<Rightarrow> 'v \<Rightarrow> go_error + 'r JsonPayload PeerMessage" where
  "GetJsonBasedEnvelope marshal key data = (case NewJsonPayloadEncode marshal data of
       Inl err \<Rightarrow> Inl err | Inr payload \<Rightarrow> Inr \<lparr>Key = key, Data = Payload payload\<rparr>)"

text \<open>Marshalling and unmarshalling of the struct of an envelope, and the raw JSON \<open>{}\<close>.\<close>

record ('r, 'b) json_lib =
  marshal_env :: "PeerMetadata \<Rightarrow> 'r \<Rightarrow> go_error + 'b"
  unmarshal_env :: "'b \<Rightarrow> go_error + PeerMetadata \<times> 'r"
  braces :: 'r

definition JsonEnvelopeEncoder_Encode ::
  "('r, 'b) json_lib \<Rightarrow> 'r JsonPayload PeerMessage \<Rightarrow> go_error + 'b" where
  "JsonEnvelopeEncoder_Encode lib env = (case Data env of
       Payload (JsonPayload r) \<Rightarrow> marshal_env lib (Key env) r
     | EmptyPayload \<Rightarrow> marshal_env lib (Key env) (braces lib)
     | Payload (JsonPayloadRef r) \<Rightarrow> Inl (Errorf ''unsupported payload type''))"

definition JsonEnvelopeDecoder_Decode ::
  "('r, 'b) json_lib \<Rightarrow> 'b \<Rightarrow> go_error + 'r JsonPayload PeerMessage" where
  "JsonEnvelopeDecoder_Decode lib data = (case unmarshal_env lib data of
       Inl err \<Rightarrow> Inl err | Inr (key, r) \<Rightarrow> Inr \<lparr>Key = key, Data = Payload (NewJsonPayload r)\<rparr>)"

definition NewJsonEnvelopeCodec :: "('r, 'b) json_lib \<Rightarrow> ('r JsonPayload, 'b) codec" where
  "NewJsonEnvelopeCodec lib = \<lparr>Encode = JsonEnvelopeEncoder_Encode lib, Decode = JsonEnvelopeDecoder_Decode lib\<rparr>"

text \<open>The enveloper of \<open>initModule\<close>; a nil payload is \<open>None\<close>.\<close>

definition jsonEnveloper ::
  "('v \<Rightarrow> go_error + 'r) \<Rightarrow> PeerMetadata \<Rightarrow> 'v option \<Rightarrow> go_error + 'r JsonPayload PeerMessage" where
  "jsonEnveloper marshal meta payload = (case payload of
       None \<Rightarrow> Inr (GetEmptyEnvelope meta) | Some data \<Rightarrow> GetJsonBasedEnvelope marshal meta data)"

section \<open>Configuration\<close>

text \<open>A lookup with a type assertion, which is \<open>cast\<close>.\<close>

definition GetOrDefault :: "('v \<Rightarrow> 'a option) \<Rightarrow> (string \<times> 'v) list \<Rightarrow> string \<Rightarrow> 'a \<Rightarrow> 'a" where
  "GetOrDefault cast args key defaultValue = (case map_of args key of
       None \<Rightarrow> defaultValue
     | Some v \<Rightarrow> (case cast v of None \<Rightarrow> defaultValue | Some result \<Rightarrow> result))"

text \<open>A duration is a type of its own in Go, in nanoseconds; an \<open>int\<close> is not one.\<close>

datatype config_value = Duration int | Number int | Other_value

fun as_duration :: "config_value \<Rightarrow> int option" where
  "as_duration (Duration d) = Some d" | "as_duration v = None"

fun as_int :: "config_value \<Rightarrow> int option" where
  "as_int (Number n) = Some n" | "as_int v = None"

definition Second :: int where "Second = 10 ^ 9"

record TransportConfig =
  InPairTimeout :: int
  OutPairtTimeout :: int

record BrokerConfig =
  cfg_QueueSize :: int
  SendTimeout :: int
  BroadcastTimeout :: int
  WaitOnTimeout :: int

record NetworkModuleConfig =
  transport_cfg :: TransportConfig
  broker_cfg :: BrokerConfig

definition DEFAULT_IN_PAIR_TIMEOUT :: int where "DEFAULT_IN_PAIR_TIMEOUT = 10 * Second"
definition DEFAULT_OUT_PAIR_TIMEOUT :: int where "DEFAULT_OUT_PAIR_TIMEOUT = 10 * Second"
definition SESSION_QUEUE_SIZE :: int where "SESSION_QUEUE_SIZE = 10"
definition SEND_TIMEOUT :: int where "SEND_TIMEOUT = 4 * Second"
definition BROADCAST_TIMEOUT :: int where "BROADCAST_TIMEOUT = 6 * Second"
definition WAIT_ON_TIMEOUT :: int where "WAIT_ON_TIMEOUT = 12 * Second"

definition TransportDefaultConfig :: "(string \<times> config_value) list \<Rightarrow> TransportConfig" where
  "TransportDefaultConfig args = \<lparr>
     InPairTimeout = GetOrDefault as_duration args ''inPairTimeout'' DEFAULT_IN_PAIR_TIMEOUT,
     OutPairtTimeout = GetOrDefault as_duration args ''outPairTimeout'' DEFAULT_OUT_PAIR_TIMEOUT\<rparr>"

definition BrokerDefaultConfig :: "(string \<times> config_value) list \<Rightarrow> BrokerConfig" where
  "BrokerDefaultConfig args = \<lparr>
     cfg_QueueSize = GetOrDefault as_int args ''sessionQueueSize'' SESSION_QUEUE_SIZE,
     SendTimeout = GetOrDefault as_duration args ''sendTimeout'' SEND_TIMEOUT,
     BroadcastTimeout = GetOrDefault as_duration args ''broadcastTimeout'' BROADCAST_TIMEOUT,
     WaitOnTimeout = GetOrDefault as_duration args ''waitOnTimeout'' WAIT_ON_TIMEOUT\<rparr>"

definition NetworkDefaultConfig :: "(string \<times> config_value) list \<Rightarrow> NetworkModuleConfig" where
  "NetworkDefaultConfig args = \<lparr>transport_cfg = TransportDefaultConfig args, broker_cfg = BrokerDefaultConfig args\<rparr>"

section \<open>Modules\<close>

text \<open>The transport, the broker and the enveloper of a node.  The timeouts decide when a context ends,
  which the operations of the transport and of the sessions are given.\<close>

record ('v, 'p, 'b, 'h) NetworkModule =
  Transport_of :: "('p, 'b) TCPLayer"
  Broker_of :: "('p, 'h) PeerMessageBroker"
  Enveloper :: "PeerMetadata \<Rightarrow> 'v option \<Rightarrow> go_error + 'p PeerMessage"
  Config_of :: NetworkModuleConfig

definition initModule :: "('r, 'b) json_lib \<Rightarrow> ('v \<Rightarrow> go_error + 'r) \<Rightarrow> NetworkModuleConfig \<Rightarrow>
    ('v, 'r JsonPayload, 'b, 'h) NetworkModule" where
  "initModule lib marshal networkConfig = \<lparr>
     Transport_of = setup_transport (NewJsonEnvelopeCodec lib) (\<lambda>meta. jsonEnveloper marshal meta None),
     Broker_of = NewPeerMessageBroker (nat (cfg_QueueSize (broker_cfg networkConfig))),
     Enveloper = jsonEnveloper marshal, Config_of = networkConfig\<rparr>"

record ('v, 'p, 'b, 'h) AppNodeModule = "('v, 'p, 'b, 'h) NetworkModule" +
  node_Id :: PeerHostInfo

definition CreateFromArgs :: "('r, 'b) json_lib \<Rightarrow> ('v \<Rightarrow> go_error + 'r) \<Rightarrow> PeerHostInfo \<Rightarrow>
    (string \<times> config_value) list \<Rightarrow> ('v, 'r JsonPayload, 'b, 'h) AppNodeModule" where
  "CreateFromArgs lib marshal info args =
     NetworkModule.extend (initModule lib marshal (NetworkDefaultConfig args)) \<lparr>node_Id = info\<rparr>"

definition Create_module :: "('r, 'b) json_lib \<Rightarrow> ('v \<Rightarrow> go_error + 'r) \<Rightarrow> PeerHostInfo \<Rightarrow>
    ('v, 'r JsonPayload, 'b, 'h) AppNodeModule" where
  "Create_module lib marshal info = CreateFromArgs lib marshal info []"


section \<open>Sessions over the transport\<close>

text \<open>\<open>Send\<close> and \<open>Broadcast\<close> of a session whose pipe is the transport of its module.\<close>

definition module_Send :: "(nat \<Rightarrow> go_error option) \<Rightarrow> ('v, 'p, 'b, 'h, 'z) NetworkModule_scheme \<Rightarrow> nat \<Rightarrow>
    'p PeerMessage \<Rightarrow> PeerHostInfo \<Rightarrow> (('v, 'p, 'b, 'h, 'z) NetworkModule_scheme \<times> go_error option) go" where
  "module_Send written m i data target =
     (case setupSendingMsg (Broker_of m) i data of
        (mb, Inl err) \<Rightarrow> Ret (m\<lparr>Broker_of := mb\<rparr>, Some err)
      | (mb, Inr data') \<Rightarrow> go_bind (tcp_Send written (Transport_of m) data' target) (\<lambda>(t, err).
          Ret (m\<lparr>Broker_of := mb, Transport_of := t\<rparr>, err)))"

definition broadcast_error :: "go_error + BroadcastError \<Rightarrow> go_error" where
  "broadcast_error e = (case e of Inl err \<Rightarrow> err | Inr b \<Rightarrow> Errorf (BroadcastError_Error b))"

definition module_Broadcast :: "(nat \<Rightarrow> go_error option) \<Rightarrow> ('v, 'p, 'b, 'h, 'z) NetworkModule_scheme \<Rightarrow> nat \<Rightarrow>
    'p PeerMessage \<Rightarrow> (('v, 'p, 'b, 'h, 'z) NetworkModule_scheme \<times> go_error option) go" where
  "module_Broadcast written m i data =
     (case setupSendingMsg (Broker_of m) i data of
        (mb, Inl err) \<Rightarrow> Ret (m\<lparr>Broker_of := mb\<rparr>, Some err)
      | (mb, Inr data') \<Rightarrow> go_bind (tcp_Broadcast written (Transport_of m) data') (\<lambda>(t, err).
          Ret (m\<lparr>Broker_of := mb, Transport_of := t\<rparr>, map_option broadcast_error err)))"

definition InitModule :: "('v, 'p, 'b, 'h) AppNodeModule \<Rightarrow> go_error option \<Rightarrow> go_error option \<Rightarrow>
    ('v, 'p, 'b, 'h) AppNodeModule \<times> go_error option" where
  "InitModule m resolved listened =
     (let (t, err) = ListenFor (Transport_of m) (node_Id m) resolved listened in (m\<lparr>Transport_of := t\<rparr>, err))"

definition ShutDownModule :: "('v, 'p, 'b, 'h) AppNodeModule \<Rightarrow>
    (('v, 'p, 'b, 'h) AppNodeModule \<times> go_error option) go" where
  "ShutDownModule m = go_bind (Stop (Broker_of m)) (\<lambda>mb.
     let (t, err) = tcp_Shutdown (Transport_of m) in Ret (m\<lparr>Broker_of := mb, Transport_of := t\<rparr>, err))"

section \<open>Properties\<close>

text \<open>What is asked of JSON for one envelope: it survives its encoding.\<close>

definition json_keeps :: "('r, 'b) json_lib \<Rightarrow> PeerMetadata \<Rightarrow> 'r \<Rightarrow> bool" where
  "json_keeps lib key r = (\<exists>b. marshal_env lib key r = Inr b \<and> unmarshal_env lib b = Inr (key, r))"

text \<open>An envelope made by the enveloper arrives with its metadata, and its payload decodes to what was
  put in.  An empty payload arrives as the payload \<open>{}\<close>, no longer as an empty one; and an envelope that
  has arrived cannot be encoded again.\<close>
theorem envelope_roundtrip:
  assumes "jsonEnveloper marshal meta payload = Inr env"
    "\<forall>v r. payload = Some v \<and> marshal v = Inr r \<longrightarrow> json_keeps lib meta r \<and> unmarshal r = Inr v"
    "payload = None \<longrightarrow> json_keeps lib meta (braces lib)"
  shows "\<exists>b env'. Encode (NewJsonEnvelopeCodec lib) env = Inr b \<and>
    Decode (NewJsonEnvelopeCodec lib) b = Inr env' \<and> Key env' = meta \<and>
    payload_Decode (JsonPayload_Decode unmarshal) (Data env') =
      (case payload of None \<Rightarrow> unmarshal (braces lib) | Some v \<Rightarrow> Inr v) \<and>
    Encode (NewJsonEnvelopeCodec lib) env' = Inl (Errorf ''unsupported payload type'')"
proof (cases payload)
  case None
  with assms show ?thesis
    by (auto simp: jsonEnveloper_def GetEmptyEnvelope_def json_keeps_def NewJsonEnvelopeCodec_def
        JsonEnvelopeEncoder_Encode_def JsonEnvelopeDecoder_Decode_def NewJsonPayload_def JsonPayload_Decode_def)
next
  case (Some v)
  with assms(1) obtain r where r: "marshal v = Inr r" "env = \<lparr>Key = meta, Data = Payload (JsonPayload r)\<rparr>"
    by (auto simp: jsonEnveloper_def GetJsonBasedEnvelope_def NewJsonPayloadEncode_def split: sum.splits)
  with assms(2) Some show ?thesis
    by (auto simp: json_keeps_def NewJsonEnvelopeCodec_def JsonEnvelopeEncoder_Encode_def
        JsonEnvelopeDecoder_Decode_def NewJsonPayload_def JsonPayload_Decode_def)
qed

text \<open>A JSON whose bytes are the values themselves.\<close>

definition plain_json :: "(string, PeerMetadata \<times> string) json_lib" where
  "plain_json = \<lparr>marshal_env = (\<lambda>key r. Inr (key, r)), unmarshal_env = Inr, braces = ''{}''\<rparr>"

theorem envelope_roundtrip_witness:
  "\<exists>b env'. Encode (NewJsonEnvelopeCodec plain_json)
      \<lparr>Key = GetPeerMetadata ''T'' '''' emptyHostInfo, Data = Payload (JsonPayload ''h:1'')\<rparr> = Inr b \<and>
    Decode (NewJsonEnvelopeCodec plain_json) b = Inr env' \<and>
    payload_Decode (JsonPayload_Decode Inr) (Data env') = Inr ''h:1''"
proof -
  let ?meta = "GetPeerMetadata ''T'' '''' emptyHostInfo"
  have "jsonEnveloper Inr ?meta (Some ''h:1'') = Inr \<lparr>Key = ?meta, Data = Payload (JsonPayload ''h:1'')\<rparr>"
    by (simp add: jsonEnveloper_def GetJsonBasedEnvelope_def NewJsonPayloadEncode_def)
  moreover have "json_keeps plain_json ?meta r" for r by (simp add: json_keeps_def plain_json_def)
  ultimately show ?thesis
    using envelope_roundtrip [of Inr ?meta "Some ''h:1''" _ plain_json Inr] by fastforce
qed

end
