(* ===== verification/Cluster.thy ===== *)
theory Cluster
  imports Modules
begin

text \<open>
  The cluster server, \<open>cluster/store.go\<close>, \<open>cluster/server.go\<close> and the topics of \<open>cluster/topics.go\<close>: the
  store of the peers that have joined, and the handlers that answer its clients.  A handler runs over
  the module of the server, so what it sends is found in the connections of the transport.
\<close>

section \<open>The store\<close>

record ClusterStore =
  autoIncId :: "64 word"
  clientCreatedPeers :: "(UserData \<times> PeerHostInfo) list"

definition NewClusterStore :: ClusterStore where
  "NewClusterStore = \<lparr>autoIncId = 0, clientCreatedPeers = []\<rparr>"

definition ErrUserAlreadyExists :: go_error where
  "ErrUserAlreadyExists = Errorf ''User already exists''"
definition ErrUserPayload :: go_error where
  "ErrUserPayload = Errorf ''User payload was provided in the wrong format''"

definition isUserExists :: "ClusterStore \<Rightarrow> UserData \<Rightarrow> bool" where
  "isUserExists cs user = (map_of (clientCreatedPeers cs) user \<noteq> None)"

definition retrieveLockedCurrentPeers :: "ClusterStore \<Rightarrow> PeerHostInfo list" where
  "retrieveLockedCurrentPeers cs = map snd (clientCreatedPeers cs)"

definition RetrieveCurrentPeers :: "ClusterStore \<Rightarrow> PeerHostInfo list" where
  "RetrieveCurrentPeers cs = retrieveLockedCurrentPeers cs"

definition AddNewPeer :: "ClusterStore \<Rightarrow> PeerHostInfo \<Rightarrow> string \<Rightarrow>
    ClusterStore \<times> (go_error + PeerHostInfo list)" where
  "AddNewPeer cs info peerAddress =
     (if isUserExists cs (user_data info) then (cs, Inl ErrUserAlreadyExists)
      else let autoId = autoIncId cs + 1;
               newPeerInfo = CreateNewHostInfo (dec_nat (unat autoId)) (Name (user_data info)) peerAddress;
               cs' = \<lparr>autoIncId = autoId,
                 clientCreatedPeers = AList.update (user_data info) newPeerInfo (clientCreatedPeers cs)\<rparr>
           in (cs', Inr (newPeerInfo # retrieveLockedCurrentPeers cs')))"

definition RemovePeer :: "ClusterStore \<Rightarrow> PeerHostInfo \<Rightarrow> ClusterStore \<times> PeerHostInfo \<times> bool" where
  "RemovePeer cs info = (case map_of (clientCreatedPeers cs) (user_data info) of
       Some peerInfo \<Rightarrow> (cs\<lparr>clientCreatedPeers := AList.delete (user_data info) (clientCreatedPeers cs)\<rparr>,
         peerInfo, True)
     | None \<Rightarrow> (cs, emptyHostInfo, False))"

section \<open>The server\<close>

definition PING_RETRIEVE :: string where "PING_RETRIEVE = ''PING_RETRIEVE_TOPIC''"
definition PING_JOIN :: string where "PING_JOIN = ''PING_JOIN_TOPIC''"
definition PUSH :: string where "PUSH = ''PUSH_TOPIC''"

text \<open>What the nodes put into envelopes; the files of a push are a parameter.\<close>

datatype 'f app_value = V_text string | V_peers "PeerHostInfo list" | V_files 'f

datatype server_handler = On_retrieve | On_join | On_exit

record ('f, 'p, 'b) ClusterServer = "('f app_value, 'p, 'b, server_handler) AppNodeModule" +
  server_store :: ClusterStore

definition own_metadata :: "PeerHostInfo \<Rightarrow> string \<Rightarrow> PeerMetadata" where
  "own_metadata info isError = \<lparr>IsError = isError, host_info = info,
     session_fields = \<lparr>TopicName = '''', SessionId = '''', SeqNo = 0\<rparr>\<rparr>"

definition CreateNewClusterServer :: "('r, 'b) json_lib \<Rightarrow> ('f app_value \<Rightarrow> go_error + 'r) \<Rightarrow> PeerHostInfo \<Rightarrow>
    ('f, 'r JsonPayload, 'b) ClusterServer" where
  "CreateNewClusterServer lib marshal info =
     AppNodeModule.extend (Create_module lib marshal info) \<lparr>server_store = NewClusterStore\<rparr>"

text \<open>\<open>waitForMessages\<close> up to \<open>StartWaiting\<close>.\<close>

definition server_handlers :: "('f, 'p, 'b) ClusterServer \<Rightarrow> ('f, 'p, 'b) ClusterServer" where
  "server_handlers sv = sv\<lparr>Broker_of := RegisterHandler (RegisterHandler (RegisterHandler (Broker_of sv)
     PING_RETRIEVE On_retrieve) PING_JOIN On_join) PEER_EXIT_TOPIC On_exit\<rparr>"

definition handle_retrieve :: "(nat \<Rightarrow> go_error option) \<Rightarrow> ('f, 'p, 'b) ClusterServer \<Rightarrow> nat \<Rightarrow>
    'p PeerMessage \<Rightarrow> ('f, 'p, 'b) ClusterServer go" where
  "handle_retrieve written cs sess msg =
     (let data = RetrieveCurrentPeers (server_store cs)
      in case Enveloper cs (own_metadata (node_Id cs) '''') (Some (V_peers data)) of
          Inl err \<Rightarrow> Ret cs
        | Inr env \<Rightarrow> go_bind (module_Send written cs sess env (host_info (Key msg))) (\<lambda>(cs', err). Ret cs'))"

text \<open>\<open>sendError\<close> of the join handler: it sends when the enveloper has failed.  The message is then the
  zero envelope, whose payload the codec refuses after the session has counted it.\<close>

definition sendError :: "('f, 'p, 'b) ClusterServer \<Rightarrow> nat \<Rightarrow> go_error \<Rightarrow> ('f, 'p, 'b) ClusterServer" where
  "sendError cs sess err =
     (case Enveloper cs (own_metadata (node_Id cs) (error_msg err)) None of
        Inl e \<Rightarrow> cs\<lparr>Broker_of := fst (setupSendingMsg (Broker_of cs) sess
          (GetEmptyEnvelope (own_metadata emptyHostInfo '''')))\<rparr>
      | Inr res \<Rightarrow> cs)"

definition handle_join :: "(nat \<Rightarrow> go_error option) \<Rightarrow> ('p \<Rightarrow> go_error + string) \<Rightarrow> ('f, 'p, 'b) ClusterServer \<Rightarrow>
    nat \<Rightarrow> 'p PeerMessage \<Rightarrow> ('f, 'p, 'b) ClusterServer go" where
  "handle_join written dec_text cs sess msg =
     (let info = host_info (Key msg)
      in case payload_Decode dec_text (Data msg) of
          Inl err \<Rightarrow> Ret (sendError cs sess (Errorf (error_msg ErrUserPayload @ '': '' @ error_msg err)))
        | Inr peerAddress \<Rightarrow> (case AddNewPeer (server_store cs) info peerAddress of
              (st, Inl err) \<Rightarrow> Ret (sendError (cs\<lparr>server_store := st\<rparr>) sess ErrUserAlreadyExists)
            | (st, Inr resultPeers) \<Rightarrow>
                (let cs' = cs\<lparr>server_store := st\<rparr>
                 in if resultPeers = [] then Panic
                    else case Enveloper cs' (own_metadata (node_Id cs) '''') (Some (V_peers resultPeers)) of
                        Inl err \<Rightarrow> Ret cs'
                      | Inr res \<Rightarrow> go_bind (module_Send written cs' sess res info) (\<lambda>(cs'', err). Ret cs''))))"

definition handle_exit :: "('f, 'p, 'b) ClusterServer \<Rightarrow> 'p PeerMessage \<Rightarrow> ('f, 'p, 'b) ClusterServer" where
  "handle_exit cs msg = (let (st, peerInfo, removed) = RemovePeer (server_store cs) (host_info (Key msg))
     in cs\<lparr>server_store := st\<rparr>)"

text \<open>A message that arrives: the broker finds the handlers, and each runs and closes its session.\<close>

definition run_server_handler :: "(nat \<Rightarrow> go_error option) \<Rightarrow> ('p \<Rightarrow> go_error + string) \<Rightarrow>
    'p PeerMessage \<Rightarrow> server_handler \<Rightarrow> nat \<Rightarrow> ('f, 'p, 'b) ClusterServer \<Rightarrow> ('f, 'p, 'b) ClusterServer go" where
  "run_server_handler written dec_text msg h sess cs =
     go_bind (case h of
         On_retrieve \<Rightarrow> handle_retrieve written cs sess msg
       | On_join \<Rightarrow> handle_join written dec_text cs sess msg
       | On_exit \<Rightarrow> Ret (handle_exit cs msg))
     (\<lambda>cs'. go_bind (session_Close (Broker_of cs') sess) (\<lambda>mb. Ret (cs'\<lparr>Broker_of := mb\<rparr>)))"

fun run_handlers :: "('h \<Rightarrow> nat \<Rightarrow> 'c \<Rightarrow> 'c go) \<Rightarrow> ('h \<times> nat) list \<Rightarrow> 'c \<Rightarrow> 'c go" where
  "run_handlers run [] c = Ret c"
| "run_handlers run ((h, i) # runs) c = go_bind (run h i c) (run_handlers run runs)"

definition server_receive :: "(nat \<Rightarrow> go_error option) \<Rightarrow> ('p \<Rightarrow> go_error + string) \<Rightarrow>
    ('f, 'p, 'b) ClusterServer \<Rightarrow> 'p PeerMessage \<Rightarrow> ('f, 'p, 'b) ClusterServer go" where
  "server_receive written dec_text cs msg =
     go_bind (dispatchMessage (Broker_of cs) msg) (\<lambda>(mb, runs).
       run_handlers (run_server_handler written dec_text msg) runs (cs\<lparr>Broker_of := mb\<rparr>))"

section \<open>Histories of the store\<close>

datatype store_op = Join PeerHostInfo string | Leave PeerHostInfo

text \<open>The store after a history, and the peers it has assigned in the course of it.\<close>

fun store_run :: "ClusterStore \<Rightarrow> store_op list \<Rightarrow> ClusterStore \<times> PeerHostInfo list" where
  "store_run cs [] = (cs, [])"
| "store_run cs (Join info address # ops) = (case AddNewPeer cs info address of
     (cs', Inr (p # ps)) \<Rightarrow> (let (cs'', more) = store_run cs' ops in (cs'', p # more))
   | (cs', _) \<Rightarrow> store_run cs' ops)"
| "store_run cs (Leave info # ops) = store_run (fst (RemovePeer cs info)) ops"

definition assigned_ok :: "nat \<Rightarrow> ClusterStore \<Rightarrow> bool" where
  "assigned_ok n cs \<longleftrightarrow> autoIncId cs = word_of_nat n \<and> distinct (map fst (clientCreatedPeers cs)) \<and>
     distinct (map (Id \<circ> snd) (clientCreatedPeers cs)) \<and>
     (\<forall>p\<in>snd ` set (clientCreatedPeers cs). \<exists>k. 0 < k \<and> k \<le> n \<and> Id p = dec_nat k)"

lemma Id_update:
  "i \<notin> (Id \<circ> snd) ` set m \<Longrightarrow> distinct (map (Id \<circ> snd) m) \<Longrightarrow> Id p = i \<Longrightarrow>
    distinct (map (Id \<circ> snd) (AList.update k p m))"
proof (induction m)
  case (Cons x m)
  then show ?case using set_update_subset [of k p m] by (cases x) (auto simp: image_iff)
qed simp

lemma AddNewPeer_ok:
  assumes "assigned_ok n cs" "n + 1 < 2 ^ 64" "AddNewPeer cs info address = (cs', Inr ps)"
  shows "assigned_ok (n + 1) cs'" "ps \<noteq> []" "Id (hd ps) = dec_nat (n + 1)" "hd ps \<in> set (RetrieveCurrentPeers cs')"
    "set (RetrieveCurrentPeers cs') \<subseteq> insert (hd ps) (set (RetrieveCurrentPeers cs))"
proof -
  have w: "autoIncId cs + 1 = word_of_nat (n + 1)" using assms(1) by (simp add: assigned_ok_def)
  have u: "unat (word_of_nat (n + 1) :: 64 word) = n + 1" using assms(2) by (subst unat_of_nat) simp
  let ?p = "CreateNewHostInfo (dec_nat (n + 1)) (Name (user_data info)) address"
  have cs': "cs' = \<lparr>autoIncId = word_of_nat (n + 1),
      clientCreatedPeers = AList.update (user_data info) ?p (clientCreatedPeers cs)\<rparr>"
    and ps: "ps = ?p # retrieveLockedCurrentPeers cs'"
    using assms(3) unfolding AddNewPeer_def Let_def w u by (auto split: if_splits)
  have Idp: "Id ?p = dec_nat (n + 1)" by (simp add: CreateNewHostInfo_def)
  have sub: "set (AList.update (user_data info) ?p (clientCreatedPeers cs)) \<subseteq>
      insert (user_data info, ?p) (set (clientCreatedPeers cs))" by (rule set_update_subset)
  have fresh: "dec_nat (n + 1) \<notin> (Id \<circ> snd) ` set (clientCreatedPeers cs)"
    using assms(1) by (fastforce simp: assigned_ok_def)
  have "distinct (map (Id \<circ> snd) (AList.update (user_data info) ?p (clientCreatedPeers cs)))"
    using Id_update [OF fresh _ Idp] assms(1) by (simp add: assigned_ok_def)
  moreover have "\<exists>k. 0 < k \<and> k \<le> n + 1 \<and> Id p = dec_nat k"
    if "p \<in> snd ` set (AList.update (user_data info) ?p (clientCreatedPeers cs))" for p
  proof -
    from that sub have "p = ?p \<or> p \<in> snd ` set (clientCreatedPeers cs)" by auto
    then show ?thesis
    proof
      assume "p = ?p"
      with Idp show ?thesis by (intro exI [of _ "n + 1"]) simp
    next
      assume "p \<in> snd ` set (clientCreatedPeers cs)"
      with assms(1) obtain k where "0 < k" "k \<le> n" "Id p = dec_nat k" by (auto simp: assigned_ok_def)
      then show ?thesis by (intro exI [of _ k]) simp
    qed
  qed
  ultimately show "assigned_ok (n + 1) cs'"
    using assms(1) cs' by (simp add: assigned_ok_def distinct_update)
  show "ps \<noteq> []" "Id (hd ps) = dec_nat (n + 1)" using ps Idp by simp_all
  have "(user_data info, ?p) \<in> set (AList.update (user_data info) ?p (clientCreatedPeers cs))"
    by (rule map_of_SomeD) (simp add: update_conv')
  then show "hd ps \<in> set (RetrieveCurrentPeers cs')"
    using ps cs' by (force simp: RetrieveCurrentPeers_def retrieveLockedCurrentPeers_def)
  show "set (RetrieveCurrentPeers cs') \<subseteq> insert (hd ps) (set (RetrieveCurrentPeers cs))"
    using ps cs' sub by (auto simp: RetrieveCurrentPeers_def retrieveLockedCurrentPeers_def)
qed


lemma RemovePeer_ok: "assigned_ok n cs \<Longrightarrow> assigned_ok n (fst (RemovePeer cs info))"
  by (auto simp: assigned_ok_def RemovePeer_def AList.delete_eq distinct_map_filter split: option.split)

lemma RemovePeer_subset: "set (RetrieveCurrentPeers (fst (RemovePeer cs info))) \<subseteq> set (RetrieveCurrentPeers cs)"
  by (auto simp: RemovePeer_def RetrieveCurrentPeers_def retrieveLockedCurrentPeers_def AList.delete_eq
      split: option.split)

lemma AddNewPeer_refused: "AddNewPeer cs info address = (cs', Inl err) \<Longrightarrow> cs' = cs"
  by (auto simp: AddNewPeer_def Let_def split: if_splits)

lemma store_run_ok:
  assumes "store_run cs ops = (cs', assigned)" "assigned_ok n cs" "n + length ops < 2 ^ 64"
  shows "map Id assigned = map dec_nat [n + 1..<n + 1 + length assigned] \<and> assigned_ok (n + length assigned) cs' \<and>
    set (RetrieveCurrentPeers cs') \<subseteq> set (RetrieveCurrentPeers cs) \<union> set assigned"
  using assms
proof (induction cs ops arbitrary: n assigned rule: store_run.induct)
  case (1 cs)
  then show ?case by simp
next
  case (2 cs info address ops)
  obtain cs1 res where add: "AddNewPeer cs info address = (cs1, res)" by (cases "AddNewPeer cs info address")
  show ?case
  proof (cases res)
    case (Inl err)
    with add have "cs1 = cs" by (simp add: AddNewPeer_refused)
    with "2.IH"(1) [OF add [symmetric] Inl] add Inl "2.prems" show ?thesis by simp
  next
    case (Inr ps)
    have "n + 1 < 2 ^ 64" using "2.prems"(3) by simp
    note added = AddNewPeer_ok [OF "2.prems"(2) this add [unfolded Inr]]
    then obtain p rest where ps: "ps = p # rest" using "2.prems"(3) by (cases ps) auto
    obtain cs2 more where run: "store_run cs1 ops = (cs2, more)" by (cases "store_run cs1 ops")
    with "2.prems"(1) add Inr ps have c: "cs' = cs2" "assigned = p # more" by auto
    have "map Id more = map dec_nat [n + 1 + 1..<n + 1 + 1 + length more] \<and> assigned_ok (n + 1 + length more) cs' \<and>
      set (RetrieveCurrentPeers cs') \<subseteq> set (RetrieveCurrentPeers cs1) \<union> set more"
      using "2.IH"(3) [OF add [symmetric] Inr ps run [folded c(1)] added(1)] "2.prems"(3) by simp
    with added(3,5) ps c "2.prems"(3) show ?thesis by (auto simp: upt_conv_Cons)
  qed
next
  case (3 cs info ops)
  with RemovePeer_ok [of n cs info] RemovePeer_subset [of cs info] show ?case by fastforce
qed

lemma NewClusterStore_ok: "assigned_ok 0 NewClusterStore"
  by (simp add: assigned_ok_def NewClusterStore_def)

text \<open>C15. Whatever joins and leaves a store sees, short of \<open>2\<^sup>6\<^sup>4\<close> of them, the identifiers it assigns are
  the numbers from 1 in their order, so none is ever given twice, not even after its peer has left; and
  the peers it lists are among those it has assigned, each once.\<close>
theorem assigned_ids_unique:
  assumes "store_run NewClusterStore ops = (cs, assigned)" "length ops < 2 ^ 64"
  shows "map Id assigned = map dec_nat [1..<Suc (length assigned)] \<and> distinct (map Id assigned) \<and>
    set (RetrieveCurrentPeers cs) \<subseteq> set assigned \<and> distinct (map Id (RetrieveCurrentPeers cs))"
proof -
  have "map Id assigned = map dec_nat [1..<Suc (length assigned)] \<and> assigned_ok (length assigned) cs \<and>
      set (RetrieveCurrentPeers cs) \<subseteq> set (RetrieveCurrentPeers NewClusterStore) \<union> set assigned"
    using store_run_ok [OF assms(1) NewClusterStore_ok] assms(2) by simp
  moreover have "distinct (map dec_nat [1..<Suc (length assigned)])" by (simp add: distinct_map inj_on_def)
  moreover have "RetrieveCurrentPeers NewClusterStore = []"
    by (simp add: RetrieveCurrentPeers_def retrieveLockedCurrentPeers_def NewClusterStore_def)
  ultimately show ?thesis
    by (auto simp: assigned_ok_def RetrieveCurrentPeers_def retrieveLockedCurrentPeers_def comp_def)
qed

theorem assigned_ids_unique_witness:
  "map Id (snd (store_run NewClusterStore
    [Join peer1 ''h:5'', Leave peer1, Join peer2 ''h:6'', Join peer2 ''h:7'', Join peer1 ''h:8''])) = [''1'', ''2'', ''3'']"
proof -
  let ?ops = "[Join peer1 ''h:5'', Leave peer1, Join peer2 ''h:6'', Join peer2 ''h:7'', Join peer1 ''h:8'']"
  obtain cs assigned where run: "store_run NewClusterStore ?ops = (cs, assigned)"
    by (cases "store_run NewClusterStore ?ops")
  have "length (snd (store_run NewClusterStore ?ops)) = 3" by code_simp
  with run have "[1..<Suc (length assigned)] = [1, 2, 3]" by (simp add: upt_conv_Cons)
  moreover have "map dec_nat [1, 2, 3] = [''1'', ''2'', ''3'']" by code_simp
  ultimately show ?thesis using assigned_ids_unique [OF run] run by simp
qed


section \<open>Answers\<close>

text \<open>A first message for one handler: its session is new, and open until the handler has returned.\<close>

definition with_session :: "('p, 'h) PeerMessageBroker \<Rightarrow> 'p PeerMessage \<Rightarrow> ('p, 'h) PeerMessageBroker" where
  "with_session mb msg = snd (createSessionLocked mb (msg_topic msg) SessionReceiver (msg_session msg))"

lemma dispatch_one:
  assumes "\<not> stopped mb" "msg_seq msg = 0" "map_of (handlers mb) (msg_topic msg) = Some [h]"
  shows "dispatchMessage mb msg = Ret (with_session mb msg, [(h, length (sessions mb))])"
  using assms by (simp add: dispatchMessage_def dispatch_locked_def NEW_MSG_SEQUENCE_def createSessionLocked_def
      Let_def with_session_def)

lemma with_session_nth [simp]:
  "sessions (with_session mb msg) ! length (sessions mb) =
    fresh_session (QueueSize mb) (msg_topic msg) (msg_session msg) INITIATED_MSG_SEQUENCE"
  "length (sessions (with_session mb msg)) = Suc (length (sessions mb))"
  by (simp_all add: with_session_def createSessionLocked_def Let_def)

text \<open>Closing the session of a handler that has sent at most one message does nothing else.\<close>

lemma close_after:
  assumes "mb = with_session mb0 msg \<or> mb = fst (setupSendingMsg (with_session mb0 msg) (length (sessions mb0)) data)"
  shows "\<exists>mb'. session_Close mb (length (sessions mb0)) = Ret mb'"
  using assms by (auto simp: session_Close_def chan_close_def chan_make_def setupSendingMsg_def Let_def)

text \<open>C37. A request to join that the server refuses, because its payload does not decode or because its
  user has joined before, is never answered: no connection carries anything new, and the store stays as
  it was.  The client waits for its timeout.\<close>
theorem join_refusal_unanswered:
  assumes "Enveloper cs = jsonEnveloper marshal" "\<not> stopped (Broker_of cs)"
    "map_of (handlers (Broker_of cs)) PING_JOIN = Some [On_join]" "msg_topic msg = PING_JOIN" "msg_seq msg = 0"
    "(\<exists>err. payload_Decode dec_text (Data msg) = Inl err) \<or>
     isUserExists (server_store cs) (user_data (host_info (Key msg)))"
  shows "\<exists>cs'. server_receive written dec_text cs msg = Ret cs' \<and> Transport_of cs' = Transport_of cs \<and>
    server_store cs' = server_store cs"
proof -
  let ?cs = "cs\<lparr>Broker_of := with_session (Broker_of cs) msg\<rparr>"
  have se: "sendError c sess err = c" if "Enveloper c = jsonEnveloper marshal" for c sess err
    using that by (simp add: sendError_def jsonEnveloper_def)
  have "handle_join written dec_text ?cs (length (sessions (Broker_of cs))) msg = Ret ?cs"
  proof (cases "payload_Decode dec_text (Data msg)")
    case (Inl err)
    then show ?thesis using assms(1) by (simp add: handle_join_def se)
  next
    case (Inr address)
    then have "isUserExists (server_store cs) (user_data (host_info (Key msg)))" using assms(6) by simp
    then have "AddNewPeer (server_store cs) (host_info (Key msg)) address = (server_store cs, Inl ErrUserAlreadyExists)"
      by (simp add: AddNewPeer_def)
    with Inr show ?thesis using assms(1) by (simp add: handle_join_def Let_def se)
  qed
  moreover obtain mb where "session_Close (with_session (Broker_of cs) msg) (length (sessions (Broker_of cs))) = Ret mb"
    using close_after by blast
  moreover have "dispatchMessage (Broker_of cs) msg =
      Ret (with_session (Broker_of cs) msg, [(On_join, length (sessions (Broker_of cs)))])"
    by (rule dispatch_one) (use assms in simp_all)
  ultimately show ?thesis by (simp add: server_receive_def run_server_handler_def)
qed


text \<open>What the two ends of a small cluster are made of: a JSON that keeps values as they are, and a server
  that \<open>ann\<close> of \<open>peer1\<close> is connected to.\<close>

definition value_json :: "('f app_value, PeerMetadata \<times> 'f app_value) json_lib" where
  "value_json = \<lparr>marshal_env = (\<lambda>key r. Inr (key, r)), unmarshal_env = Inr, braces = V_text ''{}''\<rparr>"

definition as_text :: "unit app_value JsonPayload \<Rightarrow> go_error + string" where
  "as_text = JsonPayload_Decode (\<lambda>v. case v of V_text t \<Rightarrow> Inr t | _ \<Rightarrow> Inl (Errorf ''not a string''))"

type_synonym small_server = "(unit, unit app_value JsonPayload, PeerMetadata \<times> unit app_value) ClusterServer"

definition small_server :: small_server where
  "small_server = (let cs = server_handlers (CreateNewClusterServer value_json Inr peer0)
     in cs\<lparr>Transport_of := the (layer_runs True (Transport_of cs) [Listen peer0, Accept (Inr (Inr peer1))])\<rparr>)"

definition join_request :: "unit app_value \<Rightarrow> unit app_value JsonPayload PeerMessage" where
  "join_request v = \<lparr>Key = \<lparr>IsError = '''', host_info = peer1,
     session_fields = \<lparr>TopicName = PING_JOIN, SessionId = ''u'', SeqNo = 0\<rparr>\<rparr>, Data = Payload (JsonPayloadRef v)\<rparr>"

lemma small_server_facts:
  "Enveloper small_server = jsonEnveloper Inr" "\<not> stopped (Broker_of small_server)"
  "map_of (handlers (Broker_of small_server)) PING_JOIN = Some [On_join]"
  by (simp_all add: small_server_def server_handlers_def CreateNewClusterServer_def Create_module_def
      CreateFromArgs_def initModule_def NewPeerMessageBroker_def RegisterHandler_def AppNodeModule.defs
      NetworkModule.defs Let_def PING_RETRIEVE_def PING_JOIN_def PEER_EXIT_TOPIC_def)

theorem join_refusal_unanswered_witness:
  "\<exists>cs'. server_receive (\<lambda>c. None) as_text small_server (join_request (V_peers [])) = Ret cs' \<and>
    Transport_of cs' = Transport_of small_server"
proof -
  have "payload_Decode as_text (Data (join_request (V_peers []))) = Inl (Errorf ''not a string'')"
    by (simp add: join_request_def as_text_def JsonPayload_Decode_def)
  moreover have "msg_topic (join_request (V_peers [])) = PING_JOIN" "msg_seq (join_request (V_peers [])) = 0"
    by (simp_all add: join_request_def)
  ultimately show ?thesis
    using join_refusal_unanswered [OF small_server_facts, of "join_request (V_peers [])" as_text "\<lambda>c. None"] by blast
qed

text \<open>C16. A request to join that the server accepts is answered over the connection of its sender: with
  the fresh peer first, then all peers of the store, in the session of the request, under the sequence
  number its sender waits for.\<close>
theorem join_answered:
  assumes "Enveloper cs = jsonEnveloper marshal" "\<not> stopped (Broker_of cs)"
    "map_of (handlers (Broker_of cs)) PING_JOIN = Some [On_join]" "msg_topic msg = PING_JOIN" "msg_seq msg = 0"
    "payload_Decode dec_text (Data msg) = Inr address"
    "AddNewPeer (server_store cs) (host_info (Key msg)) address = (st, Inr ps)" "marshal (V_peers ps) = Inr r"
    "endDec (Transport_of cs) = Some codec" "map_of (peers (Transport_of cs)) (host_info (Key msg)) = Some c"
    "c < length (conns (Transport_of cs))" "\<not> conn_closed (conns (Transport_of cs) ! c)" "written c = None"
    "Encode codec \<lparr>Key = \<lparr>IsError = '''', host_info = node_Id cs, session_fields =
      \<lparr>TopicName = PING_JOIN, SessionId = msg_session msg, SeqNo = 1\<rparr>\<rparr>, Data = Payload (JsonPayload r)\<rparr> = Inr bytes"
  shows "\<exists>cs'. server_receive written dec_text cs msg = Ret cs' \<and> server_store cs' = st \<and>
    ps = hd ps # RetrieveCurrentPeers st \<and> Id (hd ps) = dec_nat (unat (autoIncId (server_store cs) + 1)) \<and>
    conn_sent (conns (Transport_of cs') ! c) = conn_sent (conns (Transport_of cs) ! c) @ [bytes]"
proof -
  let ?i = "length (sessions (Broker_of cs))"
  let ?mb = "with_session (Broker_of cs) msg"
  let ?cs = "cs\<lparr>Broker_of := ?mb, server_store := st\<rparr>"
  let ?res = "\<lparr>Key = own_metadata (node_Id cs) '''', Data = Payload (JsonPayload r)\<rparr>"
  let ?t = "(Transport_of cs)\<lparr>conns := (conns (Transport_of cs))[c := (conns (Transport_of cs) ! c)
    \<lparr>conn_sent := conn_sent (conns (Transport_of cs) ! c) @ [bytes]\<rparr>]\<rparr>"
  obtain mb data where set: "setupSendingMsg ?mb ?i ?res = (mb, Inr data)" "mb = fst (setupSendingMsg ?mb ?i ?res)"
    "data = \<lparr>Key = \<lparr>IsError = '''', host_info = node_Id cs, session_fields =
      \<lparr>TopicName = PING_JOIN, SessionId = msg_session msg, SeqNo = 1\<rparr>\<rparr>, Data = Payload (JsonPayload r)\<rparr>"
    using assms(4) by (simp add: setupSendingMsg_def Let_def own_metadata_def INITIATED_MSG_SEQUENCE_def)
  have "tcp_Send written (Transport_of cs) data (host_info (Key msg)) = Ret (?t, None)"
    using assms(9,10,12,13,14) set(3) by (simp add: tcp_Send_def isPeerPresent_def conn_Send_def)
  then have "module_Send written ?cs ?i ?res (host_info (Key msg)) = Ret (?cs\<lparr>Broker_of := mb, Transport_of := ?t\<rparr>, None)"
    using set(1) by (simp add: module_Send_def)
  moreover have "ps = hd ps # RetrieveCurrentPeers st"
    "Id (hd ps) = dec_nat (unat (autoIncId (server_store cs) + 1))"
    using assms(7) by (auto simp: AddNewPeer_def Let_def RetrieveCurrentPeers_def CreateNewHostInfo_def split: if_splits)
  moreover have "ps \<noteq> []" using calculation(2) by (metis list.distinct(1))
  ultimately have "handle_join written dec_text (cs\<lparr>Broker_of := ?mb\<rparr>) ?i msg = Ret (?cs\<lparr>Broker_of := mb, Transport_of := ?t\<rparr>)"
    using assms(1,6,7,8) by (simp add: handle_join_def Let_def jsonEnveloper_def GetJsonBasedEnvelope_def
        NewJsonPayloadEncode_def)
  moreover obtain mb' where "session_Close mb ?i = Ret mb'" using close_after set(2) by blast
  moreover have "dispatchMessage (Broker_of cs) msg = Ret (?mb, [(On_join, ?i)])"
    by (rule dispatch_one) (use assms in simp_all)
  ultimately show ?thesis
    using \<open>ps = hd ps # RetrieveCurrentPeers st\<close> \<open>Id (hd ps) = _\<close> assms(11)
    by (simp add: server_receive_def run_server_handler_def)
qed


lemma small_server_codec: "endDec (Transport_of small_server) = Some (NewJsonEnvelopeCodec value_json)"
proof -
  let ?layer = "setup_transport (NewJsonEnvelopeCodec value_json) (\<lambda>meta. jsonEnveloper Inr meta None) ::
    (unit app_value JsonPayload, PeerMetadata \<times> unit app_value) TCPLayer"
  let ?cs = "server_handlers (CreateNewClusterServer value_json Inr peer0) :: small_server"
  let ?evs = "[Listen peer0, Accept (Inr (Inr peer1))]"
  have layer: "Transport_of ?cs = ?layer"
    by (simp add: server_handlers_def CreateNewClusterServer_def Create_module_def CreateFromArgs_def
        initModule_def AppNodeModule.defs NetworkModule.defs)
  have "layer_runs True (Transport_of ?cs) ?evs \<noteq> None" by code_simp
  then have "clean_reachable ?layer (the (layer_runs True ?layer ?evs))"
    unfolding layer by (rule layer_runs_the)
  then have "layer_ok (NewJsonEnvelopeCodec value_json) (the (layer_runs True ?layer ?evs))"
    by (intro layer_reachable_ok [OF clean_layer_reachable])
  moreover have "Transport_of small_server = the (layer_runs True ?layer ?evs)"
    unfolding small_server_def Let_def layer by simp
  ultimately show ?thesis by (simp only: layer_ok_def)
qed

theorem join_answered_witness:
  "\<exists>cs' b. server_receive (\<lambda>c. None) as_text small_server (join_request (V_text ''h:9'')) = Ret cs' \<and>
    map conn_sent (conns (Transport_of cs')) = [[b]] \<and>
    snd b = V_peers [CreateNewHostInfo ''1'' ''ann'' ''h:9'', CreateNewHostInfo ''1'' ''ann'' ''h:9'']"
proof -
  let ?msg = "join_request (V_text ''h:9'')"
  let ?new = "CreateNewHostInfo ''1'' ''ann'' ''h:9''"
  let ?key = "\<lparr>IsError = '''', host_info = node_Id small_server, session_fields =
    \<lparr>TopicName = PING_JOIN, SessionId = ''u'', SeqNo = 1\<rparr>\<rparr>"
  let ?codec = "NewJsonEnvelopeCodec value_json"
  have "msg_topic ?msg = PING_JOIN" "msg_seq ?msg = 0" "payload_Decode as_text (Data ?msg) = Inr ''h:9''"
    "msg_session ?msg = ''u''" "host_info (Key ?msg) = peer1"
    by (simp_all add: join_request_def as_text_def JsonPayload_Decode_def)
  moreover have "AddNewPeer (server_store small_server) peer1 ''h:9'' =
      (\<lparr>autoIncId = 1, clientCreatedPeers = [(user_data peer1, ?new)]\<rparr>, Inr [?new, ?new])"
    by code_simp
  moreover have "endDec (Transport_of small_server) = Some ?codec" by (rule small_server_codec)
  moreover have "map_of (peers (Transport_of small_server)) peer1 = Some 0"
    "length (conns (Transport_of small_server)) = 1" "\<not> conn_closed (conns (Transport_of small_server) ! 0)"
    "conn_sent (conns (Transport_of small_server) ! 0) = []"
    by code_simp+
  moreover have "Encode ?codec \<lparr>Key = ?key, Data = Payload (JsonPayload (V_peers [?new, ?new]))\<rparr> =
      Inr (?key, V_peers [?new, ?new])"
    by (simp add: NewJsonEnvelopeCodec_def JsonEnvelopeEncoder_Encode_def value_json_def)
  ultimately obtain cs' where cs': "server_receive (\<lambda>c. None) as_text small_server ?msg = Ret cs'"
    "conn_sent (conns (Transport_of cs') ! 0) = [(?key, V_peers [?new, ?new])]"
    using join_answered [OF small_server_facts, of ?msg as_text "''h:9''" _ "[?new, ?new]" "V_peers [?new, ?new]"
        ?codec 0 "\<lambda>c. None" "(?key, V_peers [?new, ?new])"] by auto
  have "case server_receive (\<lambda>c. None) as_text small_server ?msg of
      Ret cs \<Rightarrow> length (conns (Transport_of cs)) = 1 | _ \<Rightarrow> False"
    by code_simp
  with cs' show ?thesis by (auto simp: length_Suc_conv)
qed

end
