(* ===== verification/Registry.thy ===== *)
theory Registry
  imports Prelude
begin

text \<open>
  The registry of replicated files, \<open>file/registry.go\<close>, \<open>file/context.go\<close>, \<open>file/utils.go\<close> and the
  dumper of \<open>file/polling.go\<close>.  A context ties a replicated state to a file; the state is any value
  with the operations of \<open>utils.ObservableState\<close> (\<open>utils/interface.go\<close>).  The operating system is a
  record of operations on a world \<open>'w\<close> with file handles \<open>'f\<close>.  The operations of the registry hold its
  lock and run to their end; a tick of a dumper comes between them.
\<close>

section \<open>The interfaces\<close>

text \<open>\<open>ObservableState[M, string]\<close> with the constructor the registry is given and \<open>Clone\<close> of \<open>M\<close>.\<close>

record ('m, 's) ObservableState =
  newEmptyCtxSupplier :: 'm
  obs_UpdateState :: "'m \<Rightarrow> 's \<Rightarrow> ('m \<times> go_error option) go"
  obs_GetState :: "'m \<Rightarrow> 's"
  obs_Snapshot :: "'m \<Rightarrow> (string \<times> bool) \<times> 'm"
  obs_Clone :: "'s \<Rightarrow> 's"

datatype lstat = Exists | Not_exist | Lstat_error go_error

record ('w, 'f) os =
  MkdirAll :: "'w \<Rightarrow> string \<Rightarrow> 'w \<times> go_error option"
  Lstat :: "'w \<Rightarrow> string \<Rightarrow> lstat"
  Create :: "'w \<Rightarrow> string \<Rightarrow> 'w \<times> go_error option"
  os_OpenFile :: "'w \<Rightarrow> string \<Rightarrow> 'w \<times> (go_error + 'f)"
  Rewrite :: "'w \<Rightarrow> 'f \<Rightarrow> string \<Rightarrow> 'w"
  Close_file :: "'w \<Rightarrow> 'f \<Rightarrow> 'w \<times> go_error option"

section \<open>Files\<close>

definition IsFileExists :: "('w, 'f) os \<Rightarrow> 'w \<Rightarrow> string \<Rightarrow> bool \<times> go_error option" where
  "IsFileExists os w path = (case Lstat os w path of
       Lstat_error err \<Rightarrow> (False, Some err) | Not_exist \<Rightarrow> (False, None) | Exists \<Rightarrow> (True, None))"

definition CreateFile :: "('w, 'f) os \<Rightarrow> 'w \<Rightarrow> string \<Rightarrow> 'w \<times> go_error option" where
  "CreateFile os w path =
     (case IsFileExists os w path of
        (_, Some err) \<Rightarrow> (w, Some err)
      | (ex, None) \<Rightarrow> if ex then (w, Some (Errorf (''file already exists: '' @ path))) else Create os w path)"

text \<open>\<open>OpenFile\<close> answers a handle and an error, either of which may be nil; for a file that does not exist
  both are.\<close>

definition OpenFile :: "('w, 'f) os \<Rightarrow> 'w \<Rightarrow> string \<Rightarrow> 'w \<times> 'f option \<times> go_error option" where
  "OpenFile os w path =
     (let (ex, err) = IsFileExists os w path
      in if \<not> ex then (w, None, err)
         else case os_OpenFile os w path of
             (w', Inl err) \<Rightarrow> (w', None, Some err)
           | (w', Inr f) \<Rightarrow> (w', Some f, None))"

section \<open>Contexts\<close>

text \<open>The dumper of a context, and the context.  The handle may be nil.\<close>

record 'f StatePollingDumper =
  writer :: "'f option"
  stopCh_closed :: bool

record ('m, 'f) FileContext =
  localPath :: string
  metaState :: 'm
  isStateTracked :: bool
  poller :: "'f StatePollingDumper"

record 's FileContextInfo =
  LocalPath :: string
  IsNewlyCreated :: bool
  ReadOnlyState :: 's

definition GetFileStringPollingDumper :: "'f option \<Rightarrow> 'f StatePollingDumper" where
  "GetFileStringPollingDumper f = \<lparr>writer = f, stopCh_closed = False\<rparr>"

definition GetNewFileContext :: "string \<Rightarrow> 'm \<Rightarrow> 'f option \<Rightarrow> ('m, 'f) FileContext" where
  "GetNewFileContext path state f = \<lparr>localPath = path, metaState = state, isStateTracked = False,
     poller = GetFileStringPollingDumper f\<rparr>"

text \<open>Closing the stop channel a second time panics; the writer of a stopped dumper is closed.\<close>

definition dumper_Stop ::
  "('w, 'f) os \<Rightarrow> 'w \<Rightarrow> 'f StatePollingDumper \<Rightarrow> ('w \<times> 'f StatePollingDumper \<times> go_error option) go" where
  "dumper_Stop os w sd =
     (if stopCh_closed sd then Panic
      else (case writer sd of
          None \<Rightarrow> Ret (w, sd\<lparr>stopCh_closed := True\<rparr>, Some (Errorf ''invalid argument''))
        | Some f \<Rightarrow> (let (w', err) = Close_file os w f in Ret (w', sd\<lparr>stopCh_closed := True\<rparr>, err))))"

definition TrackState :: "('m, 'f) FileContext \<Rightarrow> ('m, 'f) FileContext" where
  "TrackState fc = fc\<lparr>isStateTracked := True\<rparr>"

definition UntrackState ::
  "('w, 'f) os \<Rightarrow> 'w \<Rightarrow> ('m, 'f) FileContext \<Rightarrow> ('w \<times> ('m, 'f) FileContext \<times> go_error option) go" where
  "UntrackState os w fc =
     go_bind (dumper_Stop os w (poller fc)) (\<lambda>(w', sd, err).
       Ret (w', fc\<lparr>isStateTracked := False, poller := sd\<rparr>, err))"

definition ctx_UpdateState ::
  "('m, 's) ObservableState \<Rightarrow> ('m, 'f) FileContext \<Rightarrow> 's \<Rightarrow> (('m, 'f) FileContext \<times> go_error option) go" where
  "ctx_UpdateState ob fc internalState =
     go_bind (obs_UpdateState ob (metaState fc) internalState) (\<lambda>(m, err). Ret (fc\<lparr>metaState := m\<rparr>, err))"

definition GetStateCopy :: "('m, 's) ObservableState \<Rightarrow> ('m, 'f) FileContext \<Rightarrow> 's FileContextInfo" where
  "GetStateCopy ob fc = \<lparr>LocalPath = localPath fc, IsNewlyCreated = False,
     ReadOnlyState = obs_Clone ob (obs_GetState ob (metaState fc))\<rparr>"

text \<open>One tick of \<open>Run\<close>: nothing is written when the snapshot says the state has been seen.\<close>

definition dumper_tick :: "('w, 'f) os \<Rightarrow> ('m, 's) ObservableState \<Rightarrow> 'w \<Rightarrow> ('m, 'f) FileContext \<Rightarrow>
    'w \<times> ('m, 'f) FileContext" where
  "dumper_tick os ob w fc =
     (if stopCh_closed (poller fc) then (w, fc)
      else let ((rappr, isStateUpToDate), m) = obs_Snapshot ob (metaState fc); fc' = fc\<lparr>metaState := m\<rparr>
           in if isStateUpToDate then (w, fc')
              else case writer (poller fc) of
                  None \<Rightarrow> (w, fc') | Some f \<Rightarrow> (Rewrite os w f rappr, fc'))"

section \<open>The registry\<close>

record ('m, 'f) FileRegistry =
  localDomainPrefix :: string
  fileContexts :: "(string \<times> ('m, 'f) FileContext) list"

definition FILE_CTX_NOT_FOUND :: go_error where
  "FILE_CTX_NOT_FOUND = Errorf ''file context not found''"

definition CreateNewCRDTFileRegistry :: "string \<Rightarrow> ('m, 'f) FileRegistry" where
  "CreateNewCRDTFileRegistry pre = \<lparr>localDomainPrefix = pre, fileContexts = []\<rparr>"

definition getFileCtx :: "('m, 'f) FileRegistry \<Rightarrow> string \<Rightarrow> go_error + ('m, 'f) FileContext" where
  "getFileCtx fr fileName = (case map_of (fileContexts fr) fileName of
       Some ctx \<Rightarrow> Inr ctx | None \<Rightarrow> Inl FILE_CTX_NOT_FOUND)"

abbreviation put_ctx :: "('m, 'f) FileRegistry \<Rightarrow> string \<Rightarrow> ('m, 'f) FileContext \<Rightarrow> ('m, 'f) FileRegistry" where
  "put_ctx fr fileName ctx \<equiv> fr\<lparr>fileContexts := AList.update fileName ctx (fileContexts fr)\<rparr>"

definition createFileCtx :: "('w, 'f) os \<Rightarrow> ('m, 's) ObservableState \<Rightarrow> 'w \<Rightarrow> ('m, 'f) FileRegistry \<Rightarrow>
    string \<Rightarrow> 'w \<times> ('m, 'f) FileRegistry \<times> go_error option" where
  "createFileCtx os ob w fr fileName =
     (let fullPath = localDomainPrefix fr @ fileName
      in case MkdirAll os w (localDomainPrefix fr) of
          (w1, Some err) \<Rightarrow> (w1, fr, Some (Errorf (''failed to create directory '' @
            localDomainPrefix fr @ '': '' @ error_msg err)))
        | (w1, None) \<Rightarrow> (case CreateFile os w1 fullPath of
            (w2, Some err) \<Rightarrow> (w2, fr, Some err)
          | (w2, None) \<Rightarrow> (case OpenFile os w2 fullPath of
              (w3, f, Some err) \<Rightarrow> (w3, fr, Some err)
            | (w3, f, None) \<Rightarrow> (w3, put_ctx fr fileName
                (TrackState (GetNewFileContext fileName (newEmptyCtxSupplier ob) f)), None))))"

definition UpdateFileCtx :: "('w, 'f) os \<Rightarrow> ('m, 's) ObservableState \<Rightarrow> 'w \<Rightarrow> ('m, 'f) FileRegistry \<Rightarrow>
    's FileContextInfo \<Rightarrow> ('w \<times> ('m, 'f) FileRegistry \<times> (go_error + 's FileContextInfo)) go" where
  "UpdateFileCtx os ob w fr fileCtx =
     (let path = LocalPath fileCtx;
          wasCtxNewlyCreated = (case getFileCtx fr path of Inl _ \<Rightarrow> True | Inr _ \<Rightarrow> False);
          (w1, fr1, err) = (if wasCtxNewlyCreated then createFileCtx os ob w fr path else (w, fr, None))
      in case err of
          Some e \<Rightarrow> Ret (w1, fr1, Inl e)
        | None \<Rightarrow> (case getFileCtx fr1 path of
            Inl _ \<Rightarrow> Panic
          | Inr ctx \<Rightarrow> go_bind (ctx_UpdateState ob ctx (ReadOnlyState fileCtx)) (\<lambda>(ctx', uerr).
              Ret (w1, put_ctx fr1 path ctx', (case uerr of
                  Some e \<Rightarrow> Inl e
                | None \<Rightarrow> Inr ((GetStateCopy ob ctx')\<lparr>IsNewlyCreated := wasCtxNewlyCreated\<rparr>))))))"

definition GetFileCtxInfo ::
  "('m, 's) ObservableState \<Rightarrow> ('m, 'f) FileRegistry \<Rightarrow> string \<Rightarrow> go_error + 's FileContextInfo" where
  "GetFileCtxInfo ob fr fileName = (case getFileCtx fr fileName of
       Inl err \<Rightarrow> Inl err | Inr ctx \<Rightarrow> Inr (GetStateCopy ob ctx))"

definition GetFileContent :: "('m, 's) ObservableState \<Rightarrow> ('m, 'f) FileRegistry \<Rightarrow> string \<Rightarrow>
    ('m, 'f) FileRegistry \<times> (go_error + string)" where
  "GetFileContent ob fr fileName = (case getFileCtx fr fileName of
       Inl err \<Rightarrow> (fr, Inl err)
     | Inr fctx \<Rightarrow> (let ((text, _), m) = obs_Snapshot ob (metaState fctx)
         in (put_ctx fr fileName (fctx\<lparr>metaState := m\<rparr>), Inr text)))"

definition getAllFileCtxInfoLocked ::
  "('m, 's) ObservableState \<Rightarrow> ('m, 'f) FileRegistry \<Rightarrow> (string \<times> 's FileContextInfo) list" where
  "getAllFileCtxInfoLocked ob fr = map (\<lambda>(name, ctx). (name, GetStateCopy ob ctx)) (fileContexts fr)"

definition GetAllFileCtxInfo ::
  "('m, 's) ObservableState \<Rightarrow> ('m, 'f) FileRegistry \<Rightarrow> (string \<times> 's FileContextInfo) list" where
  "GetAllFileCtxInfo ob fr = getAllFileCtxInfoLocked ob fr"

definition removeFileCtx :: "('w, 'f) os \<Rightarrow> 'w \<Rightarrow> ('m, 'f) FileRegistry \<Rightarrow> string \<Rightarrow>
    ('w \<times> ('m, 'f) FileRegistry \<times> go_error option) go" where
  "removeFileCtx os w fr filename = (case getFileCtx fr filename of
       Inl _ \<Rightarrow> Ret (w, fr, None)
     | Inr ctx \<Rightarrow> go_bind (UntrackState os w ctx) (\<lambda>(w', ctx', err). case err of
           Some e \<Rightarrow> Ret (w', put_ctx fr filename ctx', Some e)
         | None \<Rightarrow> Ret (w', fr\<lparr>fileContexts := AList.delete filename (fileContexts fr)\<rparr>, None)))"

text \<open>The loop of \<open>RemoveAllCtx\<close> over the names; the errors are joined.\<close>

fun remove_all :: "('w, 'f) os \<Rightarrow> 'w \<Rightarrow> ('m, 'f) FileRegistry \<Rightarrow> string list \<Rightarrow>
    ('w \<times> ('m, 'f) FileRegistry \<times> go_error list) go" where
  "remove_all os w fr [] = Ret (w, fr, [])"
| "remove_all os w fr (path # paths) =
     go_bind (removeFileCtx os w fr path) (\<lambda>(w', fr', err).
       go_bind (remove_all os w' fr' paths) (\<lambda>(w'', fr'', errs).
         Ret (w'', fr'', (case err of None \<Rightarrow> errs | Some e \<Rightarrow>
           Errorf (''error while trying to close file context '' @ path @ '': '' @ error_msg e) # errs))))"

definition RemoveAllCtx :: "('w, 'f) os \<Rightarrow> 'w \<Rightarrow> ('m, 'f) FileRegistry \<Rightarrow>
    ('w \<times> ('m, 'f) FileRegistry \<times> go_error list) go" where
  "RemoveAllCtx os w fr = remove_all os w fr (map fst (fileContexts fr))"

end
