(* ===== verification/Dag.thy ===== *)
theory Dag
  imports OpStates "HOL-Library.Multiset"
begin

text \<open>
  \<open>history/dag.go\<close> and \<open>history/history.go\<close>: the causal graph of a log.  \<open>Nodes\<close>, \<open>Edges\<close> and
  \<open>Roots\<close> are Go maps keyed by the printed names of operations; an edge leads from an operation to
  one that happened after it with none in between.  The pointers in \<open>Nodes\<close> are never shared, so a
  write through one is an update of the map's entry.

  The lemmas show that the graph is the covering relation of \<open>HappenedBefore\<close>, that paths in it are
  exactly \<open>HappenedBefore\<close>, and that the layered topological sort returns, without its panic, each
  operation once and after everything it depends on.
\<close>

section \<open>The graph\<close>

record dag_node =
  Operation :: crdt_operation
  Parents :: "logical_id list"
  Children :: "logical_id list"

record operation_dag =
  Roots :: "(string \<times> unit) list"
  Nodes :: "(string \<times> dag_node) list"
  Edges :: "(string \<times> string list) list"

abbreviation op_key :: "crdt_operation \<Rightarrow> string" where
  "op_key op \<equiv> lid_String (OpId op)"

text \<open>Go's \<open>m[k]\<close> on a map of slices: \<open>nil\<close> for a missing key.\<close>

definition dag_edges :: "operation_dag \<Rightarrow> string \<Rightarrow> string list" where
  "dag_edges dag k = (case map_of (Edges dag) k of None \<Rightarrow> [] | Some l \<Rightarrow> l)"

definition initNodes :: "operation_dag \<Rightarrow> crdt_operation list \<Rightarrow> operation_dag" where
  "initNodes dag ops =
     dag\<lparr>Nodes := foldl (\<lambda>nodes op. AList.update (op_key op)
       \<lparr>Operation = op, Parents = [], Children = []\<rparr> nodes) (Nodes dag) ops\<rparr>"

definition addEdge :: "operation_dag \<Rightarrow> string \<Rightarrow> string \<Rightarrow> operation_dag" where
  "addEdge dag src dst =
     (if list_ex (\<lambda>existing. existing = dst) (dag_edges dag src) then dag
      else dag\<lparr>Edges := AList.update src (dag_edges dag src @ [dst]) (Edges dag)\<rparr>)"

text \<open>The innermost loop of \<open>initEdges\<close>: the flag \<open>isDirect\<close> after it.\<close>

fun direct_loop :: "crdt_operation \<Rightarrow> crdt_operation \<Rightarrow> crdt_operation list \<Rightarrow> bool" where
  "direct_loop opA opB [] = True"
| "direct_loop opA opB (opC # ops) =
     (if op_key opC = op_key opA \<or> op_key opC = op_key opB then direct_loop opA opB ops
      else if HappenedBefore (OpId opA) (OpId opC) \<and> HappenedBefore (OpId opC) (OpId opB) then False
      else direct_loop opA opB ops)"

text \<open>The body of the second loop.  The entries of both keys exist: \<open>initNodes\<close> made them.\<close>

definition link :: "crdt_operation list \<Rightarrow> crdt_operation \<Rightarrow> operation_dag \<Rightarrow> crdt_operation \<Rightarrow> operation_dag" where
  "link ops opB dag opA =
     (let bId = op_key opB; aId = op_key opA
      in if aId = bId then dag
         else if HappenedBefore (OpId opA) (OpId opB) then
           if direct_loop opA opB ops then
             let dag1 = addEdge dag aId bId;
                 dag2 = dag1\<lparr>Nodes := AList.map_entry bId
                   (\<lambda>n. n\<lparr>Parents := Parents n @ [OpId opA]\<rparr>) (Nodes dag1)\<rparr>
             in dag2\<lparr>Nodes := AList.map_entry aId
                   (\<lambda>n. n\<lparr>Children := Children n @ [OpId opB]\<rparr>) (Nodes dag2)\<rparr>
           else dag
         else dag)"

definition dag_parents :: "operation_dag \<Rightarrow> string \<Rightarrow> logical_id list" where
  "dag_parents dag k = (case map_of (Nodes dag) k of None \<Rightarrow> [] | Some n \<Rightarrow> Parents n)"

text \<open>One round of the outer loop of \<open>initEdges\<close>.\<close>

definition edges_round :: "crdt_operation list \<Rightarrow> operation_dag \<Rightarrow> crdt_operation \<Rightarrow> operation_dag" where
  "edges_round ops dag opB = (let dag' = foldl (link ops opB) dag ops
     in if length (dag_parents dag' (op_key opB)) = 0
        then dag'\<lparr>Roots := AList.update (op_key opB) () (Roots dag')\<rparr> else dag')"

definition initEdges :: "operation_dag \<Rightarrow> crdt_operation list \<Rightarrow> operation_dag" where
  "initEdges dag ops = foldl (edges_round ops) dag ops"

definition BuildDAG :: "crdt_operation list \<Rightarrow> operation_dag" where
  "BuildDAG state = initEdges (initNodes \<lparr>Roots = [], Nodes = [], Edges = []\<rparr> state) state"

definition HasPath :: "operation_dag \<Rightarrow> string \<Rightarrow> string \<Rightarrow> bool go" where
  "HasPath dag op1Id op2Id =
     (case (map_of (Nodes dag) op1Id, map_of (Nodes dag) op2Id) of
        (Some node1, Some node2) \<Rightarrow> Ret (HappenedBefore (OpId (Operation node1)) (OpId (Operation node2)))
      | _ \<Rightarrow> Panic)"

definition IsConcurrent :: "operation_dag \<Rightarrow> string \<Rightarrow> string \<Rightarrow> bool go" where
  "IsConcurrent dag op1Id op2Id =
     (if op1Id = op2Id then Ret False
      else go_bind (HasPath dag op1Id op2Id) (\<lambda>p. if p then Ret False
        else go_bind (HasPath dag op2Id op1Id) (\<lambda>q. Ret (\<not> q))))"

section \<open>Topological layers\<close>

type_synonym indegrees = "(string \<times> int) list"

definition unlock :: "indegrees \<times> string list \<Rightarrow> string \<Rightarrow> indegrees \<times> string list" where
  "unlock = (\<lambda>(indegree, nxt) child.
     let d = clk_val indegree child - 1
     in (AList.update child d indegree, if d = 0 then nxt @ [child] else nxt))"

fun layer_loop :: "operation_dag \<Rightarrow> string list \<Rightarrow> indegrees \<Rightarrow> string list \<Rightarrow> logical_id list \<Rightarrow>
    (indegrees \<times> string list \<times> logical_id list) go" where
  "layer_loop dag [] indegree nxt layer = Ret (indegree, nxt, layer)"
| "layer_loop dag (ident # ids) indegree nxt layer =
     (case map_of (Nodes dag) ident of
        None \<Rightarrow> Panic
      | Some node \<Rightarrow>
          (case foldl unlock (indegree, nxt) (sort (dag_edges dag ident)) of
             (indegree', nxt') \<Rightarrow>
               layer_loop dag ids indegree' nxt' (layer @ [OpId (Operation node)])))"

text \<open>The open nodes: those with a positive indegree.  Every node of the next layer leaves them, so
  the loop over the layers ends, whatever the graph.\<close>

definition open_nodes :: "indegrees \<Rightarrow> string set" where
  "open_nodes m = {k. 0 < clk_val m k}"

lemma finite_open [simp]: "finite (open_nodes m)"
proof (rule finite_subset)
  show "open_nodes m \<subseteq> fst ` set m"
    by (auto simp: open_nodes_def clk_val_def image_iff split: option.splits dest!: map_of_SomeD) force
qed simp

lemma unlock_open:
  "unlock (m, nxt) c = (m', nxt') \<Longrightarrow>
   (nxt' = nxt \<and> open_nodes m' = open_nodes m) \<or> (nxt' = nxt @ [c] \<and> c \<in> open_nodes m \<and> open_nodes m' = open_nodes m - {c})"
  by (auto simp: unlock_def Let_def open_nodes_def gomap_simps split: if_splits)

lemma unlocks_open:
  "foldl unlock (m, nxt) cs = (m', nxt') \<Longrightarrow>
   \<exists>new. nxt' = nxt @ new \<and> distinct new \<and> set new \<subseteq> open_nodes m \<and> open_nodes m' = open_nodes m - set new"
proof (induction cs arbitrary: m nxt)
  case (Cons c cs)
  obtain m1 n1 where u: "unlock (m, nxt) c = (m1, n1)" by (cases "unlock (m, nxt) c")
  with Cons obtain new where new: "nxt' = n1 @ new" "distinct new" "set new \<subseteq> open_nodes m1"
    "open_nodes m' = open_nodes m1 - set new" by fastforce
  from unlock_open [OF u] show ?case
  proof
    assume "n1 = nxt \<and> open_nodes m1 = open_nodes m"
    with new show ?thesis by auto
  next
    assume "n1 = nxt @ [c] \<and> c \<in> open_nodes m \<and> open_nodes m1 = open_nodes m - {c}"
    with new show ?thesis by (intro exI [of _ "c # new"]) auto
  qed
qed simp

lemma layer_loop_open:
  "layer_loop dag ids m nxt layer = Ret (m', nxt', layer') \<Longrightarrow>
   \<exists>new. nxt' = nxt @ new \<and> distinct new \<and> set new \<subseteq> open_nodes m \<and> open_nodes m' = open_nodes m - set new"
proof (induction ids arbitrary: m nxt layer)
  case (Cons k ids)
  from Cons.prems obtain node where node: "map_of (Nodes dag) k = Some node" by (auto split: option.splits)
  obtain m1 n1 where u: "foldl unlock (m, nxt) (sort (dag_edges dag k)) = (m1, n1)"
    by (cases "foldl unlock (m, nxt) (sort (dag_edges dag k))")
  from Cons.prems node u have "layer_loop dag ids m1 n1 (layer @ [OpId (Operation node)]) = Ret (m', nxt', layer')"
    by simp
  from Cons.IH [OF this] unlocks_open [OF u] obtain new1 new2
    where "n1 = nxt @ new1" "distinct new1" "set new1 \<subseteq> open_nodes m" "open_nodes m1 = open_nodes m - set new1"
      "nxt' = n1 @ new2" "distinct new2" "set new2 \<subseteq> open_nodes m1" "open_nodes m' = open_nodes m1 - set new2"
    by blast
  then show ?case by (intro exI [of _ "new1 @ new2"]) auto
qed simp

function layers_loop :: "operation_dag \<Rightarrow> string list \<Rightarrow> indegrees \<Rightarrow> logical_id list list \<Rightarrow> nat \<Rightarrow>
    (logical_id list list \<times> nat) go" where
  "layers_loop dag current indegree layers processed =
     (if current = [] then Ret (layers, processed)
      else case layer_loop dag current indegree [] [] of
          Ret (indegree', nxt, layer) \<Rightarrow>
            layers_loop dag (sort nxt) indegree' (layers @ [layer]) (processed + length current)
        | Panic \<Rightarrow> Panic
        | Hang \<Rightarrow> Hang)"
  by pat_completeness auto
termination
proof (relation "measure (\<lambda>(dag, current, indegree, layers, processed).
    2 * card (open_nodes indegree) + (if current = [] then 0 else 1))", goal_cases)
  case (2 dag current m layers processed r m' y nxt layer)
  then have "layer_loop dag current m [] [] = Ret (m', nxt, layer)" by simp
  from layer_loop_open [OF this] obtain new where "nxt = new" "set new \<subseteq> open_nodes m"
    "open_nodes m' = open_nodes m - set new" by auto
  then have "card (open_nodes m') = card (open_nodes m) - card (set nxt)"
    "card (set nxt) \<le> card (open_nodes m)" by (simp_all add: card_Diff_subset card_mono)
  moreover have "sort nxt \<noteq> [] \<Longrightarrow> 0 < card (set nxt)" by (auto simp: card_gt_0_iff)
  ultimately show ?case using 2 by auto
qed simp

declare layers_loop.simps [simp del]

definition GetTopologicalLayers :: "operation_dag \<Rightarrow> logical_id list list go" where
  "GetTopologicalLayers dag =
     (if length (Nodes dag) = 0 then Ret []
      else let indegree = foldl (\<lambda>m (ident, node). AList.update ident (int (length (Parents node))) m) [] (Nodes dag);
               current = sort (map fst (Roots dag))
           in go_bind (layers_loop dag current indegree [] 0) (\<lambda>(layers, processed).
                if processed \<noteq> length (Nodes dag) then Panic else Ret layers))"

section \<open>Comparison\<close>

definition dag_Equals :: "operation_dag \<Rightarrow> operation_dag \<Rightarrow> bool" where
  "dag_Equals dag other =
     (if length (Nodes dag) \<noteq> length (Nodes other) then False
      else if \<not> list_all (\<lambda>(opId, _). map_of (Nodes other) opId \<noteq> None) (Nodes dag) then False
      else list_all (\<lambda>(src, toList). case map_of (Edges other) src of
          None \<Rightarrow> False
        | Some otherToList \<Rightarrow> sort toList = sort otherToList) (Edges dag))"

section \<open>The graph of a causal log\<close>

definition log_ok :: "crdt_operation list \<Rightarrow> bool" where
  "log_ok ops \<longleftrightarrow> distinct (map OpId ops) \<and> history_ok (OpId ` set ops)"

text \<open>One operation happened directly before another, among those of the log.\<close>

definition covers :: "crdt_operation list \<Rightarrow> crdt_operation \<Rightarrow> crdt_operation \<Rightarrow> bool" where
  "covers ops a b \<longleftrightarrow> HappenedBefore (OpId a) (OpId b) \<and>
     \<not> (\<exists>c\<in>set ops. HappenedBefore (OpId a) (OpId c) \<and> HappenedBefore (OpId c) (OpId b))"

lemma log_key_eq: "log_ok ops \<Longrightarrow> a \<in> set ops \<Longrightarrow> b \<in> set ops \<Longrightarrow> op_key a = op_key b \<longleftrightarrow> a = b"
  using lid_equals_history [of "OpId ` set ops" "OpId a" "OpId b"]
  by (auto simp: log_ok_def lid_String_eq_iff distinct_map inj_on_def)

lemma log_HB:
  assumes "log_ok ops" and "a \<in> set ops"
  shows "\<not> HappenedBefore (OpId a) (OpId a)"
    and "b \<in> set ops \<Longrightarrow> HappenedBefore (OpId a) (OpId b) \<Longrightarrow> \<not> HappenedBefore (OpId b) (OpId a)"
    and "b \<in> set ops \<Longrightarrow> c \<in> set ops \<Longrightarrow> HappenedBefore (OpId a) (OpId b) \<Longrightarrow>
      HappenedBefore (OpId b) (OpId c) \<Longrightarrow> HappenedBefore (OpId a) (OpId c)"
proof -
  have ok: "lid_ok (OpId x)" if "x \<in> set ops" for x
    using assms(1) that by (auto simp: log_ok_def intro: history_okD(1))
  show "\<not> HappenedBefore (OpId a) (OpId a)" by (rule HappenedBefore_irrefl [OF ok [OF assms(2)]])
  show "b \<in> set ops \<Longrightarrow> HappenedBefore (OpId a) (OpId b) \<Longrightarrow> \<not> HappenedBefore (OpId b) (OpId a)"
    using HappenedBefore_asym ok assms(2) by blast
  show "b \<in> set ops \<Longrightarrow> c \<in> set ops \<Longrightarrow> HappenedBefore (OpId a) (OpId b) \<Longrightarrow>
      HappenedBefore (OpId b) (OpId c) \<Longrightarrow> HappenedBefore (OpId a) (OpId c)"
    using HappenedBefore_trans ok assms(2) by blast
qed

lemma direct_loop_eq:
  "direct_loop a b ops \<longleftrightarrow> \<not> (\<exists>c\<in>set ops. op_key c \<noteq> op_key a \<and> op_key c \<noteq> op_key b \<and>
     HappenedBefore (OpId a) (OpId c) \<and> HappenedBefore (OpId c) (OpId b))"
  by (induction ops) auto

lemma direct_covers:
  assumes "log_ok ops" and "a \<in> set ops" and "b \<in> set ops"
  shows "HappenedBefore (OpId a) (OpId b) \<and> direct_loop a b ops \<longleftrightarrow> covers ops a b"
  using log_HB(1) [OF assms(1)] log_key_eq [OF assms(1)] assms
  unfolding direct_loop_eq covers_def by blast

text \<open>The contents of a graph, as functions of the operations.\<close>

definition dag_is :: "crdt_operation list \<Rightarrow> operation_dag \<Rightarrow> (crdt_operation \<Rightarrow> logical_id list) \<Rightarrow>
    (crdt_operation \<Rightarrow> logical_id list) \<Rightarrow> (crdt_operation \<Rightarrow> string list) \<Rightarrow> string list \<Rightarrow> bool" where
  "dag_is ops dag P C E R \<longleftrightarrow>
     map fst (Nodes dag) = map op_key ops \<and>
     (\<forall>op\<in>set ops. map_of (Nodes dag) (op_key op) = Some \<lparr>Operation = op, Parents = P op, Children = C op\<rparr>) \<and>
     (\<forall>op\<in>set ops. dag_edges dag (op_key op) = E op) \<and>
     (\<forall>k. k \<notin> op_key ` set ops \<longrightarrow> dag_edges dag k = []) \<and>
     distinct (map fst (Edges dag)) \<and> list_all (\<lambda>(k, l). l \<noteq> []) (Edges dag) \<and> map fst (Roots dag) = R"

lemma keys_map_entry: "map fst (AList.map_entry k f m) = map fst m"
  by (induction m) auto

lemma map_of_map_entry_eq:
  "map_of (AList.map_entry k f m) x = (if x = k then map_option f (map_of m k) else map_of m x)"
  by (induction m) auto

lemma dag_edges_update: "dag_edges (dag\<lparr>Edges := AList.update k l (Edges dag)\<rparr>) x = (if x = k then l else dag_edges dag x)"
  by (simp add: dag_edges_def gomap_simps)

lemma link_not: "log_ok ops \<Longrightarrow> a \<in> set ops \<Longrightarrow> b \<in> set ops \<Longrightarrow> \<not> covers ops a b \<Longrightarrow> link ops b dag a = dag"
  using direct_covers [of ops a b] by (auto simp: link_def Let_def)

lemma link_covers:
  assumes L: "log_ok ops" "a \<in> set ops" "b \<in> set ops" and cov: "covers ops a b"
    and D: "dag_is ops dag P C E R" and fresh: "op_key b \<notin> set (E a)"
  shows "dag_is ops (link ops b dag a) (P(b := P b @ [OpId a])) (C(a := C a @ [OpId b]))
    (E(a := E a @ [op_key b])) R"
proof -
  have ne: "a \<noteq> b" using cov log_HB(1) [OF L(1,2)] by (auto simp: covers_def)
  then have kne: "op_key a \<noteq> op_key b" using log_key_eq [OF L] by simp
  have Ea: "dag_edges dag (op_key a) = E a" using D L by (simp add: dag_is_def)
  have add: "addEdge dag (op_key a) (op_key b) = dag\<lparr>Edges := AList.update (op_key a) (E a @ [op_key b]) (Edges dag)\<rparr>"
    using fresh by (simp add: addEdge_def Ea list_ex_iff)
  have link: "link ops b dag a = dag\<lparr>Edges := AList.update (op_key a) (E a @ [op_key b]) (Edges dag),
      Nodes := AList.map_entry (op_key a) (\<lambda>n. n\<lparr>Children := Children n @ [OpId b]\<rparr>)
        (AList.map_entry (op_key b) (\<lambda>n. n\<lparr>Parents := Parents n @ [OpId a]\<rparr>) (Nodes dag))\<rparr>"
    using direct_covers [OF L] cov kne by (simp add: link_def Let_def add)
  have edges: "dag_edges (link ops b dag a) k = (if k = op_key a then E a @ [op_key b] else dag_edges dag k)" for k
    unfolding link by (simp add: dag_edges_def gomap_simps)
  have key: "op_key op = op_key a \<longleftrightarrow> op = a" "op_key op = op_key b \<longleftrightarrow> op = b" if "op \<in> set ops" for op
    using log_key_eq [OF L(1) that] L by auto
  show ?thesis
    unfolding dag_is_def
  proof (intro conjI ballI allI impI)
    show "map fst (Nodes (link ops b dag a)) = map op_key ops"
      using D by (simp add: link keys_map_entry dag_is_def)
    show "map_of (Nodes (link ops b dag a)) (op_key op) = Some \<lparr>Operation = op,
        Parents = (P(b := P b @ [OpId a])) op, Children = (C(a := C a @ [OpId b])) op\<rparr>" if "op \<in> set ops" for op
      using D key [OF that] ne that by (auto simp: link map_of_map_entry_eq dag_is_def)
    show "dag_edges (link ops b dag a) (op_key op) = (E(a := E a @ [op_key b])) op" if "op \<in> set ops" for op
      using D key [OF that] that by (simp add: edges dag_is_def)
    show "dag_edges (link ops b dag a) k = []" if "k \<notin> op_key ` set ops" for k
      using D that L by (auto simp: edges dag_is_def)
    show "distinct (map fst (Edges (link ops b dag a)))" using D by (simp add: link dag_is_def distinct_update)
    show "list_all (\<lambda>(k, l). l \<noteq> []) (Edges (link ops b dag a))"
      using D set_update_subset [of "op_key a" "E a @ [op_key b]" "Edges dag"]
      by (auto simp: link dag_is_def list_all_iff)
    show "map fst (Roots (link ops b dag a)) = R" using D by (simp add: link dag_is_def)
  qed
qed

lemma links:
  assumes L: "log_ok ops" "b \<in> set ops" and D: "dag_is ops dag P C E R"
    and as: "set as \<subseteq> set ops" "distinct as" and fresh: "\<forall>a\<in>set as. op_key b \<notin> set (E a)"
  shows "dag_is ops (foldl (link ops b) dag as)
     (P(b := P b @ map OpId (filter (\<lambda>a. covers ops a b) as)))
     (\<lambda>a. if a \<in> set as \<and> covers ops a b then C a @ [OpId b] else C a)
     (\<lambda>a. if a \<in> set as \<and> covers ops a b then E a @ [op_key b] else E a) R"
  using D as fresh
proof (induction as arbitrary: dag P C E)
  case (Cons a as)
  then have a: "a \<in> set ops" "a \<notin> set as" by auto
  show ?case
  proof (cases "covers ops a b")
    case False
    have eq: "(x \<in> set (a # as) \<and> covers ops x b) = (x \<in> set as \<and> covers ops x b)" for x using False by auto
    show ?thesis unfolding eq using Cons False link_not [OF L(1) a(1) L(2) False] by simp
  next
    case True
    from Cons.prems have "op_key b \<notin> set (E a)" by simp
    from link_covers [OF L(1) a(1) L(2) True Cons.prems(1) this]
    have D': "dag_is ops (link ops b dag a) (P(b := P b @ [OpId a])) (C(a := C a @ [OpId b])) (E(a := E a @ [op_key b])) R" .
    have "dag_is ops (foldl (link ops b) (link ops b dag a) as)
      ((P(b := P b @ [OpId a]))(b := (P(b := P b @ [OpId a])) b @ map OpId (filter (\<lambda>a. covers ops a b) as)))
      (\<lambda>x. if x \<in> set as \<and> covers ops x b then (C(a := C a @ [OpId b])) x @ [OpId b] else (C(a := C a @ [OpId b])) x)
      (\<lambda>x. if x \<in> set as \<and> covers ops x b then (E(a := E a @ [op_key b])) x @ [op_key b] else (E(a := E a @ [op_key b])) x) R"
      using Cons.prems a by (intro Cons.IH [OF D']) auto
    moreover have "(\<lambda>x. if x \<in> set as \<and> covers ops x b then (C(a := C a @ [OpId b])) x @ [OpId b] else (C(a := C a @ [OpId b])) x) =
        (\<lambda>x. if x \<in> set (a # as) \<and> covers ops x b then C x @ [OpId b] else C x)"
      "(\<lambda>x. if x \<in> set as \<and> covers ops x b then (E(a := E a @ [op_key b])) x @ [op_key b] else (E(a := E a @ [op_key b])) x) =
        (\<lambda>x. if x \<in> set (a # as) \<and> covers ops x b then E x @ [op_key b] else E x)"
      using a True by (auto simp: fun_eq_iff)
    moreover have "(P(b := P b @ [OpId a]))(b := (P(b := P b @ [OpId a])) b @ map OpId (filter (\<lambda>a. covers ops a b) as)) =
        P(b := P b @ map OpId (filter (\<lambda>a. covers ops a b) (a # as)))" using True by simp
    ultimately show ?thesis by (simp only: foldl_Cons)
  qed
qed simp

definition dag_final :: "crdt_operation list \<Rightarrow> operation_dag \<Rightarrow> crdt_operation list \<Rightarrow> bool" where
  "dag_final ops dag bs \<longleftrightarrow> dag_is ops dag
     (\<lambda>b. if b \<in> set bs then map OpId (filter (\<lambda>a. covers ops a b) ops) else [])
     (\<lambda>a. map OpId (filter (covers ops a) bs)) (\<lambda>a. map op_key (filter (covers ops a) bs))
     (map op_key (filter (\<lambda>b. \<forall>a\<in>set ops. \<not> covers ops a b) bs))"

lemma dag_is_cong:
  "dag_is ops dag P C E R \<Longrightarrow> (\<And>op. op \<in> set ops \<Longrightarrow> P op = P' op \<and> C op = C' op \<and> E op = E' op) \<Longrightarrow> R = R' \<Longrightarrow>
   dag_is ops dag P' C' E' R'"
  by (simp add: dag_is_def)

lemma keys_update_new: "k \<notin> fst ` set m \<Longrightarrow> map fst (AList.update k v m) = map fst m @ [k]"
  by (induction m) auto

lemma dag_parents_is: "dag_is ops dag P C E R \<Longrightarrow> op \<in> set ops \<Longrightarrow> dag_parents dag (op_key op) = P op"
  by (simp add: dag_is_def dag_parents_def)

lemma dag_final_round:
  assumes L: "log_ok ops" "b \<in> set ops" and D: "dag_final ops dag bs" and b: "b \<notin> set bs" "set bs \<subseteq> set ops"
  shows "dag_final ops (edges_round ops dag b) (bs @ [b])"
proof -
  let ?P = "\<lambda>bs b. if b \<in> set bs then map OpId (filter (\<lambda>a. covers ops a b) ops) else []"
  let ?C = "\<lambda>bs a. map OpId (filter (covers ops a) bs)" and ?E = "\<lambda>bs a. map op_key (filter (covers ops a) bs)"
  let ?R = "\<lambda>bs. map op_key (filter (\<lambda>b. \<forall>a\<in>set ops. \<not> covers ops a b) bs)"
  define dag' where "dag' = foldl (link ops b) dag ops"
  have kb: "op_key b \<notin> set (map op_key bs)" using log_key_eq [OF L(1) L(2)] b by auto
  have fresh: "\<forall>a\<in>set ops. op_key b \<notin> set (?E bs a)" using kb by auto
  have dist: "distinct ops" using L(1) by (auto simp: log_ok_def distinct_map)
  have "dag_is ops dag' ((?P bs)(b := ?P bs b @ map OpId (filter (\<lambda>a. covers ops a b) ops)))
     (\<lambda>a. if a \<in> set ops \<and> covers ops a b then ?C bs a @ [OpId b] else ?C bs a)
     (\<lambda>a. if a \<in> set ops \<and> covers ops a b then ?E bs a @ [op_key b] else ?E bs a) (?R bs)"
    unfolding dag'_def by (rule links [OF L D [unfolded dag_final_def] subset_refl dist fresh])
  then have D': "dag_is ops dag' (?P (bs @ [b])) (?C (bs @ [b])) (?E (bs @ [b])) (?R bs)"
    by (rule dag_is_cong) (use b in auto)
  have par: "dag_parents dag' (op_key b) = map OpId (filter (\<lambda>a. covers ops a b) ops)"
    using dag_parents_is [OF D' L(2)] by simp
  show ?thesis
  proof (cases "\<forall>a\<in>set ops. \<not> covers ops a b")
    case True
    then have "edges_round ops dag b = dag'\<lparr>Roots := AList.update (op_key b) () (Roots dag')\<rparr>"
      using par by (simp add: edges_round_def Let_def dag'_def [symmetric] filter_empty_conv)
    moreover have "op_key b \<notin> fst ` set (Roots dag')"
      using D' kb unfolding dag_is_def by (metis (no_types, lifting) filter_is_subset image_set set_map subsetD subset_image_iff)
    ultimately show ?thesis
      using D' True by (auto simp: dag_final_def dag_is_def keys_update_new dag_edges_def)
  next
    case False
    then have "edges_round ops dag b = dag'"
      using par by (auto simp: edges_round_def Let_def dag'_def [symmetric] filter_empty_conv)
    with D' False show ?thesis by (auto simp: dag_final_def)
  qed
qed

lemma dag_final_rounds:
  "log_ok ops \<Longrightarrow> dag_final ops dag done \<Longrightarrow> set (done @ bs) \<subseteq> set ops \<Longrightarrow> distinct (done @ bs) \<Longrightarrow>
   dag_final ops (foldl (edges_round ops) dag bs) (done @ bs)"
proof (induction bs arbitrary: dag "done")
  case (Cons b bs)
  have "dag_final ops (edges_round ops dag b) (done @ [b])"
    using Cons.prems by (intro dag_final_round) auto
  from Cons.IH [OF Cons.prems(1) this] Cons.prems show ?case by simp
qed simp

lemma initNodes_is:
  assumes "log_ok ops"
  shows "dag_final ops (initNodes \<lparr>Roots = [], Nodes = [], Edges = []\<rparr> ops) []"
proof -
  let ?new = "\<lambda>op. \<lparr>Operation = op, Parents = [], Children = []\<rparr>"
  let ?f = "\<lambda>nodes op. AList.update (op_key op) (?new op) nodes"
  have upd: "distinct (map op_key (as @ bs)) \<Longrightarrow>
      foldl ?f (map (\<lambda>op. (op_key op, ?new op)) as) bs = map (\<lambda>op. (op_key op, ?new op)) (as @ bs)" for as bs
  proof (induction bs arbitrary: as)
    case (Cons b bs)
    have "op_key b \<notin> op_key ` set as" using Cons.prems by auto
    then have "?f (map (\<lambda>op. (op_key op, ?new op)) as) b = map (\<lambda>op. (op_key op, ?new op)) (as @ [b])"
      by (induction as) auto
    with Cons.IH [of "as @ [b]"] Cons.prems show ?case by simp
  qed simp
  have dist: "distinct (map op_key ops)"
    using assms log_key_eq [OF assms] by (auto simp: log_ok_def distinct_map inj_on_def)
  have nodes: "Nodes (initNodes \<lparr>Roots = [], Nodes = [], Edges = []\<rparr> ops) = map (\<lambda>op. (op_key op, ?new op)) ops"
    using upd [of "[]" ops] dist by (simp add: initNodes_def)
  have "map_of (map (\<lambda>op. (op_key op, ?new op)) ops) (op_key op) = Some (?new op)" if "op \<in> set ops" for op
    using dist that by (intro map_of_is_SomeI) (auto simp: o_def)
  then show ?thesis
    unfolding dag_final_def dag_is_def nodes
    by (auto simp: initNodes_def dag_edges_def o_def)
qed

lemma BuildDAG_final:
  assumes "log_ok ops"
  shows "dag_final ops (BuildDAG ops) ops"
proof -
  have "distinct ops" using assms by (auto simp: log_ok_def distinct_map)
  moreover have "BuildDAG ops = foldl (edges_round ops) (initNodes \<lparr>Roots = [], Nodes = [], Edges = []\<rparr> ops) ops"
    by (simp add: BuildDAG_def initEdges_def)
  ultimately show ?thesis
    using dag_final_rounds [OF assms initNodes_is [OF assms], of ops] by simp
qed

lemma BuildDAG_facts:
  assumes "log_ok ops"
  shows "map fst (Nodes (BuildDAG ops)) = map op_key ops"
    and "op \<in> set ops \<Longrightarrow> map_of (Nodes (BuildDAG ops)) (op_key op) =
      Some \<lparr>Operation = op, Parents = map OpId (filter (\<lambda>a. covers ops a op) ops), Children = map OpId (filter (covers ops op) ops)\<rparr>"
    and "op \<in> set ops \<Longrightarrow> dag_edges (BuildDAG ops) (op_key op) = map op_key (filter (covers ops op) ops)"
    and "map fst (Roots (BuildDAG ops)) = map op_key (filter (\<lambda>b. \<forall>a\<in>set ops. \<not> covers ops a b) ops)"
    and "k \<notin> op_key ` set ops \<Longrightarrow> dag_edges (BuildDAG ops) k = []"
    and "distinct (map fst (Edges (BuildDAG ops)))"
    and "list_all (\<lambda>(k, l). l \<noteq> []) (Edges (BuildDAG ops))"
  using BuildDAG_final [OF assms] by (auto simp: dag_final_def dag_is_def)

section \<open>The layers of a causal log\<close>

lemma unlocks:
  "distinct cs \<Longrightarrow> foldl unlock (m, nxt) cs = (m', nxt') \<Longrightarrow>
   nxt' = nxt @ filter (\<lambda>c. clk_val m c = 1) cs \<and>
   (\<forall>k. clk_val m' k = (if k \<in> set cs then clk_val m k - 1 else clk_val m k))"
proof (induction cs arbitrary: m nxt)
  case (Cons c cs)
  let ?m = "AList.update c (clk_val m c - 1) m" and ?n = "if clk_val m c = 1 then nxt @ [c] else nxt"
  have "foldl unlock (?m, ?n) cs = (m', nxt')" using Cons.prems(2) by (simp add: unlock_def Let_def)
  from Cons.IH [OF _ this] Cons.prems(1)
  have IH: "nxt' = ?n @ filter (\<lambda>x. clk_val ?m x = 1) cs"
    "\<forall>k. clk_val m' k = (if k \<in> set cs then clk_val ?m k - 1 else clk_val ?m k)" by auto
  have "filter (\<lambda>x. clk_val ?m x = 1) cs = filter (\<lambda>x. clk_val m x = 1) cs"
    using Cons.prems(1) by (intro filter_cong) (auto simp: gomap_simps)
  with IH Cons.prems(1) show ?case by (auto simp: gomap_simps)
qed simp

text \<open>The operations of a layer lower the indegrees of what they cover and unlock those that reach 0.\<close>

definition covered_by :: "crdt_operation list \<Rightarrow> crdt_operation set \<Rightarrow> crdt_operation \<Rightarrow> nat" where
  "covered_by ops Q op = card {a \<in> Q. covers ops a op}"

lemma covered_by_insert:
  "finite Q \<Longrightarrow> a \<notin> Q \<Longrightarrow> covered_by ops (insert a Q) op = (if covers ops a op then 1 else 0) + covered_by ops Q op"
proof -
  assume fin: "finite Q" and a: "a \<notin> Q"
  have "{x \<in> insert a Q. covers ops x op} = (if covers ops a op then insert a {x \<in> Q. covers ops x op} else {x \<in> Q. covers ops x op})"
    by auto
  with fin a show ?thesis by (simp add: covered_by_def)
qed

lemma layer_loop_layer:
  assumes L: "log_ok ops" and "distinct Q" and "set Q \<subseteq> set ops"
    and "\<forall>op\<in>set ops. int (covered_by ops (set Q) op) \<le> clk_val m (op_key op)"
  shows "\<exists>m' N. layer_loop (BuildDAG ops) (map op_key Q) m nxt layer =
      Ret (m', nxt @ map op_key N, layer @ map OpId Q) \<and> distinct N \<and>
    (\<forall>op\<in>set ops. clk_val m' (op_key op) = clk_val m (op_key op) - int (covered_by ops (set Q) op)) \<and>
    set N = {op \<in> set ops. 0 < clk_val m (op_key op) \<and> clk_val m' (op_key op) = 0}"
  using assms(2-)
proof (induction Q arbitrary: m nxt layer)
  case Nil
  then show ?case by (intro exI [of _ m] exI [of _ "[]"]) (auto simp: covered_by_def)
next
  case (Cons a Q)
  let ?D = "BuildDAG ops" and ?C = "filter (covers ops a) ops"
  from Cons.prems have a: "a \<in> set ops" "a \<notin> set Q" by auto
  obtain m1 n1 where u: "foldl unlock (m, nxt) (sort (dag_edges ?D (op_key a))) = (m1, n1)"
    by (cases "foldl unlock (m, nxt) (sort (dag_edges ?D (op_key a)))")
  have edges: "dag_edges ?D (op_key a) = map op_key ?C" by (rule BuildDAG_facts(3) [OF L a(1)])
  have inj: "inj_on op_key (set ops)" using log_key_eq [OF L] by (auto simp: inj_on_def)
  have "distinct ops" using L by (auto simp: log_ok_def distinct_map)
  then have "distinct (map op_key ?C)" using inj by (auto simp: distinct_map intro: inj_on_subset)
  then have "distinct (sort (dag_edges ?D (op_key a)))" by (simp add: edges)
  note un = unlocks [OF this u]
  have mem: "op_key op \<in> set (sort (dag_edges ?D (op_key a))) \<longleftrightarrow> covers ops a op" if "op \<in> set ops" for op
    using inj that by (auto simp: edges inj_on_def)
  have m1: "clk_val m1 (op_key op) = clk_val m (op_key op) - (if covers ops a op then 1 else 0)" if "op \<in> set ops" for op
    using un mem [OF that] by simp
  have cb: "covered_by ops (insert a (set Q)) op = (if covers ops a op then 1 else 0) + covered_by ops (set Q) op" for op
    using covered_by_insert [of "set Q" a ops op] a by simp
  have pre: "\<forall>op\<in>set ops. int (covered_by ops (set Q) op) \<le> clk_val m1 (op_key op)"
    using Cons.prems(3) m1 by (auto simp: cb)
  from Cons.IH [OF _ _ pre, of n1 "layer @ [OpId a]"] Cons.prems obtain m' N where
    IH: "layer_loop ?D (map op_key Q) m1 n1 (layer @ [OpId a]) = Ret (m', n1 @ map op_key N, (layer @ [OpId a]) @ map OpId Q)"
    "distinct N" "\<forall>op\<in>set ops. clk_val m' (op_key op) = clk_val m1 (op_key op) - int (covered_by ops (set Q) op)"
    "set N = {op \<in> set ops. 0 < clk_val m1 (op_key op) \<and> clk_val m' (op_key op) = 0}" by auto
  define N1 where "N1 = filter (\<lambda>c. clk_val m c = 1) (sort (dag_edges ?D (op_key a)))"
  have N1: "set N1 = op_key ` {op \<in> set ops. covers ops a op \<and> clk_val m (op_key op) = 1}"
    by (auto simp: N1_def edges)
  have "set N1 \<subseteq> op_key ` set ops" by (auto simp: N1)
  then obtain N0 where N0: "N1 = map op_key N0" "set N0 \<subseteq> set ops" using list_of_image by blast
  have dN1: "distinct N1" unfolding N1_def using \<open>distinct (sort _)\<close> by (rule distinct_filter)
  then have dN0: "distinct N0" by (simp add: N0 distinct_map)
  have sN0: "set N0 = {op \<in> set ops. covers ops a op \<and> clk_val m (op_key op) = 1}"
  proof -
    have "op_key ` set N0 = op_key ` {op \<in> set ops. covers ops a op \<and> clk_val m (op_key op) = 1}"
      using N1 N0(1) by simp
    then show ?thesis by (subst (asm) inj_on_image_eq_iff [OF inj N0(2)]) auto
  qed
  have nonneg: "0 \<le> clk_val m1 (op_key op)" if "op \<in> set ops" for op using pre that by force
  have disj: "set N0 \<inter> set N = {}" using IH(4) sN0 m1 by auto
  have union: "set (N0 @ N) = {op \<in> set ops. 0 < clk_val m (op_key op) \<and> clk_val m' (op_key op) = 0}"
  proof -
    have "op \<in> set (N0 @ N) \<longleftrightarrow> 0 < clk_val m (op_key op) \<and> clk_val m' (op_key op) = 0" if op: "op \<in> set ops" for op
    proof (cases "covers ops a op \<and> clk_val m (op_key op) = 1")
      case True
      then have "clk_val m' (op_key op) = 0" using IH(3) m1 [OF op] pre op by fastforce
      with True op sN0 show ?thesis by simp
    next
      case False
      then have "op \<notin> set N0" using sN0 by simp
      moreover have "0 < clk_val m1 (op_key op) \<longleftrightarrow> 0 < clk_val m (op_key op)"
        using False m1 [OF op] nonneg [OF op] by auto
      ultimately show ?thesis using IH(4) op by simp
    qed
    then show ?thesis using sN0 IH(4) by auto
  qed
  have n1: "n1 = nxt @ map op_key N0" using un N0(1) by (simp add: N1_def)
  have node: "map_of (Nodes ?D) (op_key a) = Some \<lparr>Operation = a,
      Parents = map OpId (filter (\<lambda>x. covers ops x a) ops), Children = map OpId (filter (covers ops a) ops)\<rparr>"
    by (rule BuildDAG_facts(2) [OF L a(1)])
  have "layer_loop ?D (map op_key (a # Q)) m nxt layer = Ret (m', nxt @ map op_key (N0 @ N), layer @ map OpId (a # Q))"
    using IH(1) u node n1 by simp
  moreover have "distinct (N0 @ N)" using dN0 IH(2) disj by simp
  moreover have "\<forall>op\<in>set ops. clk_val m' (op_key op) = clk_val m (op_key op) - int (covered_by ops (set (a # Q)) op)"
    using IH(3) m1 by (simp add: cb)
  ultimately show ?case using union by blast
qed

text \<open>The invariant of the loop: what is done, what is current and the indegrees of the rest.\<close>

definition layers_inv :: "crdt_operation list \<Rightarrow> crdt_operation set \<Rightarrow> crdt_operation list \<Rightarrow> indegrees \<Rightarrow>
    logical_id list list \<Rightarrow> bool" where
  "layers_inv ops D Q m layers \<longleftrightarrow> D \<subseteq> set ops \<and> distinct Q \<and>
     set Q = {op \<in> set ops - D. \<forall>a\<in>set ops. covers ops a op \<longrightarrow> a \<in> D} \<and>
     (\<forall>op\<in>D. \<forall>a\<in>set ops. covers ops a op \<longrightarrow> a \<in> D) \<and>
     (\<forall>op\<in>set ops. clk_val m (op_key op) = int (covered_by ops (set ops - D) op)) \<and>
     distinct (concat layers) \<and> set (concat layers) = OpId ` D \<and>
     (\<forall>i<length layers. \<forall>op\<in>set ops. OpId op \<in> set (layers ! i) \<longrightarrow>
        (\<forall>a\<in>set ops. covers ops a op \<longrightarrow> OpId a \<in> set (concat (take i layers))) \<and>
        (0 < i \<longrightarrow> (\<exists>a\<in>set ops. covers ops a op \<and> OpId a \<in> set (layers ! (i - 1))))) \<and>
     (layers \<noteq> [] \<longrightarrow> (\<forall>op\<in>set Q. \<exists>a\<in>set ops. covers ops a op \<and> OpId a \<in> set (last layers)))"

lemma covered_by_zero: "finite S \<Longrightarrow> covered_by ops S op = 0 \<longleftrightarrow> (\<forall>a\<in>S. \<not> covers ops a op)"
  by (auto simp: covered_by_def)

lemma covered_by_Diff:
  "Q \<subseteq> S \<Longrightarrow> finite S \<Longrightarrow> int (covered_by ops (S - Q) op) = int (covered_by ops S op) - int (covered_by ops Q op)"
proof -
  assume "Q \<subseteq> S" and fin: "finite S"
  then have "{a \<in> S. covers ops a op} = {a \<in> S - Q. covers ops a op} \<union> {a \<in> Q. covers ops a op}" by auto
  moreover have "finite Q" using \<open>Q \<subseteq> S\<close> fin finite_subset by blast
  ultimately have "card {a \<in> S. covers ops a op} = card {a \<in> S - Q. covers ops a op} + card {a \<in> Q. covers ops a op}"
    using fin by (simp add: card_Un_disjoint disjoint_iff)
  then show ?thesis by (simp add: covered_by_def)
qed

lemma layers_step:
  assumes L: "log_ok ops" and I: "layers_inv ops D Q m layers"
  obtains m' nxt Q' where "layer_loop (BuildDAG ops) (map op_key Q) m [] [] = Ret (m', nxt, map OpId Q)"
    and "sort nxt = map op_key Q'" and "layers_inv ops (D \<union> set Q) Q' m' (layers @ [map OpId Q])"
proof -
  note I' = I [unfolded layers_inv_def]
  have D: "D \<subseteq> set ops" and Q: "distinct Q" "set Q = {op \<in> set ops - D. \<forall>a\<in>set ops. covers ops a op \<longrightarrow> a \<in> D}"
    and closed: "\<forall>op\<in>D. \<forall>a\<in>set ops. covers ops a op \<longrightarrow> a \<in> D"
    and m: "\<forall>op\<in>set ops. clk_val m (op_key op) = int (covered_by ops (set ops - D) op)" using I' by auto
  have Qops: "set Q \<subseteq> set ops" "set Q \<subseteq> set ops - D" using Q by auto
  have fin: "finite (set ops - D)" by simp
  have le: "\<forall>op\<in>set ops. int (covered_by ops (set Q) op) \<le> clk_val m (op_key op)"
  proof
    fix op assume op: "op \<in> set ops"
    have "covered_by ops (set Q) op \<le> covered_by ops (set ops - D) op"
      unfolding covered_by_def using Qops(2) by (intro card_mono) auto
    with m op show "int (covered_by ops (set Q) op) \<le> clk_val m (op_key op)" by simp
  qed
  from layer_loop_layer [OF L Q(1) Qops(1) le, of "[]" "[]"] obtain m' N where
    run: "layer_loop (BuildDAG ops) (map op_key Q) m [] [] = Ret (m', map op_key N, map OpId Q)"
    and dN: "distinct N"
    and m': "\<forall>op\<in>set ops. clk_val m' (op_key op) = clk_val m (op_key op) - int (covered_by ops (set Q) op)"
    and N: "set N = {op \<in> set ops. 0 < clk_val m (op_key op) \<and> clk_val m' (op_key op) = 0}" by auto
  have m'': "clk_val m' (op_key op) = int (covered_by ops (set ops - (D \<union> set Q)) op)" if "op \<in> set ops" for op
    using m m' that covered_by_Diff [OF Qops(2) fin, of ops op] by (simp add: Diff_Diff_Int Diff_eq Int_assoc)
  have N': "set N = {op \<in> set ops - (D \<union> set Q). \<forall>a\<in>set ops. covers ops a op \<longrightarrow> a \<in> D \<union> set Q}"
  proof -
    have "0 < clk_val m (op_key op) \<longleftrightarrow> op \<notin> D \<union> set Q" if "op \<in> set ops" for op
    proof -
      have "0 < clk_val m (op_key op) \<longleftrightarrow> \<not> (\<forall>a\<in>set ops - D. \<not> covers ops a op)"
        using m that covered_by_zero [OF fin, of ops op] by auto
      also have "\<dots> \<longleftrightarrow> \<not> (\<forall>a\<in>set ops. covers ops a op \<longrightarrow> a \<in> D)" by blast
      also have "\<dots> \<longleftrightarrow> op \<notin> D \<union> set Q" using that Q(2) closed by blast
      finally show ?thesis .
    qed
    moreover have "clk_val m' (op_key op) = 0 \<longleftrightarrow> (\<forall>a\<in>set ops. covers ops a op \<longrightarrow> a \<in> D \<union> set Q)" if "op \<in> set ops" for op
      using m'' [OF that] covered_by_zero [of "set ops - (D \<union> set Q)" ops op] by auto
    ultimately show ?thesis unfolding N by auto
  qed
  have "set (sort (map op_key N)) \<subseteq> op_key ` set ops" using N by auto
  then obtain Q' where Q': "sort (map op_key N) = map op_key Q'" "set Q' \<subseteq> set ops"
    using list_of_image by blast
  have inj: "inj_on op_key (set ops)" using log_key_eq [OF L] by (auto simp: inj_on_def)
  have "op_key ` set Q' = op_key ` set N" using Q'(1) by (metis set_map set_sort)
  then have setQ': "set Q' = set N" using N by (subst (asm) inj_on_image_eq_iff [OF inj Q'(2)]) auto
  have "distinct (map op_key N)" using dN inj N by (auto simp: distinct_map intro: inj_on_subset)
  then have dQ': "distinct Q'" using Q'(1) by (metis distinct_map distinct_sort)
  have injId: "inj_on OpId (set ops)" using L by (simp add: log_ok_def distinct_map)
  have new: "distinct (concat (layers @ [map OpId Q])) \<and> set (concat (layers @ [map OpId Q])) = OpId ` (D \<union> set Q)"
  proof -
    have "OpId ` D \<inter> OpId ` set Q = {}"
      using injId D Qops by (auto simp: inj_on_def disjoint_iff image_iff) blast
    moreover have "distinct (map OpId Q)" using Q(1) Qops injId by (auto simp: distinct_map intro: inj_on_subset)
    ultimately show ?thesis using I' by auto
  qed
  have old: "set (concat layers) = OpId ` D" using I' by blast
  have lay: "(\<forall>a\<in>set ops. covers ops a op \<longrightarrow> OpId a \<in> set (concat (take i (layers @ [map OpId Q])))) \<and>
        (0 < i \<longrightarrow> (\<exists>a\<in>set ops. covers ops a op \<and> OpId a \<in> set ((layers @ [map OpId Q]) ! (i - 1))))"
    if i: "i < length (layers @ [map OpId Q])" and op: "op \<in> set ops" "OpId op \<in> set ((layers @ [map OpId Q]) ! i)" for i op
  proof (cases "i < length layers")
    case True
    then show ?thesis using I' op by (auto simp: nth_append less_imp_diff_less)
  next
    case False
    with i have eq: "i = length layers" by simp
    with op have "OpId op \<in> OpId ` set Q" by (simp add: nth_append)
    then have opQ: "op \<in> set Q" using injId op(1) Qops(1) by (auto simp: inj_on_def)
    then have "\<forall>a\<in>set ops. covers ops a op \<longrightarrow> OpId a \<in> set (concat layers)" using Q(2) old by auto
    moreover have "\<exists>a\<in>set ops. covers ops a op \<and> OpId a \<in> set (layers ! (i - 1))" if "0 < i"
      using I' opQ that eq last_conv_nth [of layers] by auto
    ultimately show ?thesis using eq by (auto simp: nth_append)
  qed
  have chain: "\<exists>a\<in>set ops. covers ops a op \<and> OpId a \<in> set (map OpId Q)" if "op \<in> set Q'" for op
  proof -
    have op: "op \<in> set ops" "op \<notin> D \<union> set Q" "\<forall>a\<in>set ops. covers ops a op \<longrightarrow> a \<in> D \<union> set Q"
      using that setQ' N' by auto
    then obtain a where "a \<in> set ops" "covers ops a op" "a \<notin> D" using Q(2) by blast
    with op show ?thesis by auto
  qed
  have "layers_inv ops (D \<union> set Q) Q' m' (layers @ [map OpId Q])"
    unfolding layers_inv_def
  proof (intro conjI)
    show "D \<union> set Q \<subseteq> set ops" using D Qops by auto
    show "set Q' = {op \<in> set ops - (D \<union> set Q). \<forall>a\<in>set ops. covers ops a op \<longrightarrow> a \<in> D \<union> set Q}" using setQ' N' by simp
    show "\<forall>op\<in>D \<union> set Q. \<forall>a\<in>set ops. covers ops a op \<longrightarrow> a \<in> D \<union> set Q" using closed Q(2) by blast
    show "\<forall>op\<in>set ops. clk_val m' (op_key op) = int (covered_by ops (set ops - (D \<union> set Q)) op)" using m'' by blast
    show "layers @ [map OpId Q] \<noteq> [] \<longrightarrow> (\<forall>op\<in>set Q'. \<exists>a\<in>set ops. covers ops a op \<and> OpId a \<in> set (last (layers @ [map OpId Q])))"
      using chain by simp
  qed (use dQ' new lay in blast)+
  with run Q'(1) show ?thesis by (rule that)
qed

text \<open>An empty layer means everything is done: a minimal remaining operation would be in it.\<close>

lemma layers_done:
  assumes L: "log_ok ops" and I: "layers_inv ops D [] m layers"
  shows "D = set ops"
proof (rule ccontr)
  assume "D \<noteq> set ops"
  then have ne: "set ops - D \<noteq> {}" using I by (auto simp: layers_inv_def)
  let ?R = "{(a, b). a \<in> set ops \<and> b \<in> set ops \<and> HappenedBefore (OpId a) (OpId b)}"
  have "trans ?R" using log_HB(3) [OF L] unfolding trans_def by blast
  moreover have "irrefl ?R" using log_HB(1) [OF L] by (auto simp: irrefl_def)
  ultimately have "acyclic ?R" by (simp add: acyclic_irrefl trancl_id)
  moreover have "finite ?R" by (rule finite_subset [of _ "set ops \<times> set ops"]) auto
  ultimately have wf: "wf ?R" by (simp add: finite_acyclic_wf)
  obtain b where b: "b \<in> set ops - D" "\<And>a. (a, b) \<in> ?R \<Longrightarrow> a \<notin> set ops - D"
    by (rule wfE_min' [OF wf ne]) blast
  then have "\<forall>a\<in>set ops. covers ops a b \<longrightarrow> a \<in> D" by (auto simp: covers_def)
  with b(1) I show False by (auto simp: layers_inv_def)
qed

lemma layers_loop_complete:
  assumes L: "log_ok ops"
  shows "layers_inv ops D Q m layers \<Longrightarrow>
    \<exists>layers' m'. layers_loop (BuildDAG ops) (map op_key Q) m layers (card D) = Ret (layers', length ops) \<and>
      layers_inv ops (set ops) [] m' layers'"
proof (induction "card (set ops - D)" arbitrary: D Q m layers rule: less_induct)
  case less
  have dist: "distinct ops" using L by (auto simp: log_ok_def distinct_map)
  show ?case
  proof (cases "Q = []")
    case True
    then have "D = set ops" using layers_done [OF L] less.prems by simp
    with True less.prems dist show ?thesis
      by (auto simp: layers_loop.simps distinct_card)
  next
    case False
    obtain m' nxt Q' where step: "layer_loop (BuildDAG ops) (map op_key Q) m [] [] = Ret (m', nxt, map OpId Q)"
      "sort nxt = map op_key Q'" "layers_inv ops (D \<union> set Q) Q' m' (layers @ [map OpId Q])"
      by (rule layers_step [OF L less.prems])
    have Q: "set Q \<subseteq> set ops - D" "distinct Q" "D \<subseteq> set ops" using less.prems by (auto simp: layers_inv_def)
    have "set ops - (D \<union> set Q) \<subset> set ops - D" using Q False by (cases Q) auto
    then have "card (set ops - (D \<union> set Q)) < card (set ops - D)" by (simp add: psubset_card_mono)
    from less.hyps [OF this step(3)] obtain layers' m''
      where "layers_loop (BuildDAG ops) (map op_key Q') m' (layers @ [map OpId Q]) (card (D \<union> set Q)) = Ret (layers', length ops)"
        "layers_inv ops (set ops) [] m'' layers'" by blast
    moreover have "card (D \<union> set Q) = card D + length Q"
      using Q finite_subset [OF Q(3)] by (subst card_Un_disjoint) (auto simp: distinct_card)
    ultimately show ?thesis using step False by (auto simp: layers_loop.simps [of _ "map op_key Q"])
  qed
qed

lemma indegree_fold:
  "distinct (map fst nodes) \<Longrightarrow> k \<in> fst ` set nodes \<Longrightarrow>
   clk_val (foldl (\<lambda>m (ident, node). AList.update ident (int (length (Parents node))) m) m0 nodes) k =
     (case map_of nodes k of Some node \<Rightarrow> int (length (Parents node)) | None \<Rightarrow> 0)"
proof (induction nodes arbitrary: m0)
  case (Cons e nodes)
  obtain i node where e: "e = (i, node)" by (cases e)
  have other: "k \<notin> fst ` set ns \<Longrightarrow>
      clk_val (foldl (\<lambda>m (ident, node). AList.update ident (int (length (Parents node))) m) m1 ns) k = clk_val m1 k" for m1 ns
    by (induction ns arbitrary: m1) (auto simp: gomap_simps)
  show ?case
  proof (cases "k = i")
    case True
    with Cons.prems e other [of nodes] show ?thesis by (simp add: gomap_simps)
  next
    case False
    with Cons e show ?thesis by simp
  qed
qed simp

lemma GetTopologicalLayers_complete:
  assumes L: "log_ok ops" and ne: "ops \<noteq> []"
  shows "\<exists>layers m. GetTopologicalLayers (BuildDAG ops) = Ret layers \<and> layers_inv ops (set ops) [] m layers"
proof -
  let ?D = "BuildDAG ops"
  define m where "m = foldl (\<lambda>m (ident, node). AList.update ident (int (length (Parents node))) m) [] (Nodes ?D)"
  note F = BuildDAG_facts [OF L]
  have dist: "distinct ops" using L by (auto simp: log_ok_def distinct_map)
  have inj: "inj_on op_key (set ops)" using log_key_eq [OF L] by (auto simp: inj_on_def)
  have dk: "distinct (map fst (Nodes ?D))" using dist inj F(1) by (simp add: distinct_map)
  have len: "length (Nodes ?D) = length ops" using F(1) by (metis length_map)
  have m: "clk_val m (op_key op) = int (covered_by ops (set ops - {}) op)" if op: "op \<in> set ops" for op
  proof -
    have "op_key op \<in> fst ` set (Nodes ?D)" using F(1) op by (metis image_eqI image_set set_map)
    then have "clk_val m (op_key op) = int (length (filter (\<lambda>a. covers ops a op) ops))"
      using indegree_fold [OF dk, of "op_key op" "[]"] F(2) [OF op] by (simp add: m_def)
    also have "\<dots> = int (covered_by ops (set ops - {}) op)"
      using distinct_card [of "filter (\<lambda>a. covers ops a op) ops"] dist by (simp add: covered_by_def)
    finally show ?thesis .
  qed
  let ?R = "filter (\<lambda>b. \<forall>a\<in>set ops. \<not> covers ops a b) ops"
  have "set (sort (map fst (Roots ?D))) \<subseteq> op_key ` set ops" by (auto simp: F(4))
  then obtain Q where Q: "sort (map fst (Roots ?D)) = map op_key Q" "set Q \<subseteq> set ops"
    using list_of_image by blast
  have "set (map op_key Q) = set (map op_key ?R)" unfolding Q(1) [symmetric] F(4) by (rule set_sort)
  then have "op_key ` set Q = op_key ` set ?R" by (simp only: set_map)
  then have setQ: "set Q = set ?R" by (subst (asm) inj_on_image_eq_iff [OF inj Q(2) filter_is_subset])
  have "distinct (map op_key ?R)" using dist inj by (auto simp: distinct_map intro: inj_on_subset)
  then have "distinct (map op_key Q)" unfolding Q(1) [symmetric] F(4) by (simp only: distinct_sort)
  then have "distinct Q" by (simp add: distinct_map)
  with setQ m have "layers_inv ops {} Q m []" by (auto simp: layers_inv_def)
  from layers_loop_complete [OF L this] obtain layers m' where
    "layers_loop ?D (map op_key Q) m [] 0 = Ret (layers, length ops)" "layers_inv ops (set ops) [] m' layers" by auto
  then show ?thesis
    using ne len by (auto simp: GetTopologicalLayers_def Let_def Q(1) m_def [symmetric])
qed

section \<open>Paths\<close>

definition dag_edge :: "operation_dag \<Rightarrow> string \<Rightarrow> string \<Rightarrow> bool" where
  "dag_edge dag x y \<longleftrightarrow> y \<in> set (dag_edges dag x)"

lemma dag_edge_covers:
  assumes "log_ok ops"
  shows "dag_edge (BuildDAG ops) x y \<longleftrightarrow>
    (\<exists>a\<in>set ops. \<exists>b\<in>set ops. x = op_key a \<and> y = op_key b \<and> covers ops a b)"
proof (cases "x \<in> op_key ` set ops")
  case True
  then obtain a where a: "a \<in> set ops" "x = op_key a" by blast
  then show ?thesis
    using BuildDAG_facts(3) [OF assms a(1)] log_key_eq [OF assms] by (auto simp: dag_edge_def)
next
  case False
  then show ?thesis using BuildDAG_facts(5) [OF assms False] by (auto simp: dag_edge_def)
qed

lemma path_HB:
  assumes L: "log_ok ops" and "(dag_edge (BuildDAG ops))\<^sup>+\<^sup>+ x y"
  shows "\<exists>a\<in>set ops. \<exists>b\<in>set ops. x = op_key a \<and> y = op_key b \<and> HappenedBefore (OpId a) (OpId b)"
  using assms(2)
proof (induction rule: tranclp_induct)
  case (base y)
  then show ?case unfolding dag_edge_covers [OF L] covers_def by blast
next
  case (step y z)
  from step(2) obtain b' c where bc: "b' \<in> set ops" "c \<in> set ops" "y = op_key b'" "z = op_key c"
    "HappenedBefore (OpId b') (OpId c)" unfolding dag_edge_covers [OF L] covers_def by blast
  from step(3) obtain a b where ab: "a \<in> set ops" "b \<in> set ops" "x = op_key a" "y = op_key b"
    "HappenedBefore (OpId a) (OpId b)" by blast
  have "b = b'" using log_key_eq [OF L ab(2) bc(1)] ab(4) bc(3) by simp
  then show ?case using log_HB(3) [OF L ab(1,2) bc(2)] ab bc by blast
qed

lemma HB_path:
  assumes L: "log_ok ops" and "a \<in> set ops" and "b \<in> set ops" and "HappenedBefore (OpId a) (OpId b)"
  shows "(dag_edge (BuildDAG ops))\<^sup>+\<^sup>+ (op_key a) (op_key b)"
  using assms(2-)
proof (induction "card {c \<in> set ops. HappenedBefore (OpId a) (OpId c) \<and> HappenedBefore (OpId c) (OpId b)}"
    arbitrary: a b rule: less_induct)
  case less
  let ?between = "\<lambda>a b. {c \<in> set ops. HappenedBefore (OpId a) (OpId c) \<and> HappenedBefore (OpId c) (OpId b)}"
  show ?case
  proof (cases "?between a b = {}")
    case True
    then have "covers ops a b" using less.prems by (auto simp: covers_def)
    then have "dag_edge (BuildDAG ops) (op_key a) (op_key b)"
      using less.prems unfolding dag_edge_covers [OF L] by blast
    then show ?thesis by blast
  next
    case False
    then obtain c where c: "c \<in> set ops" "HappenedBefore (OpId a) (OpId c)" "HappenedBefore (OpId c) (OpId b)" by blast
    have "?between a c \<subset> ?between a b" "?between c b \<subset> ?between a b"
      using c log_HB(1) [OF L c(1)] log_HB(3) [OF L] less.prems by blast+
    then have "card (?between a c) < card (?between a b)" "card (?between c b) < card (?between a b)"
      by (simp_all add: psubset_card_mono)
    with less.hyps less.prems c have "(dag_edge (BuildDAG ops))\<^sup>+\<^sup>+ (op_key a) (op_key c)"
      "(dag_edge (BuildDAG ops))\<^sup>+\<^sup>+ (op_key c) (op_key b)" by blast+
    then show ?thesis by (rule tranclp_trans)
  qed
qed

section \<open>Comparing graphs\<close>

lemma Equals_permuted:
  assumes L: "log_ok ops" and L': "log_ok ops'" and eq: "set ops = set ops'"
  shows "dag_Equals (BuildDAG ops) (BuildDAG ops')"
proof -
  let ?d = "BuildDAG ops" and ?d' = "BuildDAG ops'"
  note F = BuildDAG_facts [OF L] and F' = BuildDAG_facts [OF L']
  have dist: "distinct ops" "distinct ops'" using L L' by (auto simp: log_ok_def distinct_map)
  then have "length ops = length ops'" using eq by (metis distinct_card)
  then have len: "length (Nodes ?d) = length (Nodes ?d')" using F(1) F'(1) by (metis length_map)
  have nodes: "map_of (Nodes ?d') k \<noteq> None" if "(k, n) \<in> set (Nodes ?d)" for k n
  proof -
    have "k \<in> op_key ` set ops" using that F(1) by (metis image_eqI image_set fst_conv set_map)
    then show ?thesis using F'(2) eq by auto
  qed
  have cov: "covers ops' = covers ops" using eq by (simp add: covers_def fun_eq_iff)
  have edges: "\<exists>l'. map_of (Edges ?d') k = Some l' \<and> sort l = sort l'" if kl: "(k, l) \<in> set (Edges ?d)" for k l
  proof -
    have l: "dag_edges ?d k = l" "l \<noteq> []" using kl F(6,7) by (auto simp: dag_edges_def list_all_iff)
    then have "k \<in> op_key ` set ops" using F(5) by blast
    then obtain a where a: "a \<in> set ops" "k = op_key a" by blast
    have la: "l = map op_key (filter (covers ops a) ops)" using F(3) [OF a(1)] l a by simp
    have l': "dag_edges ?d' k = map op_key (filter (covers ops a) ops')" using F'(3) a eq cov by simp
    have "mset ops = mset ops'" using dist eq by (simp add: set_eq_iff_mset_eq_distinct)
    then have "mset l = mset (dag_edges ?d' k)" unfolding la l' by (simp add: mset_filter)
    moreover from this l have "dag_edges ?d' k \<noteq> []" by auto
    then obtain l2 where "map_of (Edges ?d') k = Some l2" "dag_edges ?d' k = l2"
      by (auto simp: dag_edges_def split: option.splits)
    ultimately show ?thesis by (intro exI [of _ l2]) (simp add: properties_for_sort)
  qed
  show ?thesis
    using len nodes edges by (fastforce simp: dag_Equals_def list_all_iff)
qed

end
