(* ===== verification/History.thy ===== *)
theory History
  imports Dag
begin

text \<open>
  The text renderings of the causal graph in \<open>history/dag.go\<close> and the view of it that the commands
  use, \<open>history/history.go\<close>.  Strings are bytes, so the box characters of the source appear as their
  UTF-8 encodings.  A Go value of type \<open>any\<close> is a value of \<open>any_value\<close>.
\<close>

section \<open>Text\<close>

definition nl :: string where "nl = [CHR 0x0A]"
definition arrow :: string where "arrow = [CHR 0xE2, CHR 0x86, CHR 0x92]"
definition box_dash :: string where "box_dash = [CHR 0xE2, CHR 0x94, CHR 0x80]"
definition box_bar :: string where "box_bar = [CHR 0xE2, CHR 0x94, CHR 0x82]"
definition box_top :: string where "box_top = [CHR 0xE2, CHR 0x94, CHR 0x8C]"
definition box_tee :: string where "box_tee = [CHR 0xE2, CHR 0x94, CHR 0x9C]"
definition box_corner :: string where "box_corner = [CHR 0xE2, CHR 0x94, CHR 0x94]"

definition countEdges :: "operation_dag \<Rightarrow> nat" where
  "countEdges dag = foldl (\<lambda>count (_, toList). count + length toList) 0 (Edges dag)"

text \<open>The nodes listed are those of the map, so the lookup of the second loop succeeds.\<close>

definition ToASCIILinearization :: "operation_dag \<Rightarrow> string" where
  "ToASCIILinearization dag =
     (let header = ''DAG with '' @ dec_nat (length (Nodes dag)) @ '' nodes and '' @
            dec_nat (countEdges dag) @ '' edges'' @ nl;
          nodeIds = sort (map fst (Nodes dag));
          nodeLines = concat (map (\<lambda>ident. case map_of (Nodes dag) ident of
              None \<Rightarrow> ''''
            | Some node \<Rightarrow> ''  '' @ ident @ '': '' @ dec_nat (length (Parents node)) @ '' parents, '' @
                dec_nat (length (Children node)) @ '' children'' @ nl) nodeIds);
          fromList = sort (map fst (Edges dag));
          edgeLines = concat (map (\<lambda>src. concat (map (\<lambda>dst.
              ''  '' @ src @ '' '' @ arrow @ '' '' @ dst @ nl) (dag_edges dag src))) fromList)
      in header @ nl @ ''Nodes:'' @ nl @ nodeLines @ nl @ ''Edges:'' @ nl @ edgeLines)"

definition formatASCIINode :: "operation_dag \<Rightarrow> string \<Rightarrow> string go" where
  "formatASCIINode dag opID =
     (case map_of (Nodes dag) opID of
        None \<Rightarrow> Panic
      | Some node \<Rightarrow>
          let b = opID @ '' ['' @ OpType_String (Op (Operation node)) @ ''] '' @ [CHR 0x27] @
                Op_Char (Operation node) @ [CHR 0x27];
              b1 = (if length (Parents node) > 1
                then b @ '' ['' @ dec_nat (length (Parents node)) @ '' parents ('' @
                  str_join '', '' (map lid_String (Parents node)) @ '')]'' else b);
              children = dag_edges dag opID
          in Ret (if length children > 0 then b1 @ '' '' @ arrow @ '' '' @ str_join '', '' children else b1))"

text \<open>The lines of one layer; \<open>rest\<close> counts the operations that follow in it.\<close>

fun layer_lines :: "operation_dag \<Rightarrow> string \<Rightarrow> bool \<Rightarrow> logical_id list \<Rightarrow> string go" where
  "layer_lines dag pre lastOpen [] = Ret ''''"
| "layer_lines dag pre lastOpen (opID # rest) =
     (let branch = (if lastOpen \<and> rest = [] then box_corner @ box_dash else box_tee @ box_dash)
      in go_bind (formatASCIINode dag (lid_String opID)) (\<lambda>txt.
           go_bind (layer_lines dag pre lastOpen rest) (\<lambda>more.
             Ret (pre @ branch @ '' '' @ txt @ nl @ more))))"

fun all_layers :: "operation_dag \<Rightarrow> bool \<Rightarrow> nat \<Rightarrow> logical_id list list \<Rightarrow> string go" where
  "all_layers dag truncated layerIdx [] = Ret ''''"
| "all_layers dag truncated layerIdx (layer # rest) =
     (let pre = concat (replicate layerIdx (box_bar @ ''  '')); isLastLayer = (rest = [])
      in go_bind (layer_lines dag pre (isLastLayer \<and> \<not> truncated) layer) (\<lambda>txt.
           go_bind (all_layers dag truncated (layerIdx + 1) rest) (\<lambda>more.
             Ret (txt @ (if \<not> isLastLayer then pre @ box_bar @ nl else '''') @ more))))"

definition ToASCIIDAG :: "operation_dag \<Rightarrow> int \<Rightarrow> string go" where
  "ToASCIIDAG dag maxDepth =
     (if length (Nodes dag) = 0 then Ret (''Empty DAG'' @ nl)
      else go_bind (GetTopologicalLayers dag) (\<lambda>layers.
        if length layers = 0 then Ret (''Empty DAG'' @ nl)
        else let truncated = (maxDepth > 0 \<and> int (length layers) > maxDepth);
                 display = (if truncated then take (nat maxDepth) layers else layers)
             in go_bind (all_layers dag truncated 0 display) (\<lambda>body.
                  Ret (nl @ box_top @ box_dash @ '' DAG: '' @ dec_nat (length (Nodes dag)) @ '' operations, '' @
                    dec_nat (countEdges dag) @ '' causal edges'' @ nl @ box_bar @ nl @ body @
                    (if truncated then
                       let pre = concat (replicate (length display) (box_bar @ ''  ''))
                       in pre @ ''...'' @ nl @ pre @ ''('' @
                          dec_int (int (length layers) - int (length display)) @ '' more layers not shown)'' @ nl
                     else '''')))))"

section \<open>The history of a replica\<close>

datatype any_value = AnyString string | AnyInt int | AnyOther

record cvrdt_dag_history =
  currentDag :: operation_dag

definition UpdateHistory :: "cvrdt_dag_history \<Rightarrow> crdt_operation list \<Rightarrow> cvrdt_dag_history \<times> go_error option" where
  "UpdateHistory cdh newState = (cdh\<lparr>currentDag := BuildDAG newState\<rparr>, None)"

definition Display :: "cvrdt_dag_history \<Rightarrow> (string \<times> any_value) list \<Rightarrow> (go_error + string) go" where
  "Display cdh args =
     (case map_of args ''mode'' of
        None \<Rightarrow> Ret (Inl (Errorf (''Display history '' @ [CHR 0x27] @ ''mode'' @ [CHR 0x27] @ '' not found'')))
      | Some (AnyString mode) \<Rightarrow>
          if mode = ''linear'' then Ret (Inr (ToASCIILinearization (currentDag cdh)))
          else if mode = ''dag'' then
            (case map_of args ''depth'' of
               None \<Rightarrow> Ret (Inl (Errorf ([CHR 0x27] @ ''depth'' @ [CHR 0x27] @
                 '' argument should be specified in dag mode'')))
             | Some (AnyInt dagDepth) \<Rightarrow>
                 go_bind (ToASCIIDAG (currentDag cdh) dagDepth) (\<lambda>txt. Ret (Inr txt))
             | Some _ \<Rightarrow> Ret (Inl (Errorf ([CHR 0x27] @ ''depth'' @ [CHR 0x27] @
                 '' argument should be an integer''))))
          else Ret (Inl (Errorf (''Display history mode should be '' @ [CHR 0x27] @ ''linear'' @ [CHR 0x27] @
            '' or '' @ [CHR 0x27] @ ''dag'' @ [CHR 0x27])))
      | Some _ \<Rightarrow> Ret (Inl (Errorf (''Display history '' @ [CHR 0x27] @ ''mode'' @ [CHR 0x27] @
          '' argument should be a string''))))"

section \<open>The rendering is total on causal logs\<close>

lemma layer_lines_total:
  "\<forall>l\<in>set layer. map_of (Nodes dag) (lid_String l) \<noteq> None \<Longrightarrow> \<exists>txt. layer_lines dag pre lastOpen layer = Ret txt"
proof (induction layer)
  case (Cons l layer)
  then obtain node tx where "map_of (Nodes dag) (lid_String l) = Some node"
    "layer_lines dag pre lastOpen layer = Ret tx" by auto
  then show ?case by (simp add: formatASCIINode_def Let_def)
qed simp

lemma all_layers_total:
  "\<forall>l\<in>set (concat layers). map_of (Nodes dag) (lid_String l) \<noteq> None \<Longrightarrow> \<exists>txt. all_layers dag t i layers = Ret txt"
proof (induction layers arbitrary: i)
  case (Cons layer layers)
  then obtain more where "all_layers dag t (i + 1) layers = Ret more" by fastforce
  moreover obtain tx where "layer_lines dag (concat (replicate i (box_bar @ ''  ''))) (layers = [] \<and> \<not> t) layer = Ret tx"
    using layer_lines_total [of layer dag] Cons.prems by fastforce
  ultimately show ?case by (simp add: Let_def)
qed simp

section \<open>Properties\<close>

text \<open>A log in which an operation of site b follows two concurrent ones.\<close>

definition op_of :: "string \<Rightarrow> clock_map \<Rightarrow> crdt_operation" where
  "op_of s c = Woot \<lparr>woot_Id = \<lparr>lid_SiteId = s, lid_Clock = c\<rparr>, woot_Type = Insertion,
     woot_Character = \<lparr>data_Id = WCharacterId s (clk_val c s), data_AlphaValue = ''x'', data_Visible = True,
       data_PreviousId = WCharacterId s 0, data_NextId = WCharacterId s MaxValue\<rparr>\<rparr>"

definition log3 :: "crdt_operation list" where
  "log3 = [op_of ''a'' [(''a'', 1)], op_of ''b'' [(''b'', 1)], op_of ''b'' [(''b'', 2), (''a'', 1)]]"

lemma log3_ok: "log_ok log3"
  by (auto simp: log_ok_def log3_def op_of_def history_ok_def lid_ok_def clk_ok_def GetLogicalClock_def
      clk_val_def MaxValue_def clk_le_def split: if_splits dest: spec [where x = "''a''"] spec [where x = "''b''"])

text \<open>C19. The graph built from a causal log is the covering relation of \<open>HappenedBefore\<close>: an edge joins
  two operations exactly if one happened before the other with none in between, the parents of a
  node are its predecessors in it, and the roots are the operations without any.\<close>

theorem BuildDAG_covering:
  assumes "log_ok ops" and "a \<in> set ops" and "b \<in> set ops"
  shows "(op_key b \<in> set (dag_edges (BuildDAG ops) (op_key a)) \<longleftrightarrow>
      HappenedBefore (OpId a) (OpId b) \<and>
      \<not> (\<exists>c\<in>set ops. HappenedBefore (OpId a) (OpId c) \<and> HappenedBefore (OpId c) (OpId b))) \<and>
    (OpId a \<in> set (dag_parents (BuildDAG ops) (op_key b)) \<longleftrightarrow>
      op_key b \<in> set (dag_edges (BuildDAG ops) (op_key a))) \<and>
    (op_key b \<in> fst ` set (Roots (BuildDAG ops)) \<longleftrightarrow> \<not> (\<exists>x\<in>set ops. HappenedBefore (OpId x) (OpId b)))"
proof -
  note F = BuildDAG_facts [OF assms(1)]
  have e: "op_key b \<in> set (dag_edges (BuildDAG ops) (op_key a)) \<longleftrightarrow> covers ops a b"
    using dag_edge_covers [OF assms(1), of "op_key a" "op_key b"] log_key_eq [OF assms(1)] assms(2,3)
    by (auto simp: dag_edge_def)
  have inj: "inj_on OpId (set ops)" using assms(1) by (simp add: log_ok_def distinct_map)
  have p: "OpId a \<in> set (dag_parents (BuildDAG ops) (op_key b)) \<longleftrightarrow> covers ops a b"
    using F(2) [OF assms(3)] inj assms(2) by (auto simp: dag_parents_def inj_on_def)
  have "op_key b \<in> set (map fst (Roots (BuildDAG ops))) \<longleftrightarrow> (\<forall>x\<in>set ops. \<not> covers ops x b)"
    unfolding F(4) using log_key_eq [OF assms(1)] assms(3) by auto
  also have "\<dots> \<longleftrightarrow> \<not> (\<exists>x\<in>set ops. HappenedBefore (OpId x) (OpId b))"
  proof -
    have "\<exists>y\<in>set ops. covers ops y b" if x: "x \<in> set ops" "HappenedBefore (OpId x) (OpId b)" for x
    proof -
      have "(dag_edge (BuildDAG ops))\<^sup>+\<^sup>+ (op_key x) (op_key b)" by (rule HB_path [OF assms(1) x(1) assms(3) x(2)])
      then obtain y where "dag_edge (BuildDAG ops) y (op_key b)" by (metis tranclp.cases)
      then show ?thesis unfolding dag_edge_covers [OF assms(1)] using log_key_eq [OF assms(1)] assms(3) by blast
    qed
    then show ?thesis unfolding covers_def by blast
  qed
  finally have r: "op_key b \<in> fst ` set (Roots (BuildDAG ops)) \<longleftrightarrow> \<not> (\<exists>x\<in>set ops. HappenedBefore (OpId x) (OpId b))"
    by simp
  show ?thesis using e p r by (simp add: covers_def)
qed

theorem BuildDAG_covering_witness: "''b_1'' \<in> fst ` set (Roots (BuildDAG log3))"
proof -
  have "op_of ''b'' [(''b'', 1)] \<in> set log3" by (simp add: log3_def)
  from BuildDAG_covering [OF log3_ok this this]
  have "op_key (op_of ''b'' [(''b'', 1)]) \<in> fst ` set (Roots (BuildDAG log3)) \<longleftrightarrow>
    \<not> (\<exists>x\<in>set log3. HappenedBefore (OpId x) (OpId (op_of ''b'' [(''b'', 1)])))" by blast
  moreover have "\<not> (\<exists>x\<in>set log3. HappenedBefore (OpId x) (OpId (op_of ''b'' [(''b'', 1)])))" by code_simp
  moreover have "op_key (op_of ''b'' [(''b'', 1)]) = ''b_1''" by code_simp
  ultimately show ?thesis by simp
qed

text \<open>\<open>HasPath\<close> does not search, it compares two clocks; on a causal log its answer is the one the
  search would give: there is a path of edges exactly if it says so.\<close>

theorem HasPath_is_reachability:
  assumes "log_ok ops" and "a \<in> set ops" and "b \<in> set ops"
  shows "HasPath (BuildDAG ops) (op_key a) (op_key b) =
    Ret ((\<lambda>x y. y \<in> set (dag_edges (BuildDAG ops) x))\<^sup>+\<^sup>+ (op_key a) (op_key b))"
proof -
  have e: "(\<lambda>x y. y \<in> set (dag_edges (BuildDAG ops) x)) = dag_edge (BuildDAG ops)"
    by (simp add: dag_edge_def fun_eq_iff)
  have "(dag_edge (BuildDAG ops))\<^sup>+\<^sup>+ (op_key a) (op_key b) \<longleftrightarrow> HappenedBefore (OpId a) (OpId b)"
  proof
    assume "(dag_edge (BuildDAG ops))\<^sup>+\<^sup>+ (op_key a) (op_key b)"
    from path_HB [OF assms(1) this] obtain a' b' where ab: "a' \<in> set ops" "b' \<in> set ops"
      "op_key a = op_key a'" "op_key b = op_key b'" "HappenedBefore (OpId a') (OpId b')" by blast
    then have "a = a'" "b = b'" using log_key_eq [OF assms(1)] assms(2,3) by metis+
    with ab show "HappenedBefore (OpId a) (OpId b)" by simp
  qed (rule HB_path [OF assms])
  then show ?thesis
    using BuildDAG_facts(2) [OF assms(1,2)] BuildDAG_facts(2) [OF assms(1,3)] by (simp add: HasPath_def e)
qed

theorem HasPath_is_reachability_witness:
  "HasPath (BuildDAG log3) (op_key (hd log3)) (op_key (last log3)) =
    Ret ((\<lambda>x y. y \<in> set (dag_edges (BuildDAG log3) x))\<^sup>+\<^sup>+ (op_key (hd log3)) (op_key (last log3)))"
  by (rule HasPath_is_reachability [OF log3_ok]) (simp_all add: log3_def)

text \<open>C10. The topological sort of a causal log returns, so its panic is dead code there: the layers hold
  every operation once, an operation comes after everything it directly depends on, and each layer
  but the first consists of operations that depend on the layer before it.\<close>

theorem GetTopologicalLayers_correct:
  assumes "log_ok ops" and "ops \<noteq> []"
  shows "\<exists>layers. GetTopologicalLayers (BuildDAG ops) = Ret layers \<and>
    distinct (concat layers) \<and> set (concat layers) = OpId ` set ops \<and>
    (\<forall>i<length layers. \<forall>op\<in>set ops. OpId op \<in> set (layers ! i) \<longrightarrow>
      (\<forall>a\<in>set ops. op_key op \<in> set (dag_edges (BuildDAG ops) (op_key a)) \<longrightarrow> OpId a \<in> set (concat (take i layers))) \<and>
      (0 < i \<longrightarrow> (\<exists>a\<in>set ops. op_key op \<in> set (dag_edges (BuildDAG ops) (op_key a)) \<and> OpId a \<in> set (layers ! (i - 1)))))"
proof -
  from GetTopologicalLayers_complete [OF assms] obtain layers m where
    run: "GetTopologicalLayers (BuildDAG ops) = Ret layers" and I: "layers_inv ops (set ops) [] m layers" by blast
  have e: "op_key op \<in> set (dag_edges (BuildDAG ops) (op_key a)) \<longleftrightarrow> covers ops a op"
    if "a \<in> set ops" "op \<in> set ops" for a op
    using dag_edge_covers [OF assms(1), of "op_key a" "op_key op"] log_key_eq [OF assms(1)] that
    by (auto simp: dag_edge_def)
  show ?thesis
    using run I e unfolding layers_inv_def by (intro exI [of _ layers]) (simp cong: ball_cong)
qed

theorem GetTopologicalLayers_correct_witness:
  "\<exists>layers. GetTopologicalLayers (BuildDAG log3) = Ret layers \<and> set (concat layers) = OpId ` set log3"
  using GetTopologicalLayers_correct [OF log3_ok] by (auto simp: log3_def)

text \<open>A log that holds an operation twice, as the broken comparison of three sites makes it, sends the
  topological sort into its panic: the parents are counted twice, the edges once.\<close>

theorem layers_panic_on_duplicate:
  "GetTopologicalLayers (BuildDAG [op_of ''a'' [(''a'', 1)], op_of ''b'' [(''a'', 1), (''b'', 1)], op_of ''a'' [(''a'', 1)]]) = Panic"
  by code_simp

text \<open>The graph is independent of the order of the log: two replicas that hold the same operations
  build graphs that \<open>Equals\<close> accepts.\<close>

theorem Equals_same_operations:
  assumes "log_ok ops" and "log_ok ops'" and "set ops = set ops'"
  shows "dag_Equals (BuildDAG ops) (BuildDAG ops')"
  by (rule Equals_permuted [OF assms])

theorem Equals_same_operations_witness: "dag_Equals (BuildDAG log3) (BuildDAG (rev log3))"
proof (rule Equals_same_operations [OF log3_ok])
  show "log_ok (rev log3)" using log3_ok by (simp add: log_ok_def rev_map [symmetric])
qed simp

text \<open>\<open>Equals\<close> is not symmetric: it accepts a graph with the same nodes and more edges.\<close>

theorem Equals_not_symmetric:
  "\<exists>d d'. dag_Equals d d' \<and> \<not> dag_Equals d' d"
proof -
  let ?d = "BuildDAG [op_of ''a'' [(''a'', 1)], op_of ''b'' [(''b'', 1)]]"
  let ?d' = "BuildDAG [op_of ''a'' [(''a'', 1)], op_of ''b'' [(''a'', 1), (''b'', 1)]]"
  have "dag_Equals ?d ?d'" "\<not> dag_Equals ?d' ?d" by code_simp+
  then show ?thesis by blast
qed

text \<open>C31. Showing the history of a causal log as a graph always returns a text, for every depth: no
  lookup of a node fails and the layers do not panic.\<close>

theorem Display_dag_total:
  assumes "log_ok ops"
  shows "\<exists>txt. Display (fst (UpdateHistory cdh ops)) [(''mode'', AnyString ''dag''), (''depth'', AnyInt d)] = Ret (Inr txt)"
proof -
  let ?D = "BuildDAG ops"
  have "\<exists>txt. ToASCIIDAG ?D d = Ret txt"
  proof (cases "ops = []")
    case True
    then show ?thesis by (simp add: ToASCIIDAG_def BuildDAG_def initEdges_def initNodes_def)
  next
    case False
    from GetTopologicalLayers_complete [OF assms False] obtain layers m where
      run: "GetTopologicalLayers ?D = Ret layers" and I: "layers_inv ops (set ops) [] m layers" by blast
    have nodes: "map_of (Nodes ?D) (lid_String l) \<noteq> None" if "l \<in> OpId ` set ops" for l
      using that BuildDAG_facts(2) [OF assms] by auto
    have all: "\<forall>l\<in>set (concat layers). map_of (Nodes ?D) (lid_String l) \<noteq> None"
    proof
      fix l assume "l \<in> set (concat layers)"
      moreover have "set (concat layers) = OpId ` set ops" using I unfolding layers_inv_def by (elim conjE)
      ultimately show "map_of (Nodes ?D) (lid_String l) \<noteq> None" by (intro nodes) (simp only:)
    qed
    have take: "\<forall>l\<in>set (concat (take k layers)). map_of (Nodes ?D) (lid_String l) \<noteq> None" for k
    proof
      fix l assume "l \<in> set (concat (take k layers))"
      then have "l \<in> set (concat layers)" using set_take_subset [of k layers] by auto
      with all show "map_of (Nodes ?D) (lid_String l) \<noteq> None" by blast
    qed
    let ?t = "d > 0 \<and> int (length layers) > d"
    let ?display = "if ?t then take (nat d) layers else layers"
    have "\<forall>l\<in>set (concat ?display). map_of (Nodes ?D) (lid_String l) \<noteq> None"
      by (cases ?t) (use all take in \<open>simp_all only: if_True if_False simp_thms\<close>)
    from all_layers_total [OF this] obtain body where "all_layers ?D ?t 0 ?display = Ret body" by blast
    then show ?thesis by (simp add: ToASCIIDAG_def run Let_def)
  qed
  then show ?thesis by (auto simp: Display_def UpdateHistory_def)
qed

theorem Display_dag_total_witness:
  "\<exists>txt. Display (fst (UpdateHistory \<lparr>currentDag = BuildDAG []\<rparr> log3)) [(''mode'', AnyString ''dag''), (''depth'', AnyInt 1)] =
    Ret (Inr txt)"
  by (rule Display_dag_total [OF log3_ok])

end
