(* ===== verification/Repository.thy ===== *)
theory Repository
  imports Registry Edits History
begin

text \<open>
  The repository of a peer, \<open>file/repository/repo.go\<close> and \<open>file/repository/cvrdt_exports.go\<close>: the
  registry of replicated files with the history of their logs, an edit of a file, and the states a
  peer receives.  The registry is used with the replicas of \<open>cvrdt/state.go\<close>; decoding a payload is a
  parameter.
\<close>

section \<open>Observable states\<close>

text \<open>What the registry relies on: taking a snapshot changes nothing but the freshness it reports
  the next time, and a clone is equal.\<close>

locale observable =
  fixes ob :: "('m, 's) ObservableState"
  assumes snapshot_state: "obs_GetState ob (snd (obs_Snapshot ob m)) = obs_GetState ob m"
    and snapshot_again: "obs_Snapshot ob (snd (obs_Snapshot ob m)) =
      ((fst (fst (obs_Snapshot ob m)), True), snd (obs_Snapshot ob m))"
    and clone_eq: "obs_Clone ob s = s"
begin

text \<open>Reading a file's content gives the text, changes no log, and can be repeated.\<close>

lemma content_known:
  assumes "getFileCtx fr name = Inr ctx"
  obtains fr' where "GetFileContent ob fr name = (fr', Inr (fst (fst (obs_Snapshot ob (metaState ctx)))))"
    "getFileCtx fr' name = Inr (ctx\<lparr>metaState := snd (obs_Snapshot ob (metaState ctx))\<rparr>)"
    "\<And>other. other \<noteq> name \<Longrightarrow> getFileCtx fr' other = getFileCtx fr other"
proof (rule that [of "put_ctx fr name (ctx\<lparr>metaState := snd (obs_Snapshot ob (metaState ctx))\<rparr>)"])
  show "GetFileContent ob fr name = (put_ctx fr name (ctx\<lparr>metaState := snd (obs_Snapshot ob (metaState ctx))\<rparr>),
      Inr (fst (fst (obs_Snapshot ob (metaState ctx)))))"
    using assms by (simp add: GetFileContent_def split: prod.splits)
qed (simp_all add: getFileCtx_def gomap_simps)

lemma content_keeps_info:
  assumes "getFileCtx fr name = Inr ctx"
  shows "GetFileCtxInfo ob (fst (GetFileContent ob fr name)) name = GetFileCtxInfo ob fr name"
  by (rule content_known [OF assms])
    (simp add: GetFileCtxInfo_def assms GetStateCopy_def snapshot_state)

text \<open>A tick after a reading finds the state seen and writes nothing, whatever was written before.\<close>

lemma tick_after_content:
  assumes "getFileCtx fr name = Inr ctx" "getFileCtx (fst (GetFileContent ob fr name)) name = Inr ctx'"
  shows "dumper_tick os ob w ctx' = (w, ctx')"
proof -
  let ?m = "snd (obs_Snapshot ob (metaState ctx))"
  have c: "ctx' = ctx\<lparr>metaState := ?m\<rparr>"
    by (rule content_known [OF assms(1)]) (use assms(2) in simp)
  then show ?thesis by (simp add: dumper_tick_def snapshot_again)
qed

text \<open>Without a reading in between, a tick of a state that has changed writes the text.\<close>

lemma tick_writes:
  assumes "\<not> snd (fst (obs_Snapshot ob (metaState ctx)))" "\<not> stopCh_closed (poller ctx)"
    "writer (poller ctx) = Some f"
  shows "fst (dumper_tick os ob w ctx) = Rewrite os w f (fst (fst (obs_Snapshot ob (metaState ctx))))"
  using assms by (auto simp: dumper_tick_def Let_def split: prod.splits)

end

section \<open>The replicas as observable states\<close>

definition woot_states :: "string \<Rightarrow> (woot_cvrdt, crdt_operation list) ObservableState" where
  "woot_states siteId = \<lparr>newEmptyCtxSupplier = NewWootCvrdtWithView siteId, obs_UpdateState = UpdateState,
     obs_GetState = GetState, obs_Snapshot = Snapshot, obs_Clone = state_Clone\<rparr>"

interpretation replicas: observable "woot_states siteId"
  by unfold_locales (simp_all add: woot_states_def GetState_def Snapshot_def GetCurrentData_def state_Clone_def)

lemma woot_states_simps [simp]:
  "newEmptyCtxSupplier (woot_states i) = NewWootCvrdtWithView i"
  "obs_UpdateState (woot_states i) = UpdateState" "obs_GetState (woot_states i) = GetState"
  "obs_Snapshot (woot_states i) = Snapshot" "obs_Clone (woot_states i) s = s"
  by (simp_all add: woot_states_def state_Clone_def)

section \<open>The repository\<close>

type_synonym log_info = "crdt_operation list FileContextInfo"

record 'f Repository =
  repo_site :: string
  repo_history :: cvrdt_dag_history
  repo_registry :: "(woot_cvrdt, 'f) FileRegistry"

definition GetNewCvrdtRepository :: "string \<Rightarrow> string \<Rightarrow> 'f Repository" where
  "GetNewCvrdtRepository siteId pre = \<lparr>repo_site = siteId,
     repo_history = \<lparr>currentDag = \<lparr>Roots = [], Nodes = [], Edges = []\<rparr>\<rparr>,
     repo_registry = CreateNewCRDTFileRegistry pre\<rparr>"

abbreviation repo_states :: "'f Repository \<Rightarrow> (woot_cvrdt, crdt_operation list) ObservableState" where
  "repo_states r \<equiv> woot_states (repo_site r)"

definition DisplayFileHistory :: "'f Repository \<Rightarrow> string \<Rightarrow> string \<Rightarrow> (string \<times> any_value) list \<Rightarrow>
    ('f Repository \<times> (go_error + string)) go" where
  "DisplayFileHistory r filePath mode args =
     (case GetFileCtxInfo (repo_states r) (repo_registry r) filePath of
        Inl err \<Rightarrow> Ret (r, Inl (Errorf (''No file named '' @ filePath @
          '' was found in the repository: '' @ error_msg err)))
      | Inr info \<Rightarrow> (case UpdateHistory (repo_history r) (ReadOnlyState info) of
          (h, Some err) \<Rightarrow> Ret (r\<lparr>repo_history := h\<rparr>, Inl (Errorf
            (''Error while trying to update repository history: '' @ error_msg err)))
        | (h, None) \<Rightarrow> go_bind (Display h (AList.update ''mode'' (AnyString mode) args))
            (\<lambda>res. Ret (r\<lparr>repo_history := h\<rparr>, res))))"

definition GetRepoFiles :: "'f Repository \<Rightarrow> log_info list" where
  "GetRepoFiles r = map snd (GetAllFileCtxInfo (repo_states r) (repo_registry r))"

definition ShutDownRepo :: "('w, 'f) os \<Rightarrow> 'w \<Rightarrow> 'f Repository \<Rightarrow> ('w \<times> 'f Repository \<times> go_error list) go" where
  "ShutDownRepo os w r = go_bind (RemoveAllCtx os w (repo_registry r)) (\<lambda>(w', fr, errs).
     Ret (w', r\<lparr>repo_registry := fr\<rparr>, errs))"

record TextualFileOperation =
  SourceId :: string
  FilePath :: string
  tOpType :: string
  tPos :: int
  tContent :: string

record FileOperationStatus =
  status_Id :: string
  TargetChar :: string
  NewFile :: bool

text \<open>\<open>UpdateFileCtx\<close> of the embedded registry.\<close>

definition repo_UpdateFileCtx :: "('w, 'f) os \<Rightarrow> 'w \<Rightarrow> 'f Repository \<Rightarrow> log_info \<Rightarrow>
    ('w \<times> 'f Repository \<times> (go_error + log_info)) go" where
  "repo_UpdateFileCtx os w r info = go_bind (UpdateFileCtx os (repo_states r) w (repo_registry r) info)
     (\<lambda>(w', fr, res). Ret (w', r\<lparr>repo_registry := fr\<rparr>, res))"

definition InsertCRDTOpInRepo :: "('w, 'f) os \<Rightarrow> 'w \<Rightarrow> 'f Repository \<Rightarrow> TextualFileOperation \<Rightarrow>
    ('w \<times> 'f Repository \<times> (go_error + FileOperationStatus)) go" where
  "InsertCRDTOpInRepo os w r op =
     (if tOpType op \<noteq> ''insert'' \<and> tOpType op \<noteq> ''delete''
      then Ret (w, r, Inl (Errorf (''Supported operation modes are '' @ [CHR 0x27] @ ''insert'' @ [CHR 0x27] @
        '' or '' @ [CHR 0x27] @ ''delete'' @ [CHR 0x27] @ '' not '' @ tOpType op)))
      else
        let opType = (if tOpType op = ''insert'' then Insertion else Deletion);
            newState = GetNewStateFromOp CompareOperation
              [Local (CreateNewLocalOp opType (tPos op) (tContent op) (SourceId op))]
        in go_bind (repo_UpdateFileCtx os w r
             \<lparr>LocalPath = FilePath op, IsNewlyCreated = False, ReadOnlyState = newState\<rparr>)
           (\<lambda>(w', r', res). case res of
              Inl err \<Rightarrow> Ret (w', r', Inl (Errorf (''error while trying to merge new cvrdt operation on '' @
                FilePath op @ '' context: '' @ error_msg err)))
            | Inr updatedInfo \<Rightarrow>
                (if ReadOnlyState updatedInfo = [] then Panic
                 else let resultingOp = last (ReadOnlyState updatedInfo)
                   in Ret (w', r', Inr \<lparr>status_Id = lid_String (OpId resultingOp),
                        TargetChar = Op_Char resultingOp, NewFile = IsNewlyCreated updatedInfo\<rparr>))))"

text \<open>\<open>CvrdtToRepoFilesAdapter\<close>: the payload is decoded into logs of WOOT operations.\<close>

definition getCovarianceCvrdtType :: "woot_operation list FileContextInfo list \<Rightarrow> log_info list" where
  "getCovarianceCvrdtType files = map (\<lambda>x. \<lparr>LocalPath = LocalPath x, IsNewlyCreated = False,
     ReadOnlyState = map Woot (ReadOnlyState x)\<rparr>) files"

definition DecodeToRepoFiles ::
  "('p \<Rightarrow> go_error + woot_operation list FileContextInfo list) \<Rightarrow> 'p \<Rightarrow> go_error + log_info list" where
  "DecodeToRepoFiles dec payload = (case dec payload of
       Inl err \<Rightarrow> Inl err | Inr res \<Rightarrow> Inr (getCovarianceCvrdtType res))"


section \<open>The states of a repository\<close>

text \<open>Everything that happens to a repository: states received or edits made, readings, displays and
  ticks of the dumpers.\<close>

inductive repo_step :: "('w, 'f) os \<Rightarrow> 'w \<times> 'f Repository \<Rightarrow> 'w \<times> 'f Repository \<Rightarrow> bool" for os where
  update: "repo_UpdateFileCtx os w r info = Ret (w', r', res) \<Longrightarrow> \<forall>op\<in>set (ReadOnlyState info). op_ok op \<Longrightarrow>
     repo_step os (w, r) (w', r')"
| insert_op: "InsertCRDTOpInRepo os w r op = Ret (w', r', res) \<Longrightarrow> repo_step os (w, r) (w', r')"
| content: "GetFileContent (repo_states r) (repo_registry r) name = (fr, res) \<Longrightarrow>
     repo_step os (w, r) (w, r\<lparr>repo_registry := fr\<rparr>)"
| display: "DisplayFileHistory r path mode args = Ret (r', res) \<Longrightarrow> repo_step os (w, r) (w, r')"
| tick: "getFileCtx (repo_registry r) name = Inr ctx \<Longrightarrow> dumper_tick os (repo_states r) w ctx = (w', ctx') \<Longrightarrow>
     repo_step os (w, r) (w', r\<lparr>repo_registry := put_ctx (repo_registry r) name ctx'\<rparr>)"

inductive repo_reachable :: "('w, 'f) os \<Rightarrow> string \<Rightarrow> 'w \<times> 'f Repository \<Rightarrow> bool" for os siteId where
  new_repo: "repo_reachable os siteId (w, GetNewCvrdtRepository siteId pre)"
| next_repo: "repo_reachable os siteId s \<Longrightarrow> repo_step os s s' \<Longrightarrow> repo_reachable os siteId s'"

definition ctx_ok :: "string \<Rightarrow> string \<Rightarrow> (woot_cvrdt, 'f) FileContext \<Rightarrow> bool" where
  "ctx_ok siteId name ctx \<longleftrightarrow> localPath ctx = name \<and> isStateTracked ctx \<and> \<not> stopCh_closed (poller ctx) \<and>
     replica_ok (metaState ctx) \<and> site_id (cv_site (metaState ctx)) = siteId"

definition registry_ok :: "string \<Rightarrow> (woot_cvrdt, 'f) FileRegistry \<Rightarrow> bool" where
  "registry_ok siteId fr \<longleftrightarrow> (\<forall>name ctx. getFileCtx fr name = Inr ctx \<longrightarrow> ctx_ok siteId name ctx)"

lemma getFileCtx_put: "getFileCtx (put_ctx fr name ctx) x = (if x = name then Inr ctx else getFileCtx fr x)"
  by (simp add: getFileCtx_def gomap_simps)

lemma registry_ok_put: "registry_ok i fr \<Longrightarrow> ctx_ok i name ctx \<Longrightarrow> registry_ok i (put_ctx fr name ctx)"
  by (simp add: registry_ok_def getFileCtx_put)

lemma registry_okD: "registry_ok i fr \<Longrightarrow> getFileCtx fr name = Inr ctx \<Longrightarrow> ctx_ok i name ctx"
  by (simp add: registry_ok_def)

lemma replica_ok_flag [simp]: "replica_ok (w\<lparr>isStateUpToDate := b\<rparr>) = replica_ok w"
  by (simp add: replica_ok_def)

lemma createFileCtx_ok:
  assumes "createFileCtx os (woot_states i) w fr name = (w', fr', err)" "registry_ok i fr"
  shows "registry_ok i fr'" "err = None \<Longrightarrow> \<exists>ctx. getFileCtx fr' name = Inr ctx"
proof -
  have new: "ctx_ok i name (TrackState (GetNewFileContext name (NewWootCvrdtWithView i) f))" for f :: "'b option"
    by (simp add: ctx_ok_def TrackState_def GetNewFileContext_def GetFileStringPollingDumper_def
        NewWootCvrdt_ok) (simp add: NewWootCvrdtWithView_def NewSite_def)
  show "registry_ok i fr'" "err = None \<Longrightarrow> \<exists>ctx. getFileCtx fr' name = Inr ctx"
    using assms registry_ok_put [OF assms(2) new]
    by (auto simp: createFileCtx_def Let_def getFileCtx_put split: prod.splits option.splits)
qed

lemma UpdateFileCtx_ok:
  assumes "UpdateFileCtx os (woot_states i) w fr info = Ret (w', fr', res)" "registry_ok i fr"
    "\<forall>op\<in>set (ReadOnlyState info). op_ok op"
  shows "registry_ok i fr'"
proof -
  let ?path = "LocalPath info"
  obtain w1 fr1 err where c: "(if (case getFileCtx fr ?path of Inl _ \<Rightarrow> True | Inr _ \<Rightarrow> False)
      then createFileCtx os (woot_states i) w fr ?path else (w, fr, None)) = (w1, fr1, err)"
    by (metis prod_cases3)
  then have ok1: "registry_ok i fr1" using createFileCtx_ok(1) assms(2) by (auto split: if_splits)
  show ?thesis
  proof (cases err)
    case (Some e)
    with assms(1) c ok1 show ?thesis by (simp add: UpdateFileCtx_def Let_def)
  next
    case None
    show ?thesis
    proof (cases "getFileCtx fr1 ?path")
      case (Inl e)
      with assms(1) c None show ?thesis by (simp add: UpdateFileCtx_def Let_def)
    next
      case (Inr ctx)
      then have ctx: "ctx_ok i ?path ctx" using ok1 by (rule registry_okD [rotated])
      from assms(1) c None Inr obtain m e where u: "UpdateState (metaState ctx) (ReadOnlyState info) = Ret (m, e)"
        and fr': "fr' = put_ctx fr1 ?path (ctx\<lparr>metaState := m\<rparr>)"
        by (auto simp: UpdateFileCtx_def Let_def ctx_UpdateState_def go_bind_Ret_iff)
      have "ctx_ok i ?path (ctx\<lparr>metaState := m\<rparr>)"
        using UpdateState_ok [OF u _ assms(3)] ctx by (simp add: ctx_ok_def grows_def)
      then show ?thesis using registry_ok_put [OF ok1] fr' by simp
    qed
  qed
qed


lemma snapshot_ctx_ok:
  "ctx_ok i name ctx \<Longrightarrow> ctx_ok i name (ctx\<lparr>metaState := snd (Snapshot (metaState ctx))\<rparr>)"
  by (simp add: ctx_ok_def Snapshot_def)

lemma repo_UpdateFileCtx_ok:
  assumes "repo_UpdateFileCtx os w r info = Ret (w', r', res)" "registry_ok (repo_site r) (repo_registry r)"
    "\<forall>op\<in>set (ReadOnlyState info). op_ok op"
  shows "registry_ok (repo_site r') (repo_registry r')" "repo_site r' = repo_site r"
  using assms by (auto simp: repo_UpdateFileCtx_def go_bind_Ret_iff dest: UpdateFileCtx_ok)

text \<open>An edit as the state it is turned into, and how \<open>InsertCRDTOpInRepo\<close> reads the answer.\<close>

definition edit_info :: "TextualFileOperation \<Rightarrow> log_info" where
  "edit_info op = \<lparr>LocalPath = FilePath op, IsNewlyCreated = False,
     ReadOnlyState = [Local (CreateNewLocalOp (if tOpType op = ''insert'' then Insertion else Deletion)
       (tPos op) (tContent op) (SourceId op))]\<rparr>"

lemma Insert_cases:
  assumes "InsertCRDTOpInRepo os w r op = Ret (w', r', res)"
  shows "w' = w \<and> r' = r \<and> (\<exists>e. res = Inl e) \<or>
    (\<exists>upd. repo_UpdateFileCtx os w r (edit_info op) = Ret (w', r', upd) \<and>
      (case upd of Inl e \<Rightarrow> (\<exists>e'. res = Inl e')
       | Inr info \<Rightarrow> ReadOnlyState info \<noteq> [] \<and> res = Inr \<lparr>status_Id = lid_String (OpId (last (ReadOnlyState info))),
           TargetChar = Op_Char (last (ReadOnlyState info)), NewFile = IsNewlyCreated info\<rparr>))"
proof (cases "tOpType op \<noteq> ''insert'' \<and> tOpType op \<noteq> ''delete''")
  case True
  with assms show ?thesis by (auto simp: InsertCRDTOpInRepo_def)
next
  case False
  have one: "GetNewStateFromOp CompareOperation [x] = [x]" for x
    using append_at_end(1) [of "[]" CompareOperation x] by (simp add: GetNewStateFromOp_def)
  note run = assms [unfolded InsertCRDTOpInRepo_def Let_def one, folded edit_info_def]
  show ?thesis
  proof (cases "repo_UpdateFileCtx os w r (edit_info op)")
    case (Ret x)
    moreover obtain w1 r1 upd where "x = (w1, r1, upd)" by (cases x)
    ultimately show ?thesis
      using run False by (cases upd) (auto split: if_splits)
  qed (use run False in auto)
qed

lemma Insert_success:
  assumes "InsertCRDTOpInRepo os w r op = Ret (w', r', Inr status)"
  obtains info where "repo_UpdateFileCtx os w r (edit_info op) = Ret (w', r', Inr info)"
    "status = \<lparr>status_Id = lid_String (OpId (last (ReadOnlyState info))),
       TargetChar = Op_Char (last (ReadOnlyState info)), NewFile = IsNewlyCreated info\<rparr>"
proof -
  from Insert_cases [OF assms] obtain upd where upd: "repo_UpdateFileCtx os w r (edit_info op) = Ret (w', r', upd)"
    and c: "case upd of Inl e \<Rightarrow> False | Inr info \<Rightarrow> status = \<lparr>status_Id = lid_String (OpId (last (ReadOnlyState info))),
       TargetChar = Op_Char (last (ReadOnlyState info)), NewFile = IsNewlyCreated info\<rparr>"
    by (fastforce split: sum.splits)
  then show thesis by (cases upd) (auto intro: that)
qed

lemma repo_step_ok:
  assumes "repo_step os s s'" "registry_ok (repo_site (snd s)) (repo_registry (snd s))"
  shows "registry_ok (repo_site (snd s')) (repo_registry (snd s')) \<and> repo_site (snd s') = repo_site (snd s)"
  using assms
proof cases
  case (update w r info w' r' res)
  with assms(2) repo_UpdateFileCtx_ok show ?thesis by (metis snd_conv)
next
  case (insert_op w r op w' r' res)
  have "\<forall>x\<in>set (ReadOnlyState (edit_info op)). op_ok x" by (simp add: edit_info_def)
  with Insert_cases [OF insert_op(3)] show ?thesis
    using insert_op(1,2) assms(2) repo_UpdateFileCtx_ok [of os w r "edit_info op" w' r'] by auto
next
  case (content r name fr res w)
  show ?thesis
  proof (cases "getFileCtx (repo_registry r) name")
    case (Inr ctx)
    then have "fr = put_ctx (repo_registry r) name (ctx\<lparr>metaState := snd (Snapshot (metaState ctx))\<rparr>)"
      using content(3) by (simp add: GetFileContent_def split: prod.splits)
    then show ?thesis
      using content(1,2) assms(2) snapshot_ctx_ok [OF registry_okD [OF _ Inr]] by (simp add: registry_ok_put)
  qed (use content assms(2) in \<open>simp add: GetFileContent_def\<close>)
next
  case (display r path mode args r' res w)
  then show ?thesis
    using assms(2) by (auto simp: DisplayFileHistory_def UpdateHistory_def go_bind_Ret_iff split: sum.splits)
next
  case (tick r name ctx w w' ctx')
  then have "ctx' = ctx \<or> ctx' = ctx\<lparr>metaState := snd (Snapshot (metaState ctx))\<rparr>"
    by (auto simp: dumper_tick_def Let_def split: prod.splits if_splits option.splits)
  then have "ctx_ok (repo_site r) name ctx'"
    using tick(1,3) assms(2) registry_okD [of "repo_site r" "repo_registry r" name ctx] snapshot_ctx_ok by fastforce
  then show ?thesis using tick(1,2) assms(2) by (simp add: registry_ok_put)
qed

lemma repo_reachable_ok:
  "repo_reachable os siteId s \<Longrightarrow> registry_ok siteId (repo_registry (snd s)) \<and> repo_site (snd s) = siteId"
proof (induction rule: repo_reachable.induct)
  case (new_repo w pre)
  then show ?case
    by (simp add: GetNewCvrdtRepository_def CreateNewCRDTFileRegistry_def registry_ok_def getFileCtx_def)
qed (metis repo_step_ok)


lemma repo_ctx_ok:
  "repo_reachable os siteId (w, r) \<Longrightarrow> getFileCtx (repo_registry r) name = Inr ctx \<Longrightarrow> ctx_ok siteId name ctx"
  using repo_reachable_ok registry_okD by fastforce

text \<open>An edit of a file that has a context.\<close>

lemma update_known:
  assumes "repo_UpdateFileCtx os w r info = Ret (w', r', Inr res)"
    "getFileCtx (repo_registry r) (LocalPath info) = Inr ctx"
  obtains m where "UpdateState (metaState ctx) (ReadOnlyState info) = Ret (m, None)" "w' = w"
    "getFileCtx (repo_registry r') (LocalPath info) = Inr (ctx\<lparr>metaState := m\<rparr>)"
    "ReadOnlyState res = cv_state m" "\<not> IsNewlyCreated res"
proof -
  obtain m e where u: "UpdateState (metaState ctx) (ReadOnlyState info) = Ret (m, e)"
    using assms by (auto simp: repo_UpdateFileCtx_def UpdateFileCtx_def Let_def ctx_UpdateState_def go_bind_Ret_iff)
  with assms show thesis
    by (cases e) (auto simp: repo_UpdateFileCtx_def UpdateFileCtx_def Let_def ctx_UpdateState_def
        GetStateCopy_def GetState_def getFileCtx_put intro!: that [of m])
qed

section \<open>Properties\<close>

text \<open>In every state a repository can reach, the clock of a file's site covers every operation of the
  file's log, but for those that are still pending.\<close>
theorem log_covered_by_clock:
  assumes "repo_reachable os siteId (w, r)" "getFileCtx (repo_registry r) name = Inr ctx"
    "op \<in> set (GetState (metaState ctx))"
  shows "(\<forall>s. clk_val (lid_Clock (OpId op)) s \<le> clk_val (clocks (site_clock (cv_site (metaState ctx)))) s) \<or>
    (\<exists>p\<in>set (pendingOps (cv_site (metaState ctx))). woot_Id p = OpId op)"
proof -
  have "accounted (cv_site (metaState ctx)) (OpId op)"
    using repo_ctx_ok [OF assms(1,2)] assms(3) by (simp add: ctx_ok_def replica_ok_def GetState_def)
  then show ?thesis by (fastforce simp: accounted_def knows_def clk_le_def image_iff)
qed

text \<open>C28. The status of an edit names the operation the edit made, with the site's next counter and the
  text that was inserted or deleted: the new operation is the last of the log.  This needs that no
  operation of the file is pending.\<close>
theorem edit_status_names_operation:
  assumes "repo_reachable os siteId (w, r)" "getFileCtx (repo_registry r) (FilePath op) = Inr ctx"
    "pendingOps (cv_site (metaState ctx)) = []"
    "clk_val (clocks (site_clock (cv_site (metaState ctx)))) siteId < MaxValue"
    "InsertCRDTOpInRepo os w r op = Ret (w', r', Inr status)"
  shows "\<exists>new ctx'. getFileCtx (repo_registry r') (FilePath op) = Inr ctx' \<and>
    GetState (metaState ctx') = GetState (metaState ctx) @ [Woot new] \<and>
    status = \<lparr>status_Id = siteId @ ''_'' @
        dec_int (clk_val (clocks (site_clock (cv_site (metaState ctx)))) siteId + 1),
      TargetChar = data_AlphaValue (woot_Character new), NewFile = False\<rparr>"
proof -
  have ok: "replica_ok (metaState ctx)" "site_id (cv_site (metaState ctx)) = siteId"
    using repo_ctx_ok [OF assms(1,2)] by (auto simp: ctx_ok_def)
  obtain info where upd: "repo_UpdateFileCtx os w r (edit_info op) = Ret (w', r', Inr info)"
    and st: "status = \<lparr>status_Id = lid_String (OpId (last (ReadOnlyState info))),
      TargetChar = Op_Char (last (ReadOnlyState info)), NewFile = IsNewlyCreated info\<rparr>"
    by (rule Insert_success [OF assms(5)])
  have path: "LocalPath (edit_info op) = FilePath op" by (simp add: edit_info_def)
  obtain m where m: "UpdateState (metaState ctx) (ReadOnlyState (edit_info op)) = Ret (m, None)"
    "getFileCtx (repo_registry r') (FilePath op) = Inr (ctx\<lparr>metaState := m\<rparr>)"
    "ReadOnlyState info = cv_state m" "\<not> IsNewlyCreated info"
    by (rule update_known [OF upd]) (use assms(2) path in auto)
  obtain new where new: "woot_Id new = next_id (cv_site (metaState ctx))"
    "cv_state m = cv_state (metaState ctx) @ [Woot new]"
    by (rule edit_appends [OF ok(1) assms(3) _ m(1) [unfolded edit_info_def, simplified]])
      (use assms(4) ok(2) in auto)
  have "site_timed (cv_site (metaState ctx))" using ok(1) by (simp add: replica_ok_def)
  from next_id_ok(3) [OF this] have "lid_String (woot_Id new) = siteId @ ''_'' @
      dec_int (clk_val (clocks (site_clock (cv_site (metaState ctx)))) siteId + 1)"
    using assms(4) ok(2) by (simp add: lid_String_def new(1)) (simp add: next_id_def)
  with m new st show ?thesis by (intro exI [of _ new] exI [of _ "ctx\<lparr>metaState := m\<rparr>"]) (simp add: GetState_def)
qed

text \<open>A file system that always answers, for the concrete cases, and a repository with one edit.\<close>

definition calm_os :: "(string list, string) os" where
  "calm_os = \<lparr>MkdirAll = (\<lambda>w p. (w, None)), Lstat = (\<lambda>w p. if p \<in> set w then Exists else Not_exist),
     Create = (\<lambda>w p. (p # w, None)), os_OpenFile = (\<lambda>w p. (w, Inr p)), Rewrite = (\<lambda>w f t. w),
     Close_file = (\<lambda>w f. (w, None))\<rparr>"

definition type_text :: "int \<Rightarrow> string \<Rightarrow> TextualFileOperation" where
  "type_text pos txt = \<lparr>SourceId = ''a'', FilePath = ''f'', tOpType = ''insert'', tPos = pos, tContent = txt\<rparr>"

definition edited :: "string list \<times> string Repository" where
  "edited = (case InsertCRDTOpInRepo calm_os [] (GetNewCvrdtRepository ''a'' ''d/'') (type_text 0 ''x'') of
     Ret (w, r, res) \<Rightarrow> (w, r) | _ \<Rightarrow> ([], GetNewCvrdtRepository ''a'' ''d/''))"

lemma edited_reachable: "repo_reachable calm_os ''a'' (fst edited, snd edited)"
proof -
  have "\<exists>res. InsertCRDTOpInRepo calm_os [] (GetNewCvrdtRepository ''a'' ''d/'') (type_text 0 ''x'') =
      Ret (fst edited, snd edited, res)"
    by (rule exI [of _ "Inr \<lparr>status_Id = ''a_1'', TargetChar = ''x'', NewFile = True\<rparr>"]) code_simp
  then obtain res where "InsertCRDTOpInRepo calm_os [] (GetNewCvrdtRepository ''a'' ''d/'') (type_text 0 ''x'') =
      Ret (fst edited, snd edited, res)" by blast
  then show ?thesis by (rule next_repo [OF new_repo repo_step.insert_op])
qed

definition edited_ctx :: "(woot_cvrdt, string) FileContext" where
  "edited_ctx = (case getFileCtx (repo_registry (snd edited)) ''f'' of Inr ctx \<Rightarrow> ctx)"

lemma edited_ctx: "getFileCtx (repo_registry (snd edited)) ''f'' = Inr edited_ctx"
  by code_simp

theorem log_covered_by_clock_witness:
  "\<forall>s. clk_val (lid_Clock (OpId (op_of ''a'' [(''a'', 1)]))) s \<le>
     clk_val (clocks (site_clock (cv_site (metaState edited_ctx)))) s"
proof -
  have "op_of ''a'' [(''a'', 1)] \<in> set (GetState (metaState edited_ctx))" by code_simp
  moreover have "pendingOps (cv_site (metaState edited_ctx)) = []" by code_simp
  ultimately show ?thesis using log_covered_by_clock [OF edited_reachable edited_ctx] by fastforce
qed

theorem edit_status_names_operation_witness:
  "\<exists>w r. InsertCRDTOpInRepo calm_os (fst edited) (snd edited) (type_text 1 ''y'') =
     Ret (w, r, Inr \<lparr>status_Id = ''a_2'', TargetChar = ''y'', NewFile = False\<rparr>) \<and>
   (\<exists>new ctx. getFileCtx (repo_registry r) ''f'' = Inr ctx \<and>
     GetState (metaState ctx) = GetState (metaState edited_ctx) @ [Woot new])"
proof -
  have "case InsertCRDTOpInRepo calm_os (fst edited) (snd edited) (type_text 1 ''y'') of
      Ret (w, r, res) \<Rightarrow> res = Inr \<lparr>status_Id = ''a_2'', TargetChar = ''y'', NewFile = False\<rparr> | _ \<Rightarrow> False"
    by code_simp
  then obtain w r where run: "InsertCRDTOpInRepo calm_os (fst edited) (snd edited) (type_text 1 ''y'') =
      Ret (w, r, Inr \<lparr>status_Id = ''a_2'', TargetChar = ''y'', NewFile = False\<rparr>)"
    by (auto split: go.splits)
  have f: "FilePath (type_text 1 ''y'') = ''f''" by (simp add: type_text_def)
  have "pendingOps (cv_site (metaState edited_ctx)) = []"
    "clk_val (clocks (site_clock (cv_site (metaState edited_ctx)))) ''a'' < MaxValue" by code_simp+
  from edit_status_names_operation [OF edited_reachable _ this run] edited_ctx f run show ?thesis by auto
qed


text \<open>An operation of site b that follows one the repository has not received.\<close>

definition early_op :: woot_operation where
  "early_op = \<lparr>woot_Id = \<lparr>lid_SiteId = ''b'', lid_Clock = [(''b'', 2)]\<rparr>, woot_Type = Insertion,
     woot_Character = \<lparr>data_Id = WCharacterId ''b'' 2, data_AlphaValue = ''z'', data_Visible = True,
       data_PreviousId = WCharacterId ''b'' 1, data_NextId = WCharacterId ''b'' MaxValue\<rparr>\<rparr>"

definition waiting_repo :: "string list \<times> string Repository" where
  "waiting_repo = (case repo_UpdateFileCtx calm_os (fst edited) (snd edited)
       \<lparr>LocalPath = ''f'', IsNewlyCreated = False, ReadOnlyState = [Woot early_op]\<rparr> of
     Ret (w, r, res) \<Rightarrow> (w, r) | _ \<Rightarrow> edited)"

lemma waiting_repo_reachable: "repo_reachable calm_os ''a'' (fst waiting_repo, snd waiting_repo)"
proof (rule next_repo [OF edited_reachable repo_step.update])
  let ?info = "\<lparr>LocalPath = ''f'', IsNewlyCreated = False, ReadOnlyState = [Woot early_op]\<rparr>"
  have "case repo_UpdateFileCtx calm_os (fst edited) (snd edited) ?info of
      Ret (w, r, res) \<Rightarrow> True | _ \<Rightarrow> False" by code_simp
  then show "repo_UpdateFileCtx calm_os (fst edited) (snd edited) ?info =
      Ret (fst waiting_repo, snd waiting_repo, snd (snd (case repo_UpdateFileCtx calm_os (fst edited) (snd edited)
        ?info of Ret x \<Rightarrow> x | _ \<Rightarrow> ([], snd edited, Inl FILE_CTX_NOT_FOUND))))"
    by (auto simp: waiting_repo_def split: go.splits)
  show "\<forall>op\<in>set (ReadOnlyState ?info). op_ok op"
    by (simp add: early_op_def lid_ok_def clk_ok_def GetLogicalClock_def clk_val_def MaxValue_def)
qed

text \<open>While an operation is pending, the status of an edit can name somebody else's operation: the
  pending one sits behind the new one in the log, and the status reports its identifier and its
  character for an edit that in truth inserted another text.\<close>
theorem edit_status_names_pending:
  "\<exists>w r w' r' ctx'. repo_reachable calm_os ''a'' (w, r) \<and>
    InsertCRDTOpInRepo calm_os w r (type_text 1 ''y'') =
      Ret (w', r', Inr \<lparr>status_Id = ''b_2'', TargetChar = ''z'', NewFile = False\<rparr>) \<and>
    getFileCtx (repo_registry r') ''f'' = Inr ctx' \<and> shows_text (metaState ctx') = ''xy''"
proof -
  have "case InsertCRDTOpInRepo calm_os (fst waiting_repo) (snd waiting_repo) (type_text 1 ''y'') of
      Ret (w, r, res) \<Rightarrow> res = Inr \<lparr>status_Id = ''b_2'', TargetChar = ''z'', NewFile = False\<rparr> \<and>
        (case getFileCtx (repo_registry r) ''f'' of Inl _ \<Rightarrow> False
         | Inr ctx \<Rightarrow> shows_text (metaState ctx) = ''xy'')
    | _ \<Rightarrow> False"
    by code_simp
  then obtain w' r' where run: "InsertCRDTOpInRepo calm_os (fst waiting_repo) (snd waiting_repo)
      (type_text 1 ''y'') = Ret (w', r', Inr \<lparr>status_Id = ''b_2'', TargetChar = ''z'', NewFile = False\<rparr>)"
    and seen: "case getFileCtx (repo_registry r') ''f'' of Inl _ \<Rightarrow> False
      | Inr ctx \<Rightarrow> shows_text (metaState ctx) = ''xy''"
    by (auto split: go.splits)
  from seen obtain ctx' where "getFileCtx (repo_registry r') ''f'' = Inr ctx'" "shows_text (metaState ctx') = ''xy''"
    by (auto split: sum.splits)
  with run waiting_repo_reachable show ?thesis by blast
qed

text \<open>Reading a file's content, which the registry answers from the replica, also marks the replica
  as seen.  The dumper that was about to write the new text to disk then writes nothing, and goes on
  writing nothing until the replica changes again.\<close>
theorem read_stops_dump:
  assumes "getFileCtx (repo_registry r) name = Inr ctx"
    "GetFileContent (repo_states r) (repo_registry r) name = (fr, res)"
    "\<not> isStateUpToDate (metaState ctx)" "\<not> stopCh_closed (poller ctx)" "writer (poller ctx) = Some f"
  shows "res = Inr (shows_text (metaState ctx)) \<and>
    fst (dumper_tick os (repo_states r) w ctx) = Rewrite os w f (shows_text (metaState ctx)) \<and>
    (\<exists>ctx'. getFileCtx fr name = Inr ctx' \<and> shows_text (metaState ctx') = shows_text (metaState ctx) \<and>
      dumper_tick os (repo_states r) w ctx' = (w, ctx'))"
proof -
  have "fst (dumper_tick os (repo_states r) w ctx) = Rewrite os w f (shows_text (metaState ctx))"
    using replicas.tick_writes [of "repo_site r" ctx f os w] assms(3-5)
    by (simp add: Snapshot_def shows_text_def)
  moreover obtain fr' where "GetFileContent (repo_states r) (repo_registry r) name =
      (fr', Inr (shows_text (metaState ctx)))"
    "getFileCtx fr' name = Inr (ctx\<lparr>metaState := snd (Snapshot (metaState ctx))\<rparr>)"
    by (rule replicas.content_known [OF assms(1), of "repo_site r"]) (simp add: shows_text_def)
  moreover from this have "dumper_tick os (repo_states r) w (ctx\<lparr>metaState := snd (Snapshot (metaState ctx))\<rparr>) =
      (w, ctx\<lparr>metaState := snd (Snapshot (metaState ctx))\<rparr>)"
    by (simp add: dumper_tick_def Snapshot_def Let_def)
  ultimately show ?thesis using assms(2) by (simp add: shows_text_def Snapshot_def)
qed

theorem read_stops_dump_witness:
  "\<exists>fr ctx'. GetFileContent (repo_states (snd edited)) (repo_registry (snd edited)) ''f'' = (fr, Inr ''x'') \<and>
     getFileCtx fr ''f'' = Inr ctx' \<and>
     dumper_tick calm_os (repo_states (snd edited)) [''d/f''] ctx' = ([''d/f''], ctx')"
proof -
  obtain fr res where run: "GetFileContent (repo_states (snd edited)) (repo_registry (snd edited)) ''f'' = (fr, res)"
    by (cases "GetFileContent (repo_states (snd edited)) (repo_registry (snd edited)) ''f''")
  have "\<not> isStateUpToDate (metaState edited_ctx)" "\<not> stopCh_closed (poller edited_ctx)"
    "writer (poller edited_ctx) = Some ''d/f''" "shows_text (metaState edited_ctx) = ''x''" by code_simp+
  with read_stops_dump [OF edited_ctx run, of "''d/f''" calm_os "[''d/f'']"] run show ?thesis by auto
qed

end
