(* ===== verification/Peers.thy ===== *)
theory Peers
  imports Cluster Repository
begin

text \<open>
  The peer that holds the replicated files, \<open>cluster/cvrdtpeer.go\<close>, and the client that joins it to a
  cluster, \<open>cluster/client.go\<close>.  The outcome of dialling a peer is a parameter (\<open>dial\<close>), and so are the
  identifier of a new session and what the rest of the program does while an answer is awaited.
\<close>

section \<open>The peer\<close>

datatype peer_handler = On_push | On_connection | On_peer_exit

record ('p, 'b, 'f) CvrdtNetPeer = "(log_info list app_value, 'p, 'b, peer_handler) AppNodeModule" +
  repo :: "'f Repository"

type_synonym dial_outcome = "go_error + (go_error + PeerHostInfo)"

definition PEER_SESSION_MESSAGE_QUEUE_MAX_SIZE :: int where
  "PEER_SESSION_MESSAGE_QUEUE_MAX_SIZE = 20"

definition CreateNewTCPWootBasedClient :: "('r, 'b) json_lib \<Rightarrow> (log_info list app_value \<Rightarrow> go_error + 'r) \<Rightarrow>
    PeerHostInfo \<Rightarrow> string \<Rightarrow> ('r JsonPayload, 'b, 'f) CvrdtNetPeer" where
  "CreateNewTCPWootBasedClient lib marshal peerInfo domainPath =
     AppNodeModule.extend
       (CreateFromArgs lib marshal peerInfo [(''sessionQueueSize'', Number PEER_SESSION_MESSAGE_QUEUE_MAX_SIZE)])
       \<lparr>repo = GetNewCvrdtRepository (Id peerInfo) domainPath\<rparr>"

definition peer_handlers :: "('p, 'b, 'f) CvrdtNetPeer \<Rightarrow> ('p, 'b, 'f) CvrdtNetPeer" where
  "peer_handlers c = c\<lparr>Broker_of := RegisterHandler (RegisterHandler (RegisterHandler (Broker_of c)
     PUSH On_push) PEER_CONNECTION_TOPIC On_connection) PEER_EXIT_TOPIC On_peer_exit\<rparr>"

definition peer_Init :: "('p, 'b, 'f) CvrdtNetPeer \<Rightarrow> go_error option \<Rightarrow> go_error option \<Rightarrow>
    ('p, 'b, 'f) CvrdtNetPeer" where
  "peer_Init c resolved listened =
     (let c' = peer_handlers c
      in c'\<lparr>Transport_of := fst (ListenFor (Transport_of c') (node_Id c') resolved listened)\<rparr>)"

definition peer_Shutdown :: "('w, 'f) os \<Rightarrow> 'w \<Rightarrow> ('p, 'b, 'f) CvrdtNetPeer \<Rightarrow>
    ('w \<times> ('p, 'b, 'f) CvrdtNetPeer \<times> go_error list) go" where
  "peer_Shutdown os w c =
     go_bind (Stop (Broker_of c)) (\<lambda>mb.
       let (t, err) = tcp_Shutdown (Transport_of c)
       in go_bind (ShutDownRepo os w (repo c)) (\<lambda>(w', r, errs).
         Ret (w', c\<lparr>Broker_of := mb, Transport_of := t, repo := r\<rparr>,
           (case err of None \<Rightarrow> [] | Some e \<Rightarrow> [e]) @ errs)))"

definition Pair :: "('p, 'b, 'f) CvrdtNetPeer \<Rightarrow> PeerHostInfo \<Rightarrow> dial_outcome \<Rightarrow>
    ('p, 'b, 'f) CvrdtNetPeer \<times> go_error option" where
  "Pair c target outcome =
     (let (t, err) = tcp_Add (Transport_of c) target outcome; c' = c\<lparr>Transport_of := t\<rparr>
      in if err \<noteq> None \<and> err \<noteq> Some ErrPeerAlreadyExists then (c', err) else (c', None))"

definition DisconnectFrom :: "('p, 'b, 'f) CvrdtNetPeer \<Rightarrow> PeerHostInfo \<Rightarrow>
    ('p, 'b, 'f) CvrdtNetPeer \<times> go_error option" where
  "DisconnectFrom c target =
     (let (t, err) = tcp_Remove (Transport_of c) target; c' = c\<lparr>Transport_of := t\<rparr>
      in if err \<noteq> None \<and> err \<noteq> Some ErrPeerDoesNotExists then (c', err) else (c', None))"

text \<open>\<open>alignWithPeersData\<close>: the loop over the new list, which collects the set of its members, and the
  loop over the peers of before.\<close>

fun pair_loop :: "(PeerHostInfo \<Rightarrow> dial_outcome) \<Rightarrow> PeerHostInfo list \<Rightarrow> ('p, 'b, 'f) CvrdtNetPeer \<Rightarrow>
    PeerHostInfo list \<Rightarrow> PeerHostInfo list \<Rightarrow> ('p, 'b, 'f) CvrdtNetPeer \<times> PeerHostInfo list \<times> go_error option" where
  "pair_loop dial current c newSet [] = (c, newSet, None)"
| "pair_loop dial current c newSet (v # vs) =
     (if node_Id c = v then pair_loop dial current c newSet vs
      else if v \<notin> set current then
        (case Pair c v (dial v) of
           (c', Some err) \<Rightarrow> (c', v # newSet, Some err)
         | (c', None) \<Rightarrow> pair_loop dial current c' (v # newSet) vs)
      else pair_loop dial current c (v # newSet) vs)"

fun drop_loop :: "PeerHostInfo list \<Rightarrow> ('p, 'b, 'f) CvrdtNetPeer \<Rightarrow> PeerHostInfo list \<Rightarrow>
    ('p, 'b, 'f) CvrdtNetPeer \<times> go_error option" where
  "drop_loop newSet c [] = (c, None)"
| "drop_loop newSet c (v # vs) =
     (if v \<notin> set newSet then
        (case DisconnectFrom c v of
           (c', Some err) \<Rightarrow> (c', Some err)
         | (c', None) \<Rightarrow> drop_loop newSet c' vs)
      else drop_loop newSet c vs)"

definition alignWithPeersData :: "(PeerHostInfo \<Rightarrow> dial_outcome) \<Rightarrow> ('p, 'b, 'f) CvrdtNetPeer \<Rightarrow>
    PeerHostInfo list \<Rightarrow> ('p, 'b, 'f) CvrdtNetPeer \<times> go_error option" where
  "alignWithPeersData dial c newPeerList =
     (let current = map fst (peers (Transport_of c))
      in case pair_loop dial current c [] newPeerList of
          (c', newSet, Some err) \<Rightarrow> (c', Some err)
        | (c', newSet, None) \<Rightarrow> drop_loop newSet c' current)"

text \<open>A stopped broker gives no session, and calling a method of a nil session panics.\<close>

definition BroadcastRegistryOverTransport :: "(nat \<Rightarrow> go_error option) \<Rightarrow> string \<Rightarrow> ('p, 'b, 'f) CvrdtNetPeer \<Rightarrow>
    (('p, 'b, 'f) CvrdtNetPeer \<times> go_error option) go" where
  "BroadcastRegistryOverTransport written uuid c =
     (case Enveloper c (own_metadata (node_Id c) '''') (Some (V_files (GetRepoFiles (repo c)))) of
        Inl err \<Rightarrow> Ret (c, Some err)
      | Inr env \<Rightarrow> (case CreateNewSession (Broker_of c) PUSH uuid of
            None \<Rightarrow> Panic
          | Some (i, mb) \<Rightarrow> go_bind (module_Broadcast written (c\<lparr>Broker_of := mb\<rparr>) i env) (\<lambda>(c', err).
              go_bind (session_Close (Broker_of c') i) (\<lambda>mb'. Ret (c'\<lparr>Broker_of := mb'\<rparr>, err)))))"

definition MergeCvrdtOp :: "('w, 'f) os \<Rightarrow> 'w \<Rightarrow> ('p, 'b, 'f) CvrdtNetPeer \<Rightarrow> string \<Rightarrow> string \<Rightarrow> string \<Rightarrow> int \<Rightarrow>
    ('w \<times> ('p, 'b, 'f) CvrdtNetPeer \<times> bool \<times> go_error option) go" where
  "MergeCvrdtOp os w c filepath opTypeStr content pos =
     go_bind (InsertCRDTOpInRepo os w (repo c) \<lparr>SourceId = Id (node_Id c), FilePath = filepath,
         tOpType = opTypeStr, tPos = pos, tContent = content\<rparr>)
       (\<lambda>(w', r, res). Ret (w', c\<lparr>repo := r\<rparr>, (case res of
          Inl err \<Rightarrow> (False, Some err) | Inr status \<Rightarrow> (NewFile status, None))))"

definition VisualizeHistory :: "('p, 'b, 'f) CvrdtNetPeer \<Rightarrow> string \<Rightarrow> bool \<Rightarrow> int \<Rightarrow>
    (('p, 'b, 'f) CvrdtNetPeer \<times> (go_error + string)) go" where
  "VisualizeHistory c filepath asDag maxDepth =
     go_bind (if asDag then DisplayFileHistory (repo c) filepath ''dag'' [(''depth'', AnyInt maxDepth)]
         else DisplayFileHistory (repo c) filepath ''linear'' [])
       (\<lambda>(r, res). Ret (c\<lparr>repo := r\<rparr>, res))"

definition VisualizeContent :: "('p, 'b, 'f) CvrdtNetPeer \<Rightarrow> string \<Rightarrow>
    ('p, 'b, 'f) CvrdtNetPeer \<times> (go_error + string)" where
  "VisualizeContent c filepath =
     (let (fr, res) = GetFileContent (repo_states (repo c)) (repo_registry (repo c)) filepath
      in (c\<lparr>repo := (repo c)\<lparr>repo_registry := fr\<rparr>\<rparr>, res))"

section \<open>The handlers of the peer\<close>

text \<open>The loop of the push handler: the first file that fails ends it.\<close>

fun merge_contexts :: "('w, 'f) os \<Rightarrow> 'w \<Rightarrow> 'f Repository \<Rightarrow> log_info list \<Rightarrow> ('w \<times> 'f Repository \<times> bool) go" where
  "merge_contexts os w r [] = Ret (w, r, True)"
| "merge_contexts os w r (ctx # rest) =
     go_bind (repo_UpdateFileCtx os w r ctx) (\<lambda>(w', r', res). case res of
       Inl err \<Rightarrow> Ret (w', r', False)
     | Inr info \<Rightarrow> merge_contexts os w' r' rest)"

definition handle_push :: "('w, 'f) os \<Rightarrow> ('p \<Rightarrow> go_error + woot_operation list FileContextInfo list) \<Rightarrow> 'w \<Rightarrow>
    ('p, 'b, 'f) CvrdtNetPeer \<Rightarrow> 'p PeerMessage \<Rightarrow> ('w \<times> ('p, 'b, 'f) CvrdtNetPeer \<times> bool) go" where
  "handle_push os dec w c msg = (case DecodeToRepoFiles (payload_Decode dec) (Data msg) of
       Inl err \<Rightarrow> Ret (w, c, False)
     | Inr contexts \<Rightarrow> go_bind (merge_contexts os w (repo c) contexts) (\<lambda>(w', r, ok).
         Ret (w', c\<lparr>repo := r\<rparr>, ok)))"

definition handle_connection :: "(nat \<Rightarrow> go_error option) \<Rightarrow> string \<Rightarrow> ('p, 'b, 'f) CvrdtNetPeer \<Rightarrow>
    'p PeerMessage \<Rightarrow> ('p, 'b, 'f) CvrdtNetPeer go" where
  "handle_connection written uuid c msg =
     (if IsError (Key msg) \<noteq> '''' then Ret c
      else go_bind (BroadcastRegistryOverTransport written uuid c) (\<lambda>(c', err). Ret c'))"


section \<open>The client\<close>

datatype client_handler = On_server_exit | On_server_connection

record ('p, 'b, 'f) ClusterClient = "(log_info list app_value, 'p, 'b, client_handler) AppNodeModule" +
  clusterInfo :: PeerHostInfo
  clientActiveFlag :: bool
  peerClient :: "('p, 'b, 'f) CvrdtNetPeer option"

definition CVRDT_PEER_NOT_INITIALIZED :: go_error where
  "CVRDT_PEER_NOT_INITIALIZED = Errorf ''Cvrdt peer should be initialized''"

definition CreateNewClusterClient :: "('r, 'b) json_lib \<Rightarrow> (log_info list app_value \<Rightarrow> go_error + 'r) \<Rightarrow>
    PeerHostInfo \<Rightarrow> PeerHostInfo \<Rightarrow> ('r JsonPayload, 'b, 'f) ClusterClient" where
  "CreateNewClusterClient lib marshal info ident =
     AppNodeModule.extend (Create_module lib marshal ident)
       \<lparr>clusterInfo = info, clientActiveFlag = False, peerClient = None\<rparr>"

definition client_handlers :: "('p, 'b, 'f) ClusterClient \<Rightarrow> ('p, 'b, 'f) ClusterClient" where
  "client_handlers cc = cc\<lparr>Broker_of := RegisterHandler (RegisterHandler (Broker_of cc)
     PEER_EXIT_TOPIC On_server_exit) PEER_CONNECTION_TOPIC On_server_connection\<rparr>"

definition client_Init :: "('p, 'b, 'f) ClusterClient \<Rightarrow> go_error option \<Rightarrow> go_error option \<Rightarrow>
    ('p, 'b, 'f) ClusterClient" where
  "client_Init cc resolved listened =
     (let cc' = client_handlers cc
      in cc'\<lparr>Transport_of := fst (ListenFor (Transport_of cc') (node_Id cc') resolved listened)\<rparr>)"

text \<open>What a client is given from outside: the write outcomes of its connections, the decoder of a list
  of peers, the identifier of the next session, and what happens to it while it waits for an answer,
  with the error of the context if that ends first.\<close>

record ('p, 'b, 'f) world =
  writes :: "nat \<Rightarrow> go_error option"
  dec_peers :: "'p \<Rightarrow> go_error + PeerHostInfo list"
  uuid_of :: string
  meanwhile :: "('p, 'b, 'f) ClusterClient \<Rightarrow> ('p, 'b, 'f) ClusterClient \<times> go_error option"

text \<open>\<open>None\<close> is a wait without end, which a context with a timeout excludes.\<close>

definition pingClusterServer :: "('p, 'b, 'f) world \<Rightarrow> ('p, 'b, 'f) ClusterClient \<Rightarrow> string \<Rightarrow> PeerHostInfo \<Rightarrow>
    log_info list app_value option \<Rightarrow> (('p, 'b, 'f) ClusterClient \<times> (go_error + PeerHostInfo list)) go" where
  "pingClusterServer u cc topic sender payload =
     (case Enveloper cc (own_metadata sender '''') payload of
        Inl err \<Rightarrow> Ret (cc, Inl err)
      | Inr env \<Rightarrow> (case CreateNewSession (Broker_of cc) topic (uuid_of u) of
          None \<Rightarrow> Panic
        | Some (i, mb) \<Rightarrow>
            go_bind (go_bind (module_Broadcast (writes u) (cc\<lparr>Broker_of := mb\<rparr>) i env) (\<lambda>(cc1, err). case err of
                Some e \<Rightarrow> Ret (cc1, Inl e)
              | None \<Rightarrow> (let (cc2, ctxErr) = meanwhile u cc1
                  in case WaitOn (Broker_of cc2) i ctxErr of
                      None \<Rightarrow> Hang
                    | Some (mb2, Inl e) \<Rightarrow> Ret (cc2\<lparr>Broker_of := mb2\<rparr>,
                        Inl (Errorf (''Server did not respond: '' @ error_msg e)))
                    | Some (mb2, Inr response) \<Rightarrow> Ret (cc2\<lparr>Broker_of := mb2\<rparr>,
                        if IsError (Key response) \<noteq> '''' then Inl (Errorf (IsError (Key response)))
                        else payload_Decode (dec_peers u) (Data response)))))
              (\<lambda>(cc3, res). go_bind (session_Close (Broker_of cc3) i) (\<lambda>mb3.
                Ret (cc3\<lparr>Broker_of := mb3\<rparr>, res)))))"

text \<open>\<open>ConnectToCluster\<close>.  The goroutine that initialises the new peer is taken to run before the
  alignment; its listener answers \<open>listened\<close>.\<close>

definition ConnectToCluster :: "('r, 'b) json_lib \<Rightarrow> (log_info list app_value \<Rightarrow> go_error + 'r) \<Rightarrow>
    ('r JsonPayload, 'b, 'f) world \<Rightarrow> (PeerHostInfo \<Rightarrow> dial_outcome) \<Rightarrow> go_error option \<Rightarrow>
    ('r JsonPayload, 'b, 'f) ClusterClient \<Rightarrow> string \<Rightarrow>
    (('r JsonPayload, 'b, 'f) ClusterClient \<times> go_error option) go" where
  "ConnectToCluster lib marshal u dial listened cc newPeerAddress =
     (if clientActiveFlag cc
      then Ret (cc, Some (Errorf (''Connection to cluster '' @ Format (clusterInfo cc) @ '' is already done'')))
      else case tcp_Add (Transport_of cc) (clusterInfo cc) (dial (clusterInfo cc)) of
          (t, Some err) \<Rightarrow> Ret (cc\<lparr>Transport_of := t\<rparr>, Some err)
        | (t, None) \<Rightarrow>
            go_bind (pingClusterServer u (cc\<lparr>Transport_of := t\<rparr>) PING_JOIN (node_Id cc) (Some (V_text newPeerAddress)))
              (\<lambda>(cc1, res). case res of
                Inl err \<Rightarrow> Ret (cc1, Some err)
              | Inr [] \<Rightarrow> Ret (cc1, Some (Errorf (''Cluster server '' @ Format (clusterInfo cc1) @
                  '' should return at least an assigned peer id'')))
              | Inr (assignedInfo # otherPeersInfo) \<Rightarrow>
                  (let peer = peer_Init (CreateNewTCPWootBasedClient lib marshal assignedInfo
                         (Name (user_data (clusterInfo cc1)))) None listened;
                       (peer', err) = alignWithPeersData dial peer otherPeersInfo
                   in Ret (cc1\<lparr>peerClient := Some peer', clientActiveFlag := True\<rparr>, err))))"

definition DiffuseData :: "('p, 'b, 'f) world \<Rightarrow> (PeerHostInfo \<Rightarrow> dial_outcome) \<Rightarrow>
    (nat \<Rightarrow> go_error option) \<Rightarrow> ('p, 'b, 'f) ClusterClient \<Rightarrow>
    (('p, 'b, 'f) ClusterClient \<times> go_error option) go" where
  "DiffuseData u dial peer_writes cc =
     (if \<not> clientActiveFlag cc
      then Ret (cc, Some (Errorf (''Connection to cluster '' @ Format (clusterInfo cc) @ '' is not executed yet'')))
      else go_bind (pingClusterServer u cc PING_RETRIEVE (node_Id cc) None) (\<lambda>(cc1, res). case res of
          Inl err \<Rightarrow> Ret (cc1, Some (Errorf (''error while trying to retrieve cluster server '' @
            Format (clusterInfo cc1) @ '' data: '' @ error_msg err)))
        | Inr responsePeers \<Rightarrow> (case peerClient cc1 of
            None \<Rightarrow> Panic
          | Some peer \<Rightarrow> (case alignWithPeersData dial peer responsePeers of
              (pc1, Some err) \<Rightarrow> Ret (cc1\<lparr>peerClient := Some pc1\<rparr>, Some err)
            | (pc1, None) \<Rightarrow> go_bind (BroadcastRegistryOverTransport peer_writes (uuid_of u) pc1)
                (\<lambda>(pc2, err). Ret (cc1\<lparr>peerClient := Some pc2\<rparr>, err))))))"

definition CreateNewLocalOperation :: "('w, 'f) os \<Rightarrow> 'w \<Rightarrow> ('p, 'b, 'f) ClusterClient \<Rightarrow> string \<Rightarrow> string \<Rightarrow>
    string \<Rightarrow> int \<Rightarrow> ('w \<times> ('p, 'b, 'f) ClusterClient \<times> bool \<times> go_error option) go" where
  "CreateNewLocalOperation os w cc filepath opStr content pos =
     (if \<not> clientActiveFlag cc then Ret (w, cc, False, Some CVRDT_PEER_NOT_INITIALIZED)
      else case peerClient cc of
          None \<Rightarrow> Panic
        | Some peer \<Rightarrow> go_bind (MergeCvrdtOp os w peer filepath opStr content pos)
            (\<lambda>(w', peer', created, err). Ret (w', cc\<lparr>peerClient := Some peer'\<rparr>, created, err)))"

datatype OpVisualizationMode = DagVisual | LinearVisual | ContentVisual

definition DisplayData :: "('p, 'b, 'f) ClusterClient \<Rightarrow> OpVisualizationMode \<Rightarrow> string \<Rightarrow> int \<Rightarrow>
    (('p, 'b, 'f) ClusterClient \<times> (go_error + string)) go" where
  "DisplayData cc mode filepath maxDepth =
     (if \<not> clientActiveFlag cc then Ret (cc, Inl CVRDT_PEER_NOT_INITIALIZED)
      else case peerClient cc of
          None \<Rightarrow> Panic
        | Some peer \<Rightarrow>
            go_bind (case mode of
                ContentVisual \<Rightarrow> Ret (VisualizeContent peer filepath)
              | LinearVisual \<Rightarrow> VisualizeHistory peer filepath False 0
              | DagVisual \<Rightarrow>
                  (if maxDepth \<le> 0 then Ret (peer, Inl (Errorf
                     ''maxdepth should be greater than 0 to visualize at least a concurrency layer''))
                   else VisualizeHistory peer filepath True maxDepth))
              (\<lambda>(peer', res). Ret (cc\<lparr>peerClient := Some peer'\<rparr>, res)))"

definition client_ShutDown :: "('w, 'f) os \<Rightarrow> 'w \<Rightarrow> ('p, 'b, 'f) ClusterClient \<Rightarrow>
    ('w \<times> ('p, 'b, 'f) ClusterClient) go" where
  "client_ShutDown os w cc =
     go_bind (Stop (Broker_of cc)) (\<lambda>mb.
       let (t, err) = tcp_Shutdown (Transport_of cc); cc1 = cc\<lparr>Broker_of := mb, Transport_of := t\<rparr>
       in if clientActiveFlag cc1 then (case peerClient cc1 of
              None \<Rightarrow> Panic
            | Some peer \<Rightarrow> go_bind (peer_Shutdown os w peer) (\<lambda>(w', peer', errs).
                Ret (w', cc1\<lparr>peerClient := Some peer'\<rparr>)))
          else Ret (w, cc1))"

section \<open>Alignment\<close>

text \<open>A layer that accepts new peers registers them.\<close>

lemma GetTargets_simps:
  "GetTargets (removePeer t k) = GetTargets t - {k}" "GetTargets (addPeer t k c) = insert k (GetTargets t)"
  by (auto simp: GetTargets_def removePeer_def addPeer_def keys_update AList.delete_eq map_of_eq_None_iff
      split: option.split)

lemma start_targets:
  "\<not> isShutDown t \<Longrightarrow> peers (handler_start t c) = peers t \<and> \<not> isShutDown (handler_start t c)"
  by (simp add: handler_start_def handler_head_def Let_def)

lemma start_frame [simp]: "LocalID (handler_start t c) = LocalID t"
  by (simp add: handler_start_def handler_head_def handler_exit_def removePeer_def Let_def split: option.split)

lemma tcp_Add_targets:
  assumes "tcp_Add t target outcome = (t', err)" "\<not> isShutDown t" "outcome \<noteq> Inl ErrPeerAlreadyExists"
    "err = None \<or> err = Some ErrPeerAlreadyExists"
  shows "\<not> isShutDown t' \<and> GetTargets t' = insert target (GetTargets t) \<and> LocalID t' = LocalID t"
proof (cases "isPeerPresent t target")
  case True
  then have "target \<in> GetTargets t" by (auto simp: isPeerPresent_def GetTargets_def map_of_eq_None_iff)
  with True assms show ?thesis by (auto simp: tcp_Add_def ErrPeerAlreadyExists_def split: if_splits)
next
  case False
  with assms obtain info where "outcome = Inr (Inr info)" "target \<noteq> LocalID t"
    by (auto simp: tcp_Add_def connectTo_def ErrPeerAlreadyExists_def split: if_splits sum.splits)
  with False assms(1,2) have "t' = handler_start (addPeer (snd (new_conn t info)) target (length (conns t))) (length (conns t))"
    by (simp add: tcp_Add_def connectTo_def new_conn_def)
  moreover have "GetTargets (addPeer (snd (new_conn t info)) target c) = insert target (GetTargets t)" for c
    by (simp add: GetTargets_simps) (simp add: GetTargets_def new_conn_def)
  ultimately show ?thesis
    using start_targets [of "addPeer (snd (new_conn t info)) target (length (conns t))" "length (conns t)"] assms(2)
    by (simp add: GetTargets_def addPeer_def new_conn_def)
qed

lemma Pair_targets:
  assumes "Pair c target outcome = (c', None)" "\<not> isShutDown (Transport_of c)" "outcome \<noteq> Inl ErrPeerAlreadyExists"
  shows "\<not> isShutDown (Transport_of c') \<and> node_Id c' = node_Id c \<and>
    GetTargets (Transport_of c') = insert target (GetTargets (Transport_of c))"
proof -
  obtain t err where add: "tcp_Add (Transport_of c) target outcome = (t, err)"
    by (cases "tcp_Add (Transport_of c) target outcome")
  with assms(1) have c': "c' = c\<lparr>Transport_of := t\<rparr>" "err = None \<or> err = Some ErrPeerAlreadyExists"
    by (auto simp: Pair_def Let_def split: if_splits)
  with tcp_Add_targets [OF add assms(2,3) c'(2)] show ?thesis by simp
qed

lemma pair_loop_targets:
  assumes "pair_loop dial current c newSet vs = (c', newSet', None)" "\<not> isShutDown (Transport_of c)"
    "\<forall>v. dial v \<noteq> Inl ErrPeerAlreadyExists" "set current \<subseteq> GetTargets (Transport_of c)"
  shows "node_Id c' = node_Id c \<and> set newSet' = set newSet \<union> (set vs - {node_Id c}) \<and>
    GetTargets (Transport_of c') = GetTargets (Transport_of c) \<union> (set vs - {node_Id c})"
  using assms
proof (induction vs arbitrary: c newSet)
  case (Cons v vs)
  show ?case
  proof (cases "node_Id c = v \<or> v \<in> set current")
    case True
    with Cons.prems Cons.IH [of c newSet] Cons.IH [of c "v # newSet"] show ?thesis by (auto split: if_splits)
  next
    case False
    with Cons.prems(1) obtain c1 where p: "Pair c v (dial v) = (c1, None)"
      "pair_loop dial current c1 (v # newSet) vs = (c', newSet', None)"
      by (auto split: prod.splits option.splits)
    then show ?thesis
      using Cons.IH [OF p(2)] Pair_targets [OF p(1) Cons.prems(2)] Cons.prems(3,4) False by auto
  qed
qed simp

lemma drop_loop_targets:
  "drop_loop newSet c vs = (c', None) \<Longrightarrow>
   GetTargets (Transport_of c') = GetTargets (Transport_of c) - (set vs - set newSet)"
proof (induction vs arbitrary: c)
  case (Cons v vs)
  show ?case
  proof (cases "v \<in> set newSet")
    case False
    with Cons.prems obtain c1 where d: "DisconnectFrom c v = (c1, None)" "drop_loop newSet c1 vs = (c', None)"
      by (auto split: prod.splits option.splits)
    have "GetTargets (Transport_of c1) = GetTargets (Transport_of c) - {v}"
      using d(1) by (auto simp: DisconnectFrom_def tcp_Remove_def Let_def GetTargets_simps isPeerPresent_def
          split: if_splits) (auto simp: GetTargets_def map_of_eq_None_iff image_iff)
    with Cons.IH [OF d(2)] False show ?thesis by auto
  qed (use Cons in auto)
qed simp

section \<open>Properties\<close>

text \<open>C14. When the alignment with the server's list succeeds, the peer is connected to exactly the members
  of the list other than itself: the missing ones have been paired, the others disconnected.\<close>
theorem alignment_reaches_membership:
  assumes "alignWithPeersData dial c newPeers = (c', None)" "\<not> isShutDown (Transport_of c)"
    "\<forall>v. dial v \<noteq> Inl ErrPeerAlreadyExists"
  shows "GetTargets (Transport_of c') = set newPeers - {node_Id c}"
proof -
  let ?current = "map fst (peers (Transport_of c))"
  obtain c1 ns where p: "pair_loop dial ?current c [] newPeers = (c1, ns, None)" and d: "drop_loop ns c1 ?current = (c', None)"
    using assms(1) by (auto simp: alignWithPeersData_def Let_def split: prod.splits option.splits)
  have cur: "set ?current = GetTargets (Transport_of c)" by (simp add: GetTargets_def)
  have "set ns = set newPeers - {node_Id c}"
    "GetTargets (Transport_of c1) = GetTargets (Transport_of c) \<union> (set newPeers - {node_Id c})"
    using pair_loop_targets [OF p assms(2,3)] cur by auto
  with drop_loop_targets [OF d] cur show ?thesis by auto
qed

definition lone_peer :: "(unit, unit PeerMessage, string) CvrdtNetPeer" where
  "lone_peer = AppNodeModule.extend (NetworkModule.extend
     \<lparr>Transport_of = two_peers, Broker_of = NewPeerMessageBroker 20,
       Enveloper = (\<lambda>meta payload. Inr (GetEmptyEnvelope meta)), Config_of = NetworkDefaultConfig []\<rparr>
     \<lparr>node_Id = peer0\<rparr>) \<lparr>repo = GetNewCvrdtRepository ''0'' ''d/''\<rparr>"

theorem alignment_reaches_membership_witness:
  "GetTargets (Transport_of (fst (alignWithPeersData (\<lambda>v. Inr (Inr v)) lone_peer
    [peer0, CreateNewHostInfo ''3'' ''cyd'' ''h:3'', peer2]))) = {CreateNewHostInfo ''3'' ''cyd'' ''h:3'', peer2}"
proof -
  let ?new = "[peer0, CreateNewHostInfo ''3'' ''cyd'' ''h:3'', peer2]"
  have "snd (alignWithPeersData (\<lambda>v. Inr (Inr v)) lone_peer ?new) = None" by code_simp
  then obtain c' where c': "alignWithPeersData (\<lambda>v. Inr (Inr v)) lone_peer ?new = (c', None)"
    by (metis prod.collapse)
  have "\<not> isShutDown (Transport_of lone_peer)" "node_Id lone_peer = peer0" by code_simp+
  then show ?thesis
    using alignment_reaches_membership [OF c'] c' by (auto simp: CreateNewHostInfo_def peer0_def peer2_def)
qed


section \<open>Connecting a second time\<close>

text \<open>Sending leaves the map of peers alone.\<close>

definition same_peers :: "('p, 'b) TCPLayer \<Rightarrow> ('p, 'b) TCPLayer \<Rightarrow> bool" where
  "same_peers t t' \<longleftrightarrow> peers t' = peers t \<and> LocalID t' = LocalID t"

lemma tcp_Send_same: "tcp_Send written t data target = Ret (t', err) \<Longrightarrow> same_peers t t'"
  by (auto simp: tcp_Send_def same_peers_def conn_Send_def split: option.splits sum.splits if_splits)

lemma broadcast_loop_same: "broadcast_loop written t data i addrs = Ret (t', fail) \<Longrightarrow> same_peers t t'"
proof (induction addrs arbitrary: t i)
  case (Cons addr addrs)
  then obtain t1 err where s: "tcp_Send written t data addr = Ret (t1, err)"
    by (auto simp: go_bind_Ret_iff)
  have "same_peers t t1" using s by (rule tcp_Send_same)
  with Cons s show ?case by (cases err) (auto simp: same_peers_def)
qed (simp add: same_peers_def)

lemma tcp_Broadcast_same: "tcp_Broadcast written t data = Ret (t', err) \<Longrightarrow> same_peers t t'"
  by (auto simp: tcp_Broadcast_def Let_def go_bind_Ret_iff same_peers_def split: if_splits)
    (auto dest: broadcast_loop_same simp: same_peers_def)

lemma module_Broadcast_same:
  "module_Broadcast written (m :: ('p, 'b, 'f) ClusterClient) i data = Ret (m', err) \<Longrightarrow>
   same_peers (Transport_of m) (Transport_of m') \<and> clientActiveFlag m' = clientActiveFlag m \<and> clusterInfo m' = clusterInfo m"
  by (auto simp: module_Broadcast_def go_bind_Ret_iff same_peers_def split: sum.splits prod.splits)
    (auto dest: tcp_Broadcast_same simp: same_peers_def)

text \<open>A ping that meets no answer before its context ends.\<close>

lemma ping_timeout:
  assumes "pingClusterServer u cc topic sender payload = Ret (cc', res)" "meanwhile u = (\<lambda>c. (c, Some e))"
  shows "(\<exists>err. res = Inl err) \<and> same_peers (Transport_of cc) (Transport_of cc') \<and>
    clientActiveFlag cc' = clientActiveFlag cc \<and> clusterInfo cc' = clusterInfo cc"
proof (cases "Enveloper cc (own_metadata sender '''') payload")
  case (Inl err)
  with assms(1) show ?thesis by (auto simp: pingClusterServer_def same_peers_def)
next
  case (Inr env)
  with assms(1) obtain i mb where s: "CreateNewSession (Broker_of cc) topic (uuid_of u) = Some (i, mb)"
    by (auto simp: pingClusterServer_def split: option.splits)
  with Inr assms(1) obtain cc1 err where b: "module_Broadcast (writes u) (cc\<lparr>Broker_of := mb\<rparr>) i env = Ret (cc1, err)"
    by (auto simp: pingClusterServer_def go_bind_Ret_iff)
  have keep: "same_peers (Transport_of cc) (Transport_of cc1) \<and> clientActiveFlag cc1 = clientActiveFlag cc \<and>
      clusterInfo cc1 = clusterInfo cc"
    using module_Broadcast_same [OF b] by simp
  have "\<exists>mb2 e2. WaitOn (Broker_of cc1) i (Some e) = Some (mb2, Inl e2)"
    by (simp add: WaitOn_def Let_def)
  then obtain mb2 e2 where w: "WaitOn (Broker_of cc1) i (Some e) = Some (mb2, Inl e2)" by blast
  have "\<exists>mb3 e3. cc' = cc1\<lparr>Broker_of := mb3\<rparr> \<and> res = Inl e3"
    using assms Inr s b w
    by (cases err) (auto simp: pingClusterServer_def go_bind_Ret_iff intro: exI [of _ "cc1\<lparr>Broker_of := mb\<rparr>" for mb])
  with keep show ?thesis by auto
qed

text \<open>C38. A client whose request to join is not answered in time cannot try again: its connection to the
  server stays registered, and every later attempt ends at once because that peer already exists.\<close>
theorem connect_not_repeatable:
  assumes "ConnectToCluster lib marshal u dial listened cc address = Ret (cc', res)" "\<not> clientActiveFlag cc"
    "tcp_Add (Transport_of cc) (clusterInfo cc) (dial (clusterInfo cc)) = (t, None)"
    "\<not> isShutDown (Transport_of cc)" "meanwhile u = (\<lambda>c. (c, Some e))"
  shows "res \<noteq> None \<and>
    ConnectToCluster lib marshal u' dial' listened' cc' address' = Ret (cc', Some ErrPeerAlreadyExists)"
proof -
  obtain r where ping: "pingClusterServer u (cc\<lparr>Transport_of := t\<rparr>) PING_JOIN (node_Id cc) (Some (V_text address)) =
      Ret (cc', r)" and r: "\<And>err. r = Inl err \<Longrightarrow> res = Some err"
  proof -
    from assms(1-3) obtain cc1 r where p: "pingClusterServer u (cc\<lparr>Transport_of := t\<rparr>) PING_JOIN (node_Id cc)
        (Some (V_text address)) = Ret (cc1, r)"
      by (auto simp: ConnectToCluster_def go_bind_Ret_iff)
    moreover from ping_timeout [OF p assms(5)] obtain err where "r = Inl err" by blast
    ultimately show thesis using that [of r] assms(1-3) by (simp add: ConnectToCluster_def)
  qed
  have out: "dial (clusterInfo cc) \<noteq> Inl ErrPeerAlreadyExists \<and> clusterInfo cc \<noteq> LocalID (Transport_of cc)"
    using assms(3) by (auto simp: tcp_Add_def connectTo_def split: if_splits)
  then have "clusterInfo cc \<in> GetTargets t" "LocalID t = LocalID (Transport_of cc)"
    using tcp_Add_targets [OF assms(3,4)] by auto
  then have "isPeerPresent t (clusterInfo cc)" by (auto simp: isPeerPresent_def GetTargets_def map_of_eq_None_iff)
  moreover obtain err where "r = Inl err" "same_peers t (Transport_of cc')" "\<not> clientActiveFlag cc'" "clusterInfo cc' = clusterInfo cc"
    using ping_timeout [OF ping assms(5)] assms(2) by auto
  ultimately have "tcp_Add (Transport_of cc') (clusterInfo cc') outcome = (Transport_of cc', Some ErrPeerAlreadyExists)" for outcome
    using out \<open>LocalID t = _\<close> by (simp add: tcp_Add_def same_peers_def isPeerPresent_def)
  with \<open>\<not> clientActiveFlag cc'\<close> \<open>r = Inl err\<close> r show ?thesis by (simp add: ConnectToCluster_def)
qed


text \<open>A client at \<open>h:1\<close> of the cluster served at \<open>h:0\<close>, whose server never answers.\<close>

type_synonym small_client =
  "(log_info list app_value JsonPayload, PeerMetadata \<times> log_info list app_value, string) ClusterClient"

definition small_client :: small_client where
  "small_client = client_Init (CreateNewClusterClient value_json Inr peer0 peer1) None None"

definition silence :: "(log_info list app_value JsonPayload, PeerMetadata \<times> log_info list app_value, string) world" where
  "silence = \<lparr>writes = (\<lambda>c. None), dec_peers = (\<lambda>p. Inl (Errorf ''not a list'')), uuid_of = ''u1'',
     meanwhile = (\<lambda>c. (c, Some (Errorf ''context deadline exceeded'')))\<rparr>"

theorem connect_not_repeatable_witness:
  "\<exists>cc'. ConnectToCluster value_json Inr silence (\<lambda>v. Inr (Inr v)) None small_client ''h:9'' =
      Ret (cc', Some (Errorf ''Server did not respond: context deadline exceeded'')) \<and>
    ConnectToCluster value_json Inr silence (\<lambda>v. Inr (Inr v)) None cc' ''h:9'' =
      Ret (cc', Some ErrPeerAlreadyExists)"
proof -
  have "case ConnectToCluster value_json Inr silence (\<lambda>v. Inr (Inr v)) None small_client ''h:9'' of
      Ret (cc', res) \<Rightarrow> res = Some (Errorf ''Server did not respond: context deadline exceeded'') | _ \<Rightarrow> False"
    by code_simp
  then obtain cc' where run: "ConnectToCluster value_json Inr silence (\<lambda>v. Inr (Inr v)) None small_client ''h:9'' =
      Ret (cc', Some (Errorf ''Server did not respond: context deadline exceeded''))"
    by (auto split: go.splits)
  have "snd (tcp_Add (Transport_of small_client) (clusterInfo small_client) (Inr (Inr (clusterInfo small_client)))) = None"
    "\<not> clientActiveFlag small_client" "\<not> isShutDown (Transport_of small_client)" by code_simp+
  moreover have "meanwhile silence = (\<lambda>c. (c, Some (Errorf ''context deadline exceeded'')))" by (simp add: silence_def)
  ultimately show ?thesis
    using connect_not_repeatable [OF run, of _ _ silence "\<lambda>v. Inr (Inr v)" None "''h:9''"] run by (metis prod.collapse)
qed

end
