(* ===== verification/Disks.thy ===== *)
theory Disks
  imports Repository
begin

text \<open>
  What the registry of files relies on in package \<open>os\<close>, for one directory: it can be made, names that do
  not exist in it can be created, regular files can be opened.  The names for which this holds and the
  disks on which it holds are parameters, so that names with a slash, names that are too long, links,
  missing permissions and full disks are outside.  A tree of directories and files satisfies the laws.
\<close>

section \<open>The laws\<close>

record 'w disk_view =
  directory :: string
  file_names :: "string set"
  good_disk :: "'w \<Rightarrow> bool"
  dir_entries :: "'w \<Rightarrow> string set option"

text \<open>\<open>dir_entries\<close> is \<open>None\<close> while the directory does not exist.\<close>

definition on_disk :: "'w disk_view \<Rightarrow> 'w \<Rightarrow> string set" where
  "on_disk d w = (case dir_entries d w of None \<Rightarrow> {} | Some names \<Rightarrow> names)"

text \<open>\<open>MkdirAll\<close> makes the directory unless it exists, \<open>Lstat\<close> finds what exists in it, \<open>Create\<close> makes a file
  in a directory that exists, \<open>OpenFile\<close> opens a file that exists, and writing to an open file creates
  and removes nothing.\<close>

definition disk_laws :: "('w, 'f) os \<Rightarrow> 'w disk_view \<Rightarrow> bool" where
  "disk_laws os d \<longleftrightarrow> (\<forall>w. good_disk d w \<longrightarrow>
     (\<exists>w'. MkdirAll os w (directory d) = (w', None) \<and> good_disk d w' \<and> dir_entries d w' = Some (on_disk d w)) \<and>
     (\<forall>name\<in>file_names d.
        Lstat os w (directory d @ name) = (if name \<in> on_disk d w then Exists else Not_exist) \<and>
        (dir_entries d w \<noteq> None \<and> name \<notin> on_disk d w \<longrightarrow>
           (\<exists>w'. Create os w (directory d @ name) = (w', None) \<and> good_disk d w' \<and>
              dir_entries d w' = Some (insert name (on_disk d w)))) \<and>
        (name \<in> on_disk d w \<longrightarrow>
           (\<exists>w' f. os_OpenFile os w (directory d @ name) = (w', Inr f) \<and> good_disk d w' \<and>
              dir_entries d w' = dir_entries d w))) \<and>
     (\<forall>f txt. good_disk d (Rewrite os w f txt) \<and> dir_entries d (Rewrite os w f txt) = dir_entries d w))"

lemma disk_lawsD:
  assumes "disk_laws os d" "good_disk d w"
  shows "\<exists>w'. MkdirAll os w (directory d) = (w', None) \<and> good_disk d w' \<and> dir_entries d w' = Some (on_disk d w)"
    and "name \<in> file_names d \<Longrightarrow>
      Lstat os w (directory d @ name) = (if name \<in> on_disk d w then Exists else Not_exist)"
    and "name \<in> file_names d \<Longrightarrow> dir_entries d w \<noteq> None \<Longrightarrow> name \<notin> on_disk d w \<Longrightarrow>
      \<exists>w'. Create os w (directory d @ name) = (w', None) \<and> good_disk d w' \<and>
        dir_entries d w' = Some (insert name (on_disk d w))"
    and "name \<in> file_names d \<Longrightarrow> name \<in> on_disk d w \<Longrightarrow>
      \<exists>w' f. os_OpenFile os w (directory d @ name) = (w', Inr f) \<and> good_disk d w' \<and> dir_entries d w' = dir_entries d w"
    and "good_disk d (Rewrite os w f txt)" "dir_entries d (Rewrite os w f txt) = dir_entries d w"
  using assms unfolding disk_laws_def by blast+

lemma on_disk_Some: "dir_entries d w = Some names \<Longrightarrow> on_disk d w = names"
  by (simp add: on_disk_def)

text \<open>A context for a new name of the directory can be created.\<close>

lemma createFileCtx_works:
  assumes laws: "disk_laws os d" and good: "good_disk d w" and dir: "localDomainPrefix fr = directory d"
    and name: "name \<in> file_names d" "name \<notin> on_disk d w"
  obtains w' ctx where "createFileCtx os ob w fr name = (w', put_ctx fr name ctx, None)" "good_disk d w'"
    "on_disk d w' = insert name (on_disk d w)"
proof -
  let ?p = "directory d @ name"
  obtain w1 where w1: "MkdirAll os w (directory d) = (w1, None)" "good_disk d w1" "dir_entries d w1 = Some (on_disk d w)"
    using disk_lawsD(1) [OF laws good] by blast
  note on1 = on_disk_Some [OF w1(3)]
  obtain w2 where w2: "Create os w1 ?p = (w2, None)" "good_disk d w2" "dir_entries d w2 = Some (insert name (on_disk d w))"
    using disk_lawsD(3) [OF laws w1(2) name(1)] w1(3) name(2) on1 by auto
  note on2 = on_disk_Some [OF w2(3)]
  obtain w3 f where w3: "os_OpenFile os w2 ?p = (w3, Inr f)" "good_disk d w3" "dir_entries d w3 = dir_entries d w2"
    using disk_lawsD(4) [OF laws w2(2) name(1)] on2 by auto
  have "Lstat os w1 ?p = Not_exist" "Lstat os w2 ?p = Exists"
    using disk_lawsD(2) [OF laws w1(2) name(1)] disk_lawsD(2) [OF laws w2(2) name(1)] name(2) on1 on2 by simp_all
  moreover have "on_disk d w3 = insert name (on_disk d w)" using w3(3) w2(3) by (simp add: on_disk_def)
  ultimately show ?thesis
    using w1(1) w2(1) w3(1,2) dir
    by (intro that [of w3 "TrackState (GetNewFileContext name (newEmptyCtxSupplier ob) (Some f))"])
      (simp_all add: createFileCtx_def Let_def CreateFile_def IsFileExists_def OpenFile_def)
qed

section \<open>A tree of directories and files\<close>

text \<open>Directories and files by their paths, without a slash at the end.  An open file is its path.\<close>

record tree =
  tree_dirs :: "string list"
  tree_files :: "(string \<times> string) list"

text \<open>The directories of a path, and the one a path lies in.\<close>

definition dirs_of :: "string \<Rightarrow> string list" where
  "dirs_of p = filter (\<lambda>q. q \<noteq> [] \<and> last q \<noteq> CHR ''/'')
     (map (\<lambda>i. take i p) (filter (\<lambda>i. i = length p \<or> p ! i = CHR ''/'') [0..<length p + 1]))"

definition dir_of :: "string \<Rightarrow> string" where
  "dir_of p = rev (tl (dropWhile (\<lambda>c. c \<noteq> CHR ''/'') (rev p)))"

definition tree_has :: "tree \<Rightarrow> string \<Rightarrow> bool" where
  "tree_has w p \<longleftrightarrow> p \<in> set (tree_dirs w) \<or> p \<in> set (map fst (tree_files w))"

definition tree_os :: "(tree, string) os" where
  "tree_os = \<lparr>
     MkdirAll = (\<lambda>w p. if list_ex (\<lambda>q. q \<in> set (map fst (tree_files w))) (dirs_of p)
       then (w, Some (Errorf ''not a directory''))
       else (w\<lparr>tree_dirs := tree_dirs w @ filter (\<lambda>q. q \<notin> set (tree_dirs w)) (dirs_of p)\<rparr>, None)),
     Lstat = (\<lambda>w p. if tree_has w p then Exists else Not_exist),
     Create = (\<lambda>w p. if p \<in> set (tree_dirs w) then (w, Some (Errorf ''is a directory''))
       else if dir_of p \<notin> set (tree_dirs w) then (w, Some (Errorf ''no such file or directory''))
       else (w\<lparr>tree_files := AList.update p '''' (tree_files w)\<rparr>, None)),
     os_OpenFile = (\<lambda>w p. if p \<in> set (map fst (tree_files w)) then (w, Inr p)
       else (w, Inl (Errorf ''no such file or directory''))),
     Rewrite = (\<lambda>w f txt. if f \<in> set (map fst (tree_files w))
       then w\<lparr>tree_files := AList.update f txt (tree_files w)\<rparr> else w),
     Close_file = (\<lambda>w f. (w, None))\<rparr>"

text \<open>The directory \<open>d/\<close> of a tree in which \<open>d\<close> is no file and no name of a file is a directory.\<close>

definition plain_names :: "string set" where
  "plain_names = {n. n \<noteq> [] \<and> CHR ''/'' \<notin> set n \<and> n \<noteq> ''.'' \<and> n \<noteq> ''..''}"

definition tree_view :: "tree disk_view" where
  "tree_view = \<lparr>directory = ''d/'', file_names = plain_names,
     good_disk = (\<lambda>w. ''d'' \<notin> set (map fst (tree_files w)) \<and>
       (\<forall>n\<in>plain_names. ''d/'' @ n \<notin> set (tree_dirs w)) \<and>
       (''d'' \<notin> set (tree_dirs w) \<longrightarrow> (\<forall>n\<in>plain_names. ''d/'' @ n \<notin> set (map fst (tree_files w))))),
     dir_entries = (\<lambda>w. if ''d'' \<in> set (tree_dirs w)
       then Some {n \<in> plain_names. ''d/'' @ n \<in> set (map fst (tree_files w))} else None)\<rparr>"

lemma tree_view_simps:
  "directory tree_view = ''d/''" "file_names tree_view = plain_names"
  "good_disk tree_view w \<longleftrightarrow> ''d'' \<notin> set (map fst (tree_files w)) \<and>
     (\<forall>n\<in>plain_names. ''d/'' @ n \<notin> set (tree_dirs w)) \<and>
     (''d'' \<notin> set (tree_dirs w) \<longrightarrow> (\<forall>n\<in>plain_names. ''d/'' @ n \<notin> set (map fst (tree_files w))))"
  "dir_entries tree_view w = (if ''d'' \<in> set (tree_dirs w)
     then Some {n \<in> plain_names. ''d/'' @ n \<in> set (map fst (tree_files w))} else None)"
  by (simp_all add: tree_view_def)

lemma tree_on_disk:
  assumes "good_disk tree_view w"
  shows "on_disk tree_view w = {n \<in> plain_names. ''d/'' @ n \<in> set (map fst (tree_files w))}"
  using assms by (auto simp: on_disk_def tree_view_simps)

lemma dir_of_plain: "n \<in> plain_names \<Longrightarrow> dir_of (''d/'' @ n) = ''d''"
proof -
  assume "n \<in> plain_names"
  then have "\<forall>c\<in>set (rev n). c \<noteq> CHR ''/''" by (auto simp: plain_names_def)
  then have "dropWhile (\<lambda>c. c \<noteq> CHR ''/'') (rev n @ ''/d'') = ''/d''" by (subst dropWhile_append2) auto
  then show ?thesis by (simp add: dir_of_def)
qed

lemma keys_after_update: "set (map fst (AList.update p v xs)) = insert p (set (map fst xs))"
  using dom_update [of p v xs] by (simp add: dom_map_of_conv_image_fst)

lemma tree_laws: "disk_laws tree_os tree_view"
  unfolding disk_laws_def
proof (intro allI impI conjI ballI)
  fix w assume good: "good_disk tree_view w"
  note on = tree_on_disk [OF good]
  have dirs: "dirs_of ''d/'' = [''d'']" by code_simp
  let ?w = "w\<lparr>tree_dirs := tree_dirs w @ filter (\<lambda>q. q \<notin> set (tree_dirs w)) [''d'']\<rparr>"
  have "MkdirAll tree_os w ''d/'' = (?w, None)" using good by (simp add: tree_os_def dirs tree_view_simps)
  moreover have "good_disk tree_view ?w" using good by (auto simp: tree_view_simps)
  moreover have "dir_entries tree_view ?w = Some (on_disk tree_view w)" unfolding on by (auto simp: tree_view_simps)
  ultimately show "\<exists>w'. MkdirAll tree_os w (directory tree_view) = (w', None) \<and> good_disk tree_view w' \<and>
      dir_entries tree_view w' = Some (on_disk tree_view w)" by (auto simp: tree_view_simps(1))
  show "good_disk tree_view (Rewrite tree_os w f t)" "dir_entries tree_view (Rewrite tree_os w f t) = dir_entries tree_view w"
    for f t
    using good by (auto simp: tree_os_def tree_view_simps keys_after_update insert_absorb simp del: set_map)
  fix name assume name: "name \<in> file_names tree_view"
  then have plain: "name \<in> plain_names" by (simp add: tree_view_simps)
  show "Lstat tree_os w (directory tree_view @ name) = (if name \<in> on_disk tree_view w then Exists else Not_exist)"
    unfolding on using good plain by (simp add: tree_os_def tree_has_def tree_view_simps)
  show "\<exists>w' f. os_OpenFile tree_os w (directory tree_view @ name) = (w', Inr f) \<and> good_disk tree_view w' \<and>
      dir_entries tree_view w' = dir_entries tree_view w" if "name \<in> on_disk tree_view w"
    using that good unfolding on by (simp add: tree_os_def tree_view_simps)
  assume new: "dir_entries tree_view w \<noteq> None \<and> name \<notin> on_disk tree_view w"
  then have d: "''d'' \<in> set (tree_dirs w)" by (auto simp: tree_view_simps split: if_splits)
  let ?v = "w\<lparr>tree_files := AList.update (''d/'' @ name) '''' (tree_files w)\<rparr>"
  have "Create tree_os w (directory tree_view @ name) = (?v, None)"
    using good d plain dir_of_plain [OF plain] by (simp add: tree_os_def tree_view_simps)
  moreover have "good_disk tree_view ?v"
    using good d plain by (auto simp: tree_view_simps keys_after_update simp del: set_map)
  moreover have "dir_entries tree_view ?v = Some (insert name (on_disk tree_view w))"
    unfolding on using d plain by (auto simp: tree_view_simps keys_after_update simp del: set_map)
  ultimately show "\<exists>w'. Create tree_os w (directory tree_view @ name) = (w', None) \<and> good_disk tree_view w' \<and>
      dir_entries tree_view w' = Some (insert name (on_disk tree_view w))" by blast
qed

text \<open>An empty disk.\<close>

definition empty_tree :: tree where
  "empty_tree = \<lparr>tree_dirs = [], tree_files = []\<rparr>"

lemma empty_tree_good: "good_disk tree_view empty_tree" "on_disk tree_view empty_tree = {}"
  by (simp_all add: tree_view_simps on_disk_def empty_tree_def)

end
