(* ===== verification/Sharing.thy ===== *)
theory Sharing
  imports Replication Peers Disks
begin

text \<open>
  The files of two peers, \<open>file/repository/repo.go\<close> with the push handler of \<open>cluster/cvrdtpeer.go\<close>: both
  edit and read their files, their dumpers tick, they push all their files and merge pushes that arrive
  late, repeatedly, out of order or never.  For each file this is a run of the two replicas of
  \<open>Replication\<close>; a file that a peer has no context for counts as its empty replica.
\<close>

section \<open>Two repositories\<close>

record ('w, 'f) sharing =
  disk :: "string \<Rightarrow> 'w"
  repo_at :: "string \<Rightarrow> 'f Repository"
  sent_files :: "log_info list set"

definition sharing_init :: "(string \<Rightarrow> 'w) \<Rightarrow> string \<Rightarrow> ('w, 'f) sharing" where
  "sharing_init w pre = \<lparr>disk = w, repo_at = (\<lambda>x. GetNewCvrdtRepository x pre), sent_files = {}\<rparr>"

definition put_repo :: "('w, 'f) sharing \<Rightarrow> string \<Rightarrow> 'w \<Rightarrow> 'f Repository \<Rightarrow> ('w, 'f) sharing" where
  "put_repo s x w r = s\<lparr>disk := (disk s)(x := w), repo_at := (repo_at s)(x := r)\<rparr>"

text \<open>The replica of a file, and a registry seen as the replicas of its files.\<close>

definition replica_in :: "(woot_cvrdt, 'f) FileRegistry \<Rightarrow> string \<Rightarrow> string \<Rightarrow> woot_cvrdt" where
  "replica_in fr x name = (case getFileCtx fr name of Inr ctx \<Rightarrow> metaState ctx | Inl _ \<Rightarrow> NewWootCvrdtWithView x)"

abbreviation replica_of :: "'f Repository \<Rightarrow> string \<Rightarrow> woot_cvrdt" where
  "replica_of r name \<equiv> replica_in (repo_registry r) (repo_site r) name"

text \<open>An edit of a file as the local operation its replica is given.\<close>

definition local_edit :: "TextualFileOperation \<Rightarrow> local_operation" where
  "local_edit op = CreateNewLocalOp (if tOpType op = ''insert'' then Insertion else Deletion) (tPos op) (tContent op) (SourceId op)"

text \<open>The edits that are made are a parameter, a predicate of the file, its site and the edit; the code accepts
  all.  The properties are about names the disk accepts and edits within the text.\<close>

definition within_files :: "'w disk_view \<Rightarrow> string \<Rightarrow> site \<Rightarrow> local_operation \<Rightarrow> bool" where
  "within_files d name s l \<longleftrightarrow> name \<in> file_names d \<and> within_text s l"

inductive share_step :: "('w, 'f) os \<Rightarrow> (string \<Rightarrow> site \<Rightarrow> local_operation \<Rightarrow> bool) \<Rightarrow> string \<Rightarrow> string \<Rightarrow>
    ('w, 'f) sharing \<Rightarrow> ('w, 'f) sharing \<Rightarrow> bool" for os edits a b where
  share_edit: "x = a \<or> x = b \<Longrightarrow> edits (FilePath op) (cv_site (replica_of (repo_at s x) (FilePath op))) (local_edit op) \<Longrightarrow>
     InsertCRDTOpInRepo os (disk s x) (repo_at s x) op = Ret (w, r, res) \<Longrightarrow> share_step os edits a b s (put_repo s x w r)"
| share_read: "x = a \<or> x = b \<Longrightarrow>
     GetFileContent (repo_states (repo_at s x)) (repo_registry (repo_at s x)) name = (fr, res) \<Longrightarrow>
     share_step os edits a b s (put_repo s x (disk s x) ((repo_at s x)\<lparr>repo_registry := fr\<rparr>))"
| share_tick: "x = a \<or> x = b \<Longrightarrow> getFileCtx (repo_registry (repo_at s x)) name = Inr ctx \<Longrightarrow>
     dumper_tick os (repo_states (repo_at s x)) (disk s x) ctx = (w, ctx') \<Longrightarrow>
     share_step os edits a b s (put_repo s x w
       ((repo_at s x)\<lparr>repo_registry := put_ctx (repo_registry (repo_at s x)) name ctx'\<rparr>))"
| share_push: "x = a \<or> x = b \<Longrightarrow>
     share_step os edits a b s (s\<lparr>sent_files := insert (GetRepoFiles (repo_at s x)) (sent_files s)\<rparr>)"
| share_merge: "x = a \<or> x = b \<Longrightarrow> files \<in> sent_files s \<Longrightarrow>
     merge_contexts os (disk s x) (repo_at s x) files = Ret (w, r, ok) \<Longrightarrow> share_step os edits a b s (put_repo s x w r)"

inductive share_reachable :: "('w, 'f) os \<Rightarrow> (string \<Rightarrow> site \<Rightarrow> local_operation \<Rightarrow> bool) \<Rightarrow> string \<Rightarrow> string \<Rightarrow>
    ('w, 'f) sharing \<Rightarrow> ('w, 'f) sharing \<Rightarrow> bool" for os edits a b s where
  share_new: "share_reachable os edits a b s s"
| share_next: "share_reachable os edits a b s s' \<Longrightarrow> share_step os edits a b s' s'' \<Longrightarrow> share_reachable os edits a b s s''"

text \<open>The two replicas of one file, with what was pushed of it.\<close>

definition file_pushes :: "log_info list set \<Rightarrow> string \<Rightarrow> crdt_operation list set" where
  "file_pushes sent name = {ReadOnlyState info |info files. files \<in> sent \<and> info \<in> set files \<and> LocalPath info = name}"

definition file_view :: "('w, 'f) sharing \<Rightarrow> string \<Rightarrow> replicas" where
  "file_view s name = \<lparr>replica = (\<lambda>x. replica_of (repo_at s x) name), pushed = file_pushes (sent_files s) name\<rparr>"

section \<open>The operations of a repository on its replicas\<close>

lemma replica_in_put: "replica_in (put_ctx fr name ctx) x g = (if g = name then metaState ctx else replica_in fr x g)"
  by (simp add: replica_in_def getFileCtx_put)

lemma createFileCtx_view:
  assumes "createFileCtx os (woot_states x) w fr name = (w', fr', err)" "getFileCtx fr name = Inl e"
  shows "replica_in fr' x g = replica_in fr x g" "err = None \<Longrightarrow> \<exists>ctx. getFileCtx fr' name = Inr ctx"
proof -
  have "replica_in (put_ctx fr name (TrackState (GetNewFileContext name (NewWootCvrdtWithView x) f))) x g = replica_in fr x g"
    for f
    using assms(2) by (simp add: replica_in_def getFileCtx_put TrackState_def GetNewFileContext_def)
  with assms(1) show "replica_in fr' x g = replica_in fr x g" "err = None \<Longrightarrow> \<exists>ctx. getFileCtx fr' name = Inr ctx"
    by (auto simp: createFileCtx_def Let_def getFileCtx_put split: prod.splits option.splits)
qed

text \<open>It returns if \<open>UpdateState\<close> of the replica does.\<close>

lemma update_returns:
  assumes "UpdateState (replica_of r (LocalPath info)) (ReadOnlyState info) = Ret (m, e)"
  shows "\<exists>x. repo_UpdateFileCtx os w r info = Ret x"
proof -
  let ?path = "LocalPath info" and ?fr = "repo_registry r" and ?x = "repo_site r"
  obtain w1 fr1 err where c: "(if (case getFileCtx ?fr ?path of Inl _ \<Rightarrow> True | Inr _ \<Rightarrow> False)
      then createFileCtx os (woot_states ?x) w ?fr ?path else (w, ?fr, None)) = (w1, fr1, err)"
    by (metis prod_cases3)
  have same: "replica_in fr1 ?x = replica_in ?fr ?x" and ex: "err = None \<Longrightarrow> \<exists>ctx. getFileCtx fr1 ?path = Inr ctx"
    using c createFileCtx_view [of os ?x w ?fr ?path w1 fr1 err] by (auto split: sum.splits)
  show ?thesis
  proof (cases err)
    case (Some e)
    with c show ?thesis by (simp add: repo_UpdateFileCtx_def UpdateFileCtx_def Let_def)
  next
    case None
    obtain ctx where ctx: "getFileCtx fr1 ?path = Inr ctx" using ex [OF None] by blast
    have "metaState ctx = replica_of r ?path" using fun_cong [OF same, of ?path] ctx by (simp add: replica_in_def)
    with assms c None ctx show ?thesis by (simp add: repo_UpdateFileCtx_def UpdateFileCtx_def Let_def ctx_UpdateState_def)
  qed
qed

section \<open>Files on the disk\<close>

text \<open>The files a repository has a context for; on the disk there is no other of its directory.\<close>

definition files_in :: "'f Repository \<Rightarrow> string set" where
  "files_in r = {name. \<exists>ctx. getFileCtx (repo_registry r) name = Inr ctx}"

definition disk_fine :: "'w disk_view \<Rightarrow> 'w \<Rightarrow> 'f Repository \<Rightarrow> bool" where
  "disk_fine d w r \<longleftrightarrow> good_disk d w \<and> localDomainPrefix (repo_registry r) = directory d \<and>
     files_in r \<subseteq> file_names d \<and> on_disk d w \<inter> file_names d \<subseteq> files_in r"

lemma files_in_put [simp]: "files_in (r\<lparr>repo_registry := put_ctx fr name ctx\<rparr>) = insert name (files_in (r\<lparr>repo_registry := fr\<rparr>))"
  by (auto simp: files_in_def getFileCtx_put)

text \<open>A state handed to a file is refused only by its replica.\<close>

lemma update_disk:
  assumes "disk_laws os d" "disk_fine d w r" "repo_UpdateFileCtx os w r info = Ret (w', r', res)"
    "LocalPath info \<in> file_names d"
  shows "disk_fine d w' r'" "files_in r' = insert (LocalPath info) (files_in r)"
    and "\<exists>m err. UpdateState (replica_of r (LocalPath info)) (ReadOnlyState info) = Ret (m, err) \<and>
      (\<forall>g. replica_of r' g = (if g = LocalPath info then m else replica_of r g)) \<and> (err = None \<longleftrightarrow> (\<exists>i. res = Inr i))"
proof -
  let ?path = "LocalPath info" and ?fr = "repo_registry r"
  have "disk_fine d w' r' \<and> files_in r' = insert ?path (files_in r) \<and>
    (\<exists>m err. UpdateState (replica_of r ?path) (ReadOnlyState info) = Ret (m, err) \<and>
      (\<forall>g. replica_of r' g = (if g = ?path then m else replica_of r g)) \<and> (err = None \<longleftrightarrow> (\<exists>i. res = Inr i)))"
  proof (cases "getFileCtx ?fr ?path")
    case (Inr ctx)
    then have old: "?path \<in> files_in r" by (simp add: files_in_def)
    from assms(3) Inr obtain m e where m: "UpdateState (metaState ctx) (ReadOnlyState info) = Ret (m, e)"
      "w' = w" "r' = r\<lparr>repo_registry := put_ctx ?fr ?path (ctx\<lparr>metaState := m\<rparr>)\<rparr>" "e = None \<longleftrightarrow> (\<exists>i. res = Inr i)"
      by (auto simp: repo_UpdateFileCtx_def UpdateFileCtx_def Let_def ctx_UpdateState_def go_bind_Ret_iff split: option.splits)
    have "metaState ctx = replica_of r ?path" using Inr by (simp add: replica_in_def)
    with m assms(2,4) old show ?thesis by (auto simp: disk_fine_def replica_in_put fun_eq_iff)
  next
    case (Inl e)
    then have new: "?path \<notin> files_in r" by (simp add: files_in_def)
    have fine: "good_disk d w" "localDomainPrefix ?fr = directory d" "?path \<notin> on_disk d w"
      using assms(2,4) new by (auto simp: disk_fine_def)
    obtain w1 ctx where c: "createFileCtx os (repo_states r) w ?fr ?path = (w1, put_ctx ?fr ?path ctx, None)"
      "good_disk d w1" "on_disk d w1 = insert ?path (on_disk d w)"
      by (rule createFileCtx_works [OF assms(1) fine(1,2) assms(4) fine(3)])
    from assms(3) Inl c(1) obtain m e where m: "UpdateState (metaState ctx) (ReadOnlyState info) = Ret (m, e)"
      "w' = w1" "r' = r\<lparr>repo_registry := put_ctx (put_ctx ?fr ?path ctx) ?path (ctx\<lparr>metaState := m\<rparr>)\<rparr>"
      "e = None \<longleftrightarrow> (\<exists>i. res = Inr i)"
      by (auto simp: repo_UpdateFileCtx_def UpdateFileCtx_def Let_def ctx_UpdateState_def go_bind_Ret_iff
          getFileCtx_put split: option.splits)
    have same: "replica_in (put_ctx ?fr ?path ctx) (repo_site r) name = replica_of r name" for name
      by (rule createFileCtx_view(1) [OF c(1) Inl])
    from this [of ?path] have "metaState ctx = replica_of r ?path" by (simp add: replica_in_put)
    then show ?thesis
      using m assms(2,4) c(2,3) same by (auto simp: disk_fine_def replica_in_put fun_eq_iff)
  qed
  then show "disk_fine d w' r'" "files_in r' = insert ?path (files_in r)"
    "\<exists>m err. UpdateState (replica_of r ?path) (ReadOnlyState info) = Ret (m, err) \<and>
      (\<forall>g. replica_of r' g = (if g = ?path then m else replica_of r g)) \<and> (err = None \<longleftrightarrow> (\<exists>i. res = Inr i))" by blast+
qed

section \<open>Every file is a run of two replicas\<close>

text \<open>A repository in order: contexts know their names, no name has two.\<close>

definition repo_fine :: "string \<Rightarrow> 'f Repository \<Rightarrow> bool" where
  "repo_fine x r \<longleftrightarrow> repo_site r = x \<and> distinct (map fst (fileContexts (repo_registry r))) \<and>
     (\<forall>name ctx. getFileCtx (repo_registry r) name = Inr ctx \<longrightarrow> localPath ctx = name)"

lemma repo_fineD:
  assumes "repo_fine x r"
  shows "repo_site r = x" "distinct (map fst (fileContexts (repo_registry r)))"
    "getFileCtx (repo_registry r) name = Inr ctx \<Longrightarrow> localPath ctx = name"
  using assms by (auto simp: repo_fine_def)

lemma repo_fine_put:
  "repo_fine x r \<Longrightarrow> localPath ctx = name \<Longrightarrow>
   repo_fine x (r\<lparr>repo_registry := put_ctx (repo_registry r) name ctx\<rparr>)"
  by (auto simp: repo_fine_def getFileCtx_put distinct_update)

lemma repo_fine_new: "repo_fine x (GetNewCvrdtRepository x pre)"
  by (simp add: repo_fine_def GetNewCvrdtRepository_def CreateNewCRDTFileRegistry_def getFileCtx_def)

lemma createFileCtx_fine:
  assumes "createFileCtx os ob w (repo_registry r) name = (w', fr', err)" "repo_fine x r"
  shows "repo_fine x (r\<lparr>repo_registry := fr'\<rparr>)"
proof -
  have "repo_fine x (r\<lparr>repo_registry := put_ctx (repo_registry r) name (TrackState (GetNewFileContext name m f))\<rparr>)" for m f
    by (rule repo_fine_put [OF assms(2)]) (simp add: TrackState_def GetNewFileContext_def)
  then show ?thesis
    using assms by (auto simp: createFileCtx_def Let_def split: prod.splits option.splits)
qed

lemma update_fine:
  assumes "repo_UpdateFileCtx os w r info = Ret (w', r', res)" "repo_fine x r"
  shows "repo_fine x r'"
proof -
  let ?path = "LocalPath info" and ?fr = "repo_registry r"
  from assms obtain fr where u: "UpdateFileCtx os (repo_states r) w ?fr info = Ret (w', fr, res)"
    and r': "r' = r\<lparr>repo_registry := fr\<rparr>" by (auto simp: repo_UpdateFileCtx_def go_bind_Ret_iff)
  obtain w1 fr1 err where c: "(if (case getFileCtx ?fr ?path of Inl _ \<Rightarrow> True | Inr _ \<Rightarrow> False)
      then createFileCtx os (repo_states r) w ?fr ?path else (w, ?fr, None)) = (w1, fr1, err)"
    by (metis prod_cases3)
  have fine: "repo_fine x (r\<lparr>repo_registry := fr1\<rparr>)"
    using c createFileCtx_fine [of os "repo_states r" w r ?path w1 fr1 err x] assms(2) by (auto split: if_splits)
  show ?thesis
  proof (cases "err = None \<and> (\<exists>ctx. getFileCtx fr1 ?path = Inr ctx)")
    case True
    then obtain ctx where ctx: "err = None" "getFileCtx fr1 ?path = Inr ctx" by blast
    with u c obtain m where "fr = put_ctx fr1 ?path (ctx\<lparr>metaState := m\<rparr>)"
      by (auto simp: UpdateFileCtx_def Let_def ctx_UpdateState_def go_bind_Ret_iff split: option.splits)
    then show ?thesis
      using repo_fine_put [OF fine, of "ctx\<lparr>metaState := m\<rparr>" ?path] repo_fineD(3) [OF fine] ctx(2) r' by simp
  next
    case False
    with u c have "fr = fr1" by (cases err) (auto simp: UpdateFileCtx_def Let_def split: sum.splits)
    with fine r' show ?thesis by simp
  qed
qed

text \<open>What a push of all files says of one of them.\<close>

lemma GetRepoFiles_iff:
  assumes "repo_fine x r"
  shows "info \<in> set (GetRepoFiles r) \<and> LocalPath info = name \<longleftrightarrow>
    (\<exists>ctx. getFileCtx (repo_registry r) name = Inr ctx \<and> info = GetStateCopy (repo_states r) ctx)"
proof -
  have iff: "getFileCtx (repo_registry r) n = Inr ctx \<longleftrightarrow> (n, ctx) \<in> set (fileContexts (repo_registry r))" for n ctx
    by (auto simp: getFileCtx_def split: option.split dest: map_of_SomeD map_of_is_SomeI [OF repo_fineD(2) [OF assms]])
  show ?thesis
    using repo_fineD(3) [OF assms]
    by (force simp: GetRepoFiles_def GetAllFileCtxInfo_def getAllFileCtxInfoLocked_def iff GetStateCopy_def)
qed

lemma file_pushes_insert:
  assumes "repo_fine x r"
  shows "file_pushes (insert (GetRepoFiles r) S) name = (case getFileCtx (repo_registry r) name of
    Inl _ \<Rightarrow> file_pushes S name | Inr ctx \<Rightarrow> insert (GetState (replica_of r name)) (file_pushes S name))"
proof -
  have "file_pushes (insert (GetRepoFiles r) S) name =
      {ReadOnlyState info |info. info \<in> set (GetRepoFiles r) \<and> LocalPath info = name} \<union> file_pushes S name"
    by (auto simp: file_pushes_def)
  then show ?thesis
    unfolding GetRepoFiles_iff [OF assms] by (auto simp: GetStateCopy_def replica_in_def split: sum.split)
qed

lemma file_view_put: "file_view (put_repo s x w r) name = put_replica (file_view s name) x (replica_of r name)"
  by (auto simp: file_view_def put_repo_def put_replica_def fun_eq_iff)

lemma put_replica_same: "put_replica c x (replica c x) = c"
  by (simp add: put_replica_def)

lemma replica_view [simp]: "replica (file_view s name) x = replica_of (repo_at s x) name"
  by (simp add: file_view_def)

text \<open>Repositories and disks in order whose files are runs of two replicas.\<close>

definition sharing_ok :: "'w disk_view \<Rightarrow> string \<Rightarrow> string \<Rightarrow> ('w, 'f) sharing \<Rightarrow> bool" where
  "sharing_ok d a b s \<longleftrightarrow> (\<forall>x. repo_fine x (repo_at s x)) \<and> (\<forall>x. disk_fine d (disk s x) (repo_at s x)) \<and>
     (\<forall>name. replicas_reachable within_text a b (file_view s name)) \<and>
     (\<forall>files\<in>sent_files s. LocalPath ` set files \<subseteq> file_names d)"

lemma sharing_okD:
  assumes "sharing_ok d a b s"
  shows "repo_fine x (repo_at s x)" "disk_fine d (disk s x) (repo_at s x)"
    "replicas_reachable within_text a b (file_view s name)"
    "files \<in> sent_files s \<Longrightarrow> LocalPath ` set files \<subseteq> file_names d"
  using assms by (simp_all add: sharing_ok_def)

lemma put_repo_simps [simp]:
  "repo_at (put_repo s x w r) = (repo_at s)(x := r)" "disk (put_repo s x w r) = (disk s)(x := w)"
  "sent_files (put_repo s x w r) = sent_files s" "put_repo (put_repo s x w r) x w' r' = put_repo s x w' r'"
  by (simp_all add: put_repo_def)

text \<open>A new repository of one peer keeps this if each of its replicas is the old one or a step from it.\<close>

lemma sharing_ok_put:
  assumes "sharing_ok d a b s" "repo_fine x r" "disk_fine d w r"
    and "\<And>name. replica_of r name = replica_of (repo_at s x) name \<or>
      replicas_step within_text a b (file_view s name) (put_replica (file_view s name) x (replica_of r name))"
  shows "sharing_ok d a b (put_repo s x w r)"
  unfolding sharing_ok_def
proof (intro conjI allI)
  show "repo_fine y (repo_at (put_repo s x w r) y)" for y using assms(1,2) by (simp add: sharing_ok_def)
  show "disk_fine d (disk (put_repo s x w r) y) (repo_at (put_repo s x w r) y)" for y
    using assms(1,3) by (simp add: sharing_ok_def)
  fix name
  note R = sharing_okD(3) [OF assms(1), of name]
  from assms(4) [of name] show "replicas_reachable within_text a b (file_view (put_repo s x w r) name)"
  proof
    assume "replica_of r name = replica_of (repo_at s x) name"
    then show ?thesis
      using R put_replica_same [of "file_view s name" x] by (simp add: file_view_put)
  next
    assume "replicas_step within_text a b (file_view s name) (put_replica (file_view s name) x (replica_of r name))"
    then show ?thesis unfolding file_view_put by (rule replicas_next [OF R])
  qed
next
  show "\<forall>files\<in>sent_files (put_repo s x w r). LocalPath ` set files \<subseteq> file_names d"
    using sharing_okD(4) [OF assms(1)] by simp
qed

text \<open>A state handed to a file, an edit or a push, as a step of its replicas.\<close>

lemma sharing_ok_update:
  assumes laws: "disk_laws os d" and ok: "sharing_ok d a b s"
    and u: "repo_UpdateFileCtx os (disk s x) (repo_at s x) info = Ret (w', r', res)"
    and name: "LocalPath info \<in> file_names d"
    and step: "\<And>m err. UpdateState (replica_of (repo_at s x) (LocalPath info)) (ReadOnlyState info) = Ret (m, err) \<Longrightarrow>
      replicas_step within_text a b (file_view s (LocalPath info)) (put_replica (file_view s (LocalPath info)) x m)"
  shows "sharing_ok d a b (put_repo s x w' r')"
proof -
  note upd = update_disk [OF laws sharing_okD(2) [OF ok] u name]
  obtain m err where m: "UpdateState (replica_of (repo_at s x) (LocalPath info)) (ReadOnlyState info) = Ret (m, err)"
    "\<forall>g. replica_of r' g = (if g = LocalPath info then m else replica_of (repo_at s x) g)" using upd(3) by blast
  show ?thesis
    by (rule sharing_ok_put [OF ok update_fine [OF u sharing_okD(1) [OF ok]] upd(1)])
      (use m(2) step [OF m(1)] in auto)
qed

text \<open>One file of a push, and all of them.\<close>

lemma merge_one:
  assumes laws: "disk_laws os d" and ok: "sharing_ok d a b s" and x: "x = a \<or> x = b"
    and sent: "ReadOnlyState info \<in> file_pushes (sent_files s) (LocalPath info)" and name: "LocalPath info \<in> file_names d"
  obtains w' r' i where "repo_UpdateFileCtx os (disk s x) (repo_at s x) info = Ret (w', r', Inr i)"
    "sharing_ok d a b (put_repo s x w' r')" "files_in r' = insert (LocalPath info) (files_in (repo_at s x))"
    "\<forall>name. set (GetState (replica_of r' name)) =
      set (GetState (replica_of (repo_at s x) name)) \<union> (if name = LocalPath info then set (ReadOnlyState info) else {})"
proof -
  let ?path = "LocalPath info"
  have st: "ReadOnlyState info \<in> pushed (file_view s ?path)" using sent by (simp add: file_view_def)
  obtain m where m: "UpdateState (replica_of (repo_at s x) ?path) (ReadOnlyState info) = Ret (m, None)"
    "set (GetState m) = set (GetState (replica_of (repo_at s x) ?path)) \<union> set (ReadOnlyState info)"
    using push_merges [OF sharing_okD(3) [OF ok] st x] by auto
  obtain w' r' res where u: "repo_UpdateFileCtx os (disk s x) (repo_at s x) info = Ret (w', r', res)"
    using update_returns [OF m(1)] by (metis prod_cases3)
  note upd = update_disk [OF laws sharing_okD(2) [OF ok] u name]
  from upd(3) m(1) have rep: "\<forall>g. replica_of r' g = (if g = ?path then m else replica_of (repo_at s x) g)" and "\<exists>i. res = Inr i" by simp_all
  then obtain i where res: "res = Inr i" by blast
  show ?thesis
  proof (rule that [of w' r' i])
    show "sharing_ok d a b (put_repo s x w' r')"
      by (rule sharing_ok_update [OF laws ok u name]) (rule replicas_step.merge [OF x st], simp)
  qed (use u res rep m(2) upd(2) in auto)
qed

lemma merge_all:
  assumes laws: "disk_laws os d" and ok: "sharing_ok d a b s" and x: "x = a \<or> x = b"
    and sent: "\<forall>info\<in>set infos. ReadOnlyState info \<in> file_pushes (sent_files s) (LocalPath info) \<and>
      LocalPath info \<in> file_names d"
  shows "\<exists>w' r'. merge_contexts os (disk s x) (repo_at s x) infos = Ret (w', r', True) \<and>
    sharing_ok d a b (put_repo s x w' r') \<and> files_in r' = files_in (repo_at s x) \<union> LocalPath ` set infos \<and>
    (\<forall>name. set (GetState (replica_of r' name)) = set (GetState (replica_of (repo_at s x) name)) \<union>
      \<Union>{set (ReadOnlyState info) |info. info \<in> set infos \<and> LocalPath info = name})"
  using ok sent
proof (induction infos arbitrary: s)
  case Nil
  then show ?case using sharing_ok_put [OF Nil(1) sharing_okD(1,2) [OF Nil(1)]] by simp
next
  case (Cons info infos)
  obtain w1 r1 i where one: "repo_UpdateFileCtx os (disk s x) (repo_at s x) info = Ret (w1, r1, Inr i)"
    "sharing_ok d a b (put_repo s x w1 r1)" "files_in r1 = insert (LocalPath info) (files_in (repo_at s x))"
    and sets: "\<forall>name. set (GetState (replica_of r1 name)) =
      set (GetState (replica_of (repo_at s x) name)) \<union> (if name = LocalPath info then set (ReadOnlyState info) else {})"
    by (rule merge_one [OF laws Cons.prems(1) x, of info]) (use Cons.prems(2) in auto)
  obtain w' r' where rest: "merge_contexts os w1 r1 infos = Ret (w', r', True)" "sharing_ok d a b (put_repo s x w' r')"
    "files_in r' = files_in r1 \<union> LocalPath ` set infos"
    "\<forall>name. set (GetState (replica_of r' name)) = set (GetState (replica_of r1 name)) \<union>
      \<Union>{set (ReadOnlyState info) |info. info \<in> set infos \<and> LocalPath info = name}"
    using Cons.IH [OF one(2)] Cons.prems(2) by auto
  have "set (GetState (replica_of r' name)) = set (GetState (replica_of (repo_at s x) name)) \<union>
      \<Union>{set (ReadOnlyState i) |i. i \<in> set (info # infos) \<and> LocalPath i = name}" for name
    using rest(4) sets [THEN spec, of name] by (cases "name = LocalPath info") auto
  with one(1,3) rest(1-3) show ?case by simp
qed

text \<open>Every run keeps this.\<close>

lemma view_init: "file_view (sharing_init w pre) name = replicas_init"
  by (simp add: file_view_def sharing_init_def replicas_init_def file_pushes_def replica_in_def fun_eq_iff
      GetNewCvrdtRepository_def CreateNewCRDTFileRegistry_def getFileCtx_def)

text \<open>A disk before the first run.\<close>

definition fresh_disk :: "'w disk_view \<Rightarrow> 'w \<Rightarrow> bool" where
  "fresh_disk d w \<longleftrightarrow> good_disk d w \<and> on_disk d w \<inter> file_names d = {}"

lemma sharing_ok_init:
  assumes "\<forall>x. fresh_disk d (w x)"
  shows "sharing_ok d a b (sharing_init w (directory d))"
  unfolding sharing_ok_def
proof (intro conjI allI)
  let ?s = "sharing_init w (directory d)"
  show "repo_fine x (repo_at ?s x)" for x by (simp add: sharing_init_def repo_fine_new)
  show "disk_fine d (disk ?s x) (repo_at ?s x)" for x
    using assms by (auto simp: sharing_init_def disk_fine_def fresh_disk_def files_in_def GetNewCvrdtRepository_def
        CreateNewCRDTFileRegistry_def getFileCtx_def)
  show "replicas_reachable within_text a b (file_view ?s name)" for name
    unfolding view_init by (rule replicas_new)
  show "\<forall>files\<in>sent_files ?s. LocalPath ` set files \<subseteq> file_names d" by (simp add: sharing_init_def)
qed

text \<open>A context whose state was looked at.\<close>

lemma sharing_ok_looked:
  assumes "sharing_ok d a b s" "x = a \<or> x = b" "getFileCtx (repo_registry (repo_at s x)) name = Inr ctx"
    and "ctx' = ctx \<or> ctx' = ctx\<lparr>metaState := snd (Snapshot (metaState ctx))\<rparr>" and "good_disk d w" "dir_entries d w = dir_entries d (disk s x)"
  shows "sharing_ok d a b (put_repo s x w
    ((repo_at s x)\<lparr>repo_registry := put_ctx (repo_registry (repo_at s x)) name ctx'\<rparr>))"
proof (rule sharing_ok_put [OF assms(1)])
  note fine = sharing_okD(1) [OF assms(1), of x]
  let ?r = "(repo_at s x)\<lparr>repo_registry := put_ctx (repo_registry (repo_at s x)) name ctx'\<rparr>"
  show "repo_fine x ?r"
    by (rule repo_fine_put [OF fine]) (use assms(4) repo_fineD(3) [OF fine assms(3)] in auto)
  have "on_disk d w = on_disk d (disk s x)" using assms(6) by (simp add: on_disk_def)
  moreover have "name \<in> files_in (repo_at s x)" using assms(3) by (simp add: files_in_def)
  ultimately show "disk_fine d w ?r" using sharing_okD(2) [OF assms(1), of x] assms(5) by (auto simp: disk_fine_def)
  have meta: "metaState ctx = replica (file_view s name) x" using assms(3) by (simp add: replica_in_def)
  fix g
  show "replica_of ?r g = replica_of (repo_at s x) g \<or>
      replicas_step within_text a b (file_view s g) (put_replica (file_view s g) x (replica_of ?r g))"
    using assms(4) replicas_step.look [OF assms(2), of within_text "file_view s name"] meta
    by (cases "g = name") (auto simp: replica_in_put)
qed

lemma sharing_ok_same: "sharing_ok d a b s \<Longrightarrow> sharing_ok d a b (put_repo s x (disk s x) (repo_at s x))"
  by (rule sharing_ok_put) (simp_all add: sharing_okD)

lemma files_of_push:
  assumes "repo_fine x r"
  shows "LocalPath ` set (GetRepoFiles r) = files_in r"
proof (rule set_eqI)
  fix name
  have "name \<in> LocalPath ` set (GetRepoFiles r) \<longleftrightarrow> (\<exists>info. info \<in> set (GetRepoFiles r) \<and> LocalPath info = name)" by blast
  then show "name \<in> LocalPath ` set (GetRepoFiles r) \<longleftrightarrow> name \<in> files_in r"
    unfolding GetRepoFiles_iff [OF assms] by (simp add: files_in_def)
qed

lemma sent_pushes:
  assumes "sharing_ok d a b s" "files \<in> sent_files s"
  shows "\<forall>info\<in>set files. ReadOnlyState info \<in> file_pushes (sent_files s) (LocalPath info) \<and> LocalPath info \<in> file_names d"
  using sharing_okD(4) [OF assms] assms(2) by (auto simp: file_pushes_def)

lemma sharing_ok_step:
  assumes "sharing_ok d a b s" "share_step os (within_files d) a b s s'" and laws: "disk_laws os d"
  shows "sharing_ok d a b s'"
  using assms(2)
proof cases
  case (share_edit x op w r res)
  let ?rep = "replica_of (repo_at s x) (FilePath op)"
  from share_edit(3) have names: "FilePath op \<in> file_names d" and l: "within_text (cv_site ?rep) (local_edit op)"
    by (simp_all add: within_files_def)
  from Insert_cases [OF share_edit(4)] show ?thesis
  proof
    assume "w = disk s x \<and> r = repo_at s x \<and> (\<exists>e. res = Inl e)"
    then show ?thesis using share_edit(1) sharing_ok_same [OF assms(1)] by simp
  next
    assume "\<exists>upd. repo_UpdateFileCtx os (disk s x) (repo_at s x) (edit_info op) = Ret (w, r, upd) \<and>
      (case upd of Inl e \<Rightarrow> (\<exists>e'. res = Inl e')
       | Inr info \<Rightarrow> ReadOnlyState info \<noteq> [] \<and> res = Inr \<lparr>status_Id = lid_String (OpId (last (ReadOnlyState info))),
           TargetChar = Op_Char (last (ReadOnlyState info)), NewFile = IsNewlyCreated info\<rparr>)"
    then obtain upd where u: "repo_UpdateFileCtx os (disk s x) (repo_at s x) (edit_info op) = Ret (w, r, upd)" by blast
    have info: "LocalPath (edit_info op) = FilePath op" "ReadOnlyState (edit_info op) = [Local (local_edit op)]"
      by (simp_all add: edit_info_def local_edit_def)
    have "replicas_step within_text a b (file_view s (FilePath op)) (put_replica (file_view s (FilePath op)) x m)"
      if "UpdateState ?rep [Local (local_edit op)] = Ret (m, err)" for m err
      by (rule replicas_step.edit [OF share_edit(2)]) (use that l in auto)
    then show ?thesis
      unfolding share_edit(1) by (intro sharing_ok_update [OF laws assms(1) u]) (simp_all add: info names)
  qed
next
  case (share_read x name fr res)
  show ?thesis
  proof (cases "getFileCtx (repo_registry (repo_at s x)) name")
    case (Inl e)
    with share_read(3) have "fr = repo_registry (repo_at s x)" by (simp add: GetFileContent_def)
    then show ?thesis using share_read(1) sharing_ok_same [OF assms(1)] by simp
  next
    case (Inr ctx)
    with share_read(3) have "fr = put_ctx (repo_registry (repo_at s x)) name
        (ctx\<lparr>metaState := snd (Snapshot (metaState ctx))\<rparr>)"
      by (auto simp: GetFileContent_def split: prod.splits)
    moreover have "good_disk d (disk s x)" using sharing_okD(2) [OF assms(1), of x] by (simp add: disk_fine_def)
    ultimately show ?thesis using share_read(1) sharing_ok_looked [OF assms(1) share_read(2) Inr] by simp
  qed
next
  case (share_tick x name ctx w ctx')
  have "ctx' = ctx \<or> ctx' = ctx\<lparr>metaState := snd (Snapshot (metaState ctx))\<rparr>"
    using share_tick(4) by (auto simp: dumper_tick_def Let_def split: prod.splits if_splits option.splits)
  moreover have good: "good_disk d (disk s x)" using sharing_okD(2) [OF assms(1), of x] by (simp add: disk_fine_def)
  then have "good_disk d w" "dir_entries d w = dir_entries d (disk s x)"
    using share_tick(4) disk_lawsD(5,6) [OF laws good]
    by (auto simp: dumper_tick_def Let_def split: prod.splits if_splits option.splits)
  ultimately show ?thesis unfolding share_tick(1) by (rule sharing_ok_looked [OF assms(1) share_tick(2,3)])
next
  case (share_push x)
  let ?s = "s\<lparr>sent_files := insert (GetRepoFiles (repo_at s x)) (sent_files s)\<rparr>"
  have view: "file_view ?s name = (case getFileCtx (repo_registry (repo_at s x)) name of Inl _ \<Rightarrow> file_view s name
    | Inr ctx \<Rightarrow> (file_view s name)\<lparr>pushed := insert (GetState (replica (file_view s name) x)) (pushed (file_view s name))\<rparr>)" for name
    using file_pushes_insert [OF sharing_okD(1) [OF assms(1), of x], of "sent_files s" name]
    by (auto simp: file_view_def split: sum.splits)
  have "replicas_reachable within_text a b (file_view ?s name)" for name
    using replicas_next [OF sharing_okD(3) [OF assms(1)] replicas_step.push [OF share_push(2)], of name]
      sharing_okD(3) [OF assms(1), of name] unfolding view by (auto split: sum.split)
  moreover have "LocalPath ` set (GetRepoFiles (repo_at s x)) \<subseteq> file_names d"
    using files_of_push [OF sharing_okD(1) [OF assms(1)], of x] sharing_okD(2) [OF assms(1), of x] by (simp add: disk_fine_def)
  ultimately show ?thesis using share_push(1) sharing_okD(1,2,4) [OF assms(1)] by (simp add: sharing_ok_def)
next
  case (share_merge x files w r ok)
  from merge_all [OF laws assms(1) share_merge(2) sent_pushes [OF assms(1) share_merge(3)]] share_merge(1,4) show ?thesis by auto
qed

lemma share_reachable_ok:
  assumes "share_reachable os (within_files d) a b (sharing_init w (directory d)) s" "disk_laws os d" "\<forall>x. fresh_disk d (w x)"
  shows "sharing_ok d a b s"
  using assms(1)
  by (induction rule: share_reachable.induct) (auto intro: sharing_ok_init [OF assms(3)] sharing_ok_step [OF _ _ assms(2)])

section \<open>Properties\<close>

lemma logs_of_push:
  assumes "repo_fine x r"
  shows "\<Union>{set (ReadOnlyState info) |info. info \<in> set (GetRepoFiles r) \<and> LocalPath info = name} =
    set (GetState (replica_of r name))"
proof (cases "getFileCtx (repo_registry r) name")
  case (Inl e)
  then show ?thesis unfolding GetRepoFiles_iff [OF assms] by (simp add: replica_in_def NewWootCvrdtWithView_def GetState_def)
next
  case (Inr ctx)
  then show ?thesis unfolding GetRepoFiles_iff [OF assms] by (simp add: replica_in_def GetStateCopy_def)
qed

lemma content_by_view:
  "snd (GetFileContent (repo_states r) (repo_registry r) name) =
    (if name \<in> files_in r then Inr (shows_text (replica_of r name)) else Inl FILE_CTX_NOT_FOUND)"
  by (auto simp: GetFileContent_def files_in_def shows_text_def replica_in_def getFileCtx_def split: option.splits prod.splits)

text \<open>A run of two peers for the examples: one edits a file and pushes it.\<close>

definition tree_edited :: "tree \<times> string Repository" where
  "tree_edited = (case InsertCRDTOpInRepo tree_os empty_tree (GetNewCvrdtRepository ''a'' ''d/'') (type_text 0 ''x'') of
     Ret (w, r, res) \<Rightarrow> (w, r) | _ \<Rightarrow> (empty_tree, GetNewCvrdtRepository ''a'' ''d/''))"

definition small_share :: "(tree, string) sharing" where
  "small_share = (put_repo (sharing_init (\<lambda>x. empty_tree) ''d/'') ''a'' (fst tree_edited) (snd tree_edited))
     \<lparr>sent_files := {GetRepoFiles (snd tree_edited)}\<rparr>"

lemma empty_tree_fresh: "\<forall>x. fresh_disk tree_view empty_tree"
  by (simp add: fresh_disk_def empty_tree_good)

lemma small_share_reachable:
  "share_reachable tree_os (within_files tree_view) ''a'' ''b'' (sharing_init (\<lambda>x. empty_tree) (directory tree_view)) small_share"
proof -
  let ?s = "sharing_init (\<lambda>x. empty_tree) ''d/'' :: (tree, string) sharing" and ?run = "share_reachable tree_os (within_files tree_view) ''a'' ''b''"
  let ?t = "put_repo ?s ''a'' (fst tree_edited) (snd tree_edited)" and ?op = "type_text 0 ''x''"
  have r: "repo_at ?s ''a'' = GetNewCvrdtRepository ''a'' ''d/''" "disk ?s ''a'' = empty_tree" by (simp_all add: sharing_init_def)
  have "share_step tree_os (within_files tree_view) ''a'' ''b'' ?s ?t"
  proof (rule share_edit [where op = ?op])
    have "within_text (cv_site (replica_of (repo_at ?s ''a'') (FilePath ?op))) (local_edit ?op)" unfolding r by code_simp
    moreover have "FilePath ?op \<in> file_names tree_view" by (simp add: type_text_def tree_view_simps plain_names_def)
    ultimately show "within_files tree_view (FilePath ?op) (cv_site (replica_of (repo_at ?s ''a'') (FilePath ?op))) (local_edit ?op)"
      by (simp add: within_files_def)
    show "InsertCRDTOpInRepo tree_os (disk ?s ''a'') (repo_at ?s ''a'') ?op =
        Ret (fst tree_edited, snd tree_edited, Inr \<lparr>status_Id = ''a_1'', TargetChar = ''x'', NewFile = True\<rparr>)"
      unfolding r by code_simp
  qed simp
  from share_next [OF share_new this] have "?run ?s ?t" .
  then have "?run ?s (?t\<lparr>sent_files := insert (GetRepoFiles (repo_at ?t ''a'')) (sent_files ?t)\<rparr>)"
    by (rule share_next) (rule share_push, simp)
  then show ?thesis by (simp add: small_share_def sharing_init_def tree_view_simps)
qed

text \<open>C6. A push that arrives is merged into every file.  Two peers start without contexts, on disks that hold none
  of the file names and on which the directory can be made and files of these names can be created and
  opened; they edit these files within their texts (no insertion past the end, counters below the bound).
  Then the handler returns success for every push that was ever sent, however late; the log of each file
  becomes the union of the two, and no file of the push is missing afterwards.\<close>
theorem push_reaches_every_file:
  assumes "share_reachable os (within_files d) a b (sharing_init w (directory d)) s"
    and "disk_laws os d" "\<forall>x. fresh_disk d (w x)" "x = a \<or> x = b"
    and "repo c = repo_at s x" "DecodeToRepoFiles (payload_Decode dec) (Data msg) = Inr infos" "infos \<in> sent_files s"
  shows "\<exists>w r. handle_push os dec (disk s x) c msg = Ret (w, c\<lparr>repo := r\<rparr>, True) \<and>
    files_in r = files_in (repo c) \<union> LocalPath ` set infos \<and>
    (\<forall>name. set (GetState (replica_of r name)) = set (GetState (replica_of (repo c) name)) \<union>
      \<Union>{set (ReadOnlyState info) |info. info \<in> set infos \<and> LocalPath info = name})"
proof -
  note ok = share_reachable_ok [OF assms(1-3)]
  from merge_all [OF assms(2) ok assms(4) sent_pushes [OF ok assms(7)]] assms(5,6) show ?thesis
    by (auto simp: handle_push_def)
qed

definition fresh_peer :: "(unit, unit PeerMessage, string) CvrdtNetPeer" where
  "fresh_peer = lone_peer\<lparr>repo := GetNewCvrdtRepository ''b'' ''d/''\<rparr>"

definition typed_op :: woot_operation where
  "typed_op = hello_op\<lparr>woot_Character := (woot_Character hello_op)\<lparr>data_AlphaValue := ''x''\<rparr>\<rparr>"

definition files_message :: "unit PeerMessage" where
  "files_message = \<lparr>Key = own_metadata peer0 '''', Data = Payload ()\<rparr>"

definition typed_file :: "unit \<Rightarrow> go_error + woot_operation list FileContextInfo list" where
  "typed_file u = Inr [\<lparr>LocalPath = ''f'', IsNewlyCreated = False, ReadOnlyState = [typed_op]\<rparr>]"

lemma typed_pushed:
  "DecodeToRepoFiles (payload_Decode typed_file) (Data files_message) = Inr (GetRepoFiles (snd tree_edited))"
  "set (GetRepoFiles (snd tree_edited)) = {\<lparr>LocalPath = ''f'', IsNewlyCreated = False, ReadOnlyState = [Woot typed_op]\<rparr>}"
  by code_simp+

theorem push_reaches_every_file_witness:
  "\<exists>w r. handle_push tree_os typed_file empty_tree fresh_peer files_message = Ret (w, fresh_peer\<lparr>repo := r\<rparr>, True) \<and>
     files_in r = {''f''} \<and> set (GetState (replica_of r ''f'')) = {Woot typed_op}"
proof -
  have peer: "repo fresh_peer = repo_at small_share ''b''" by (simp add: fresh_peer_def small_share_def sharing_init_def)
  have disk: "disk small_share ''b'' = empty_tree" by (simp add: small_share_def sharing_init_def)
  have sent: "GetRepoFiles (snd tree_edited) \<in> sent_files small_share" by (simp add: small_share_def)
  have empty: "files_in (repo fresh_peer) = {}" "GetState (replica_of (repo fresh_peer) ''f'') = []"
    by (simp_all add: fresh_peer_def files_in_def replica_in_def GetNewCvrdtRepository_def CreateNewCRDTFileRegistry_def
        getFileCtx_def GetState_def NewWootCvrdtWithView_def)
  obtain w r where run: "handle_push tree_os typed_file empty_tree fresh_peer files_message = Ret (w, fresh_peer\<lparr>repo := r\<rparr>, True)"
      "files_in r = {''f''}"
    and logs: "\<forall>name. set (GetState (replica_of r name)) = set (GetState (replica_of (repo fresh_peer) name)) \<union>
      \<Union>{uu. uu = {Woot typed_op} \<and> ''f'' = name}"
    using push_reaches_every_file [OF small_share_reachable tree_laws empty_tree_fresh _ peer _ sent, of typed_file files_message]
    by (auto simp: typed_pushed disk empty(1))
  from logs [THEN spec, of "''f''"] empty(2) run show ?thesis by auto
qed

text \<open>C1. Two peers agree after one exchange.  They start without contexts, on disks that hold none of the file
  names and on which the directory can be made and files of these names can be created and opened; they
  edit these files within their texts (no insertion past the end, counters below the bound), read, push
  and merge in any order.  When each has then merged the files of the other, every file exists at both and
  both read the same text from it.\<close>
theorem exchange_shares_files:
  assumes "share_reachable os (within_files d) a b (sharing_init w (directory d)) s"
    and "disk_laws os d" "\<forall>x. fresh_disk d (w x)" "a \<noteq> b"
  shows "\<exists>wa ra wb rb.
    merge_contexts os (disk s a) (repo_at s a) (GetRepoFiles (repo_at s b)) = Ret (wa, ra, True) \<and>
    merge_contexts os (disk s b) (repo_at s b) (GetRepoFiles (repo_at s a)) = Ret (wb, rb, True) \<and>
    files_in ra = files_in (repo_at s a) \<union> files_in (repo_at s b) \<and> files_in rb = files_in ra \<and>
    (\<forall>name. snd (GetFileContent (repo_states ra) (repo_registry ra) name) =
      snd (GetFileContent (repo_states rb) (repo_registry rb) name))"
proof -
  let ?push = "\<lambda>s x. s\<lparr>sent_files := insert (GetRepoFiles (repo_at s x)) (sent_files s)\<rparr>"
  let ?s = "?push (?push s b) a" let ?fa = "GetRepoFiles (repo_at s a)" and ?fb = "GetRepoFiles (repo_at s b)"
  note ok = share_reachable_ok [OF assms(1-3)]
  note fine = sharing_okD(1) [OF ok]
  have "share_reachable os (within_files d) a b (sharing_init w (directory d)) ?s"
    by (rule share_next [OF share_next [OF assms(1) share_push]])
      (use share_push [of a a b os "within_files d" "?push s b"] in simp_all)
  note ok1 = share_reachable_ok [OF this assms(2,3)]
  have sent: "?fa \<in> sent_files ?s" "?fb \<in> sent_files ?s" by simp_all
  obtain wa ra where ra: "merge_contexts os (disk s a) (repo_at s a) ?fb = Ret (wa, ra, True)"
    "sharing_ok d a b (put_repo ?s a wa ra)" "files_in ra = files_in (repo_at s a) \<union> LocalPath ` set ?fb"
    "\<forall>name. set (GetState (replica_of ra name)) = set (GetState (replica_of (repo_at s a) name)) \<union>
      \<Union>{set (ReadOnlyState info) |info. info \<in> set ?fb \<and> LocalPath info = name}"
    using merge_all [OF assms(2) ok1, of a ?fb] sent_pushes [OF ok1 sent(2)] by auto
  obtain wb rb where rb: "merge_contexts os (disk s b) (repo_at s b) ?fa = Ret (wb, rb, True)"
    "sharing_ok d a b (put_repo (put_repo ?s a wa ra) b wb rb)" "files_in rb = files_in (repo_at s b) \<union> LocalPath ` set ?fa"
    "\<forall>name. set (GetState (replica_of rb name)) = set (GetState (replica_of (repo_at s b) name)) \<union>
      \<Union>{set (ReadOnlyState info) |info. info \<in> set ?fa \<and> LocalPath info = name}"
    using merge_all [OF assms(2) ra(2), of b ?fa] sent_pushes [OF ok1 sent(1)] assms(4) by auto
  have names: "files_in ra = files_in (repo_at s a) \<union> files_in (repo_at s b)"
    "files_in rb = files_in (repo_at s a) \<union> files_in (repo_at s b)" using ra(3) rb(3) files_of_push [OF fine] by auto
  have shown: "shows_text (replica_of ra name) = shows_text (replica_of rb name)" for name
  proof -
    have "set (GetState (replica_of ra name)) = set (GetState (replica_of rb name))"
      using ra(4) rb(4) logs_of_push [OF fine] by auto
    with same_log_same_text(2) [OF sharing_okD(3) [OF rb(2)], of name] show ?thesis using assms(4) by simp
  qed
  show ?thesis
    unfolding content_by_view using ra(1) rb(1) names shown
    by (intro exI [of _ wa] exI [of _ ra] exI [of _ wb] exI [of _ rb]) simp
qed

theorem exchange_shares_files_witness:
  "\<exists>wa ra wb rb.
    merge_contexts tree_os (fst tree_edited) (snd tree_edited) [] = Ret (wa, ra, True) \<and>
    merge_contexts tree_os empty_tree (GetNewCvrdtRepository ''b'' ''d/'') (GetRepoFiles (snd tree_edited)) = Ret (wb, rb, True) \<and>
    snd (GetFileContent (repo_states ra) (repo_registry ra) ''f'') =
      snd (GetFileContent (repo_states rb) (repo_registry rb) ''f'')"
proof -
  have at: "repo_at small_share ''a'' = snd tree_edited" "disk small_share ''a'' = fst tree_edited"
    "repo_at small_share ''b'' = GetNewCvrdtRepository ''b'' ''d/''" "disk small_share ''b'' = empty_tree"
    "GetRepoFiles (GetNewCvrdtRepository ''b'' ''d/'' :: string Repository) = []"
    by (simp_all add: small_share_def sharing_init_def GetRepoFiles_def GetNewCvrdtRepository_def
        CreateNewCRDTFileRegistry_def GetAllFileCtxInfo_def getAllFileCtxInfoLocked_def)
  show ?thesis
    using exchange_shares_files [OF small_share_reachable tree_laws empty_tree_fresh, unfolded at] by simp blast
qed

end
