(* ===== verification/Nodes.thy ===== *)
theory Nodes
  imports Peers
begin

text \<open>
  The nodes of a running program, \<open>cluster/clusters.go\<close>: a store of clients and servers by identity with
  one default node of each kind.  A node is shared by reference; the model keeps its state in the store
  and writes it back after an operation (\<open>put_node\<close>).
\<close>

section \<open>The store\<close>

datatype ('p, 'b, 'f) node =
    Client_node "('p, 'b, 'f) ClusterClient"
  | Server_node "(log_info list, 'p, 'b) ClusterServer"

datatype NodeKind = NodeKindClient | NodeKindServer

fun kind_text :: "NodeKind \<Rightarrow> string" where
  "kind_text NodeKindClient = ''client''"
| "kind_text NodeKindServer = ''server''"

fun GetId :: "('p, 'b, 'f) node \<Rightarrow> PeerHostInfo" where
  "GetId (Client_node c) = node_Id c"
| "GetId (Server_node s) = node_Id s"

fun kind_of :: "('p, 'b, 'f) node \<Rightarrow> NodeKind" where
  "kind_of (Client_node c) = NodeKindClient"
| "kind_of (Server_node s) = NodeKindServer"

record ('p, 'b, 'f) ClusterNodeStore =
  nodes :: "(PeerHostInfo \<times> ('p, 'b, 'f) node) list"
  node_defaults :: "(NodeKind \<times> PeerHostInfo) list"

definition NewClusterNodeStore :: "('p, 'b, 'f) ClusterNodeStore" where
  "NewClusterNodeStore = \<lparr>nodes = [], node_defaults = []\<rparr>"

text \<open>\<open>go node.Init(ctx)\<close> is taken to run at once; its listener answers \<open>listened\<close>.\<close>

fun Init_node :: "go_error option \<Rightarrow> ('p, 'b, 'f) node \<Rightarrow> ('p, 'b, 'f) node" where
  "Init_node listened (Client_node c) = Client_node (client_Init c None listened)"
| "Init_node listened (Server_node s) = Server_node (let s' = server_handlers s
     in s'\<lparr>Transport_of := fst (ListenFor (Transport_of s') (node_Id s') None listened)\<rparr>)"

definition init_node :: "('p, 'b, 'f) ClusterNodeStore \<Rightarrow> go_error option \<Rightarrow> ('p, 'b, 'f) node \<Rightarrow> NodeKind \<Rightarrow>
    ('p, 'b, 'f) ClusterNodeStore \<times> go_error option" where
  "init_node s listened node kind =
     (let ident = GetId node
      in if map_of (nodes s) ident \<noteq> None
         then (s, Some (Errorf (''A node with id '' @ Format ident @ '' already exists'')))
         else if map_of (node_defaults s) kind \<noteq> None
         then (s, Some (Errorf (''A node with kind '' @ kind_text kind @ '' is already defined in the store'')))
         else (s\<lparr>nodes := AList.update ident (Init_node listened node) (nodes s),
                 node_defaults := AList.update kind ident (node_defaults s)\<rparr>, None))"

definition getNode :: "('p, 'b, 'f) ClusterNodeStore \<Rightarrow> PeerHostInfo \<Rightarrow> go_error + ('p, 'b, 'f) node" where
  "getNode s ident = (case map_of (nodes s) ident of
       None \<Rightarrow> Inl (Errorf ''no id is found in the node store'') | Some node \<Rightarrow> Inr node)"

definition getKindNode :: "('p, 'b, 'f) ClusterNodeStore \<Rightarrow> NodeKind \<Rightarrow> go_error + ('p, 'b, 'f) node" where
  "getKindNode s kind = (case map_of (node_defaults s) kind of
       None \<Rightarrow> Inl (Errorf ''no id is found in the defaults node store'')
     | Some nodeInfo \<Rightarrow> getNode s nodeInfo)"

definition CreateNewClient :: "('r, 'b) json_lib \<Rightarrow> (log_info list app_value \<Rightarrow> go_error + 'r) \<Rightarrow> go_error option \<Rightarrow>
    ('r JsonPayload, 'b, 'f) ClusterNodeStore \<Rightarrow> PeerHostInfo \<Rightarrow> PeerHostInfo \<Rightarrow>
    ('r JsonPayload, 'b, 'f) ClusterNodeStore \<times> go_error option" where
  "CreateNewClient lib marshal listened s info ident =
     init_node s listened (Client_node (CreateNewClusterClient lib marshal info ident)) NodeKindClient"

definition CreateNewServer :: "('r, 'b) json_lib \<Rightarrow> (log_info list app_value \<Rightarrow> go_error + 'r) \<Rightarrow> go_error option \<Rightarrow>
    ('r JsonPayload, 'b, 'f) ClusterNodeStore \<Rightarrow> PeerHostInfo \<Rightarrow>
    ('r JsonPayload, 'b, 'f) ClusterNodeStore \<times> go_error option" where
  "CreateNewServer lib marshal listened s ident =
     init_node s listened (Server_node (CreateNewClusterServer lib marshal ident)) NodeKindServer"

text \<open>\<open>GetNodeAs\<close> at its two types.\<close>

definition wrong_type :: "PeerHostInfo \<Rightarrow> go_error" where
  "wrong_type ident = Errorf (''id '' @ Format ident @ '' is associated with the wrong type of node (client/server)'')"

definition GetClient :: "('p, 'b, 'f) ClusterNodeStore \<Rightarrow> go_error + ('p, 'b, 'f) ClusterClient" where
  "GetClient s = (case getKindNode s NodeKindClient of
       Inl err \<Rightarrow> Inl err
     | Inr (Client_node c) \<Rightarrow> Inr c
     | Inr (Server_node sv) \<Rightarrow> Inl (wrong_type (node_Id sv)))"

definition GetServer ::
  "('p, 'b, 'f) ClusterNodeStore \<Rightarrow> go_error + (log_info list, 'p, 'b) ClusterServer" where
  "GetServer s = (case getKindNode s NodeKindServer of
       Inl err \<Rightarrow> Inl err
     | Inr (Server_node sv) \<Rightarrow> Inr sv
     | Inr (Client_node c) \<Rightarrow> Inl (wrong_type (node_Id c)))"

fun ShutDown_node :: "('w, 'f) os \<Rightarrow> 'w \<Rightarrow> ('p, 'b, 'f) node \<Rightarrow> 'w go" where
  "ShutDown_node os w (Client_node c) = go_bind (client_ShutDown os w c) (\<lambda>(w', c'). Ret w')"
| "ShutDown_node os w (Server_node sv) = go_bind (Stop (Broker_of sv)) (\<lambda>mb. Ret w)"

definition Remove_node :: "('w, 'f) os \<Rightarrow> 'w \<Rightarrow> ('p, 'b, 'f) ClusterNodeStore \<Rightarrow> PeerHostInfo \<Rightarrow>
    ('w \<times> ('p, 'b, 'f) ClusterNodeStore \<times> go_error option) go" where
  "Remove_node os w s ident = (case getNode s ident of
       Inl err \<Rightarrow> Ret (w, s, Some err)
     | Inr node \<Rightarrow>
         (let s' = s\<lparr>nodes := AList.delete ident (nodes s),
                node_defaults := filter (\<lambda>(kind, defID). defID \<noteq> ident) (node_defaults s)\<rparr>
          in go_bind (ShutDown_node os w node) (\<lambda>w'. Ret (w', s', None))))"

fun remove_nodes :: "('w, 'f) os \<Rightarrow> 'w \<Rightarrow> ('p, 'b, 'f) ClusterNodeStore \<Rightarrow> PeerHostInfo list \<Rightarrow>
    ('w \<times> ('p, 'b, 'f) ClusterNodeStore \<times> go_error list) go" where
  "remove_nodes os w s [] = Ret (w, s, [])"
| "remove_nodes os w s (ident # idents) =
     go_bind (Remove_node os w s ident) (\<lambda>(w', s', err).
       go_bind (remove_nodes os w' s' idents) (\<lambda>(w'', s'', errs).
         Ret (w'', s'', (case err of None \<Rightarrow> errs | Some e \<Rightarrow> e # errs))))"

definition Close_nodes :: "('w, 'f) os \<Rightarrow> 'w \<Rightarrow> ('p, 'b, 'f) ClusterNodeStore \<Rightarrow>
    ('w \<times> ('p, 'b, 'f) ClusterNodeStore \<times> go_error list) go" where
  "Close_nodes os w s = remove_nodes os w s (map fst (nodes s))"

definition put_node :: "('p, 'b, 'f) ClusterNodeStore \<Rightarrow> ('p, 'b, 'f) node \<Rightarrow> ('p, 'b, 'f) ClusterNodeStore" where
  "put_node s node = s\<lparr>nodes := AList.update (GetId node) node (nodes s)\<rparr>"

section \<open>The invariant\<close>

text \<open>Nodes are stored under their identity, and each kind's default is the only node of the kind.\<close>

definition nodes_fit :: "(PeerHostInfo \<Rightarrow> ('p, 'b, 'f) node option) \<Rightarrow> (NodeKind \<Rightarrow> PeerHostInfo option) \<Rightarrow> bool" where
  "nodes_fit N D \<longleftrightarrow>
     (\<forall>ident node. N ident = Some node \<longrightarrow> GetId node = ident \<and> D (kind_of node) = Some ident) \<and>
     (\<forall>kind ident. D kind = Some ident \<longrightarrow> (\<exists>node. N ident = Some node \<and> kind_of node = kind))"

definition node_store_ok :: "('p, 'b, 'f) ClusterNodeStore \<Rightarrow> bool" where
  "node_store_ok s \<longleftrightarrow> distinct (map fst (nodes s)) \<and> distinct (map fst (node_defaults s)) \<and>
     nodes_fit (map_of (nodes s)) (map_of (node_defaults s))"

lemma nodes_fitD:
  assumes "nodes_fit N D"
  shows "N i = Some n \<Longrightarrow> GetId n = i" "N i = Some n \<Longrightarrow> D (kind_of n) = Some i"
    "D k = Some i \<Longrightarrow> \<exists>n. N i = Some n \<and> kind_of n = k"
  using assms by (auto simp: nodes_fit_def)

lemma nodes_fit_add:
  assumes "nodes_fit N D" "N (GetId node) = None" "D (kind_of node) = None"
  shows "nodes_fit (N(GetId node \<mapsto> node)) (D(kind_of node \<mapsto> GetId node))"
  unfolding nodes_fit_def
proof (intro conjI allI impI)
  fix i n assume i: "(N(GetId node \<mapsto> node)) i = Some n"
  show "GetId n = i" using i nodes_fitD(1) [OF assms(1)] by (auto split: if_splits)
  show "(D(kind_of node \<mapsto> GetId node)) (kind_of n) = Some i"
    using i nodes_fitD(2) [OF assms(1), of i n] assms(3) by (cases "i = GetId node") auto
next
  fix k i assume k: "(D(kind_of node \<mapsto> GetId node)) k = Some i"
  show "\<exists>n. (N(GetId node \<mapsto> node)) i = Some n \<and> kind_of n = k"
    using k nodes_fitD(3) [OF assms(1), of k i] assms(2) by (cases "k = kind_of node") auto
qed

lemma nodes_fit_put:
  assumes "nodes_fit N D" "N (GetId node) = Some old" "kind_of node = kind_of old"
  shows "nodes_fit (N(GetId node \<mapsto> node)) D"
  unfolding nodes_fit_def
proof (intro conjI allI impI)
  fix i n assume i: "(N(GetId node \<mapsto> node)) i = Some n"
  show "GetId n = i" using i nodes_fitD(1) [OF assms(1)] by (auto split: if_splits)
  show "D (kind_of n) = Some i"
    using i nodes_fitD(2) [OF assms(1), of i] assms(2,3) by (cases "i = GetId node") auto
next
  fix k i assume "D k = Some i"
  then show "\<exists>n. (N(GetId node \<mapsto> node)) i = Some n \<and> kind_of n = k"
    using nodes_fitD(3) [OF assms(1), of k i] assms(2,3) by auto
qed

lemma nodes_fit_remove:
  assumes "nodes_fit N D"
  shows "nodes_fit (N(ident := None)) (\<lambda>k. if D k = Some ident then None else D k)"
  unfolding nodes_fit_def
proof (intro conjI allI impI)
  fix i n assume i: "(N(ident := None)) i = Some n"
  then show "GetId n = i" using nodes_fitD(1) [OF assms] by (auto split: if_splits)
  show "(if D (kind_of n) = Some ident then None else D (kind_of n)) = Some i"
    using i nodes_fitD(2) [OF assms, of i n] by (auto split: if_splits)
next
  fix k i assume "(if D k = Some ident then None else D k) = Some i"
  then show "\<exists>n. (N(ident := None)) i = Some n \<and> kind_of n = k"
    using nodes_fitD(3) [OF assms, of k i] by (auto split: if_splits)
qed

text \<open>What happens to a store: nodes are created and removed, and a node that is there goes on working.\<close>

inductive store_step :: "('w, 'f) os \<Rightarrow> ('p, 'b, 'f) ClusterNodeStore \<Rightarrow> ('p, 'b, 'f) ClusterNodeStore \<Rightarrow> bool" for os where
  create: "init_node s listened node kind = (s', err) \<Longrightarrow> kind = kind_of node \<Longrightarrow> store_step os s s'"
| remove: "Remove_node os w s ident = Ret (w', s', err) \<Longrightarrow> store_step os s s'"
| work: "map_of (nodes s) (GetId node) = Some old \<Longrightarrow> kind_of node = kind_of old \<Longrightarrow> store_step os s (put_node s node)"

inductive store_reachable :: "('w, 'f) os \<Rightarrow> ('p, 'b, 'f) ClusterNodeStore \<Rightarrow> bool" for os where
  store_new: "store_reachable os NewClusterNodeStore"
| store_next: "store_reachable os s \<Longrightarrow> store_step os s s' \<Longrightarrow> store_reachable os s'"

lemma Init_node_frame [simp]: "GetId (Init_node listened node) = GetId node" "kind_of (Init_node listened node) = kind_of node"
  by (cases node; simp add: client_Init_def client_handlers_def server_handlers_def Let_def)+

lemma init_node_ok:
  assumes "node_store_ok s" "init_node s listened node (kind_of node) = (s', err)"
  shows "node_store_ok s'"
proof (cases err)
  case (Some e)
  with assms show ?thesis by (auto simp: init_node_def Let_def split: if_splits)
next
  case None
  with assms(2) have new: "map_of (nodes s) (GetId node) = None" "map_of (node_defaults s) (kind_of node) = None"
    and s': "s' = s\<lparr>nodes := AList.update (GetId node) (Init_node listened node) (nodes s),
      node_defaults := AList.update (kind_of node) (GetId node) (node_defaults s)\<rparr>"
    by (auto simp: init_node_def Let_def split: if_splits)
  have "nodes_fit ((map_of (nodes s))(GetId node \<mapsto> Init_node listened node))
      ((map_of (node_defaults s))(kind_of node \<mapsto> GetId node))"
    using nodes_fit_add [of "map_of (nodes s)" "map_of (node_defaults s)" "Init_node listened node"] assms(1) new
    by (simp add: node_store_ok_def)
  with assms(1) show ?thesis unfolding node_store_ok_def s' by (simp add: update_conv' distinct_update)
qed

lemma map_of_filter_snd:
  "distinct (map fst m) \<Longrightarrow> map_of (filter (\<lambda>(k, v). v \<noteq> x) m) = (\<lambda>k. if map_of m k = Some x then None else map_of m k)"
  by (induction m) (auto simp: fun_eq_iff map_of_eq_None_iff)

lemma Remove_node_ok:
  assumes "node_store_ok s" "Remove_node os w s ident = Ret (w', s', err)"
  shows "node_store_ok s'" "map_of (nodes s') ident = None"
    "err = None \<Longrightarrow> nodes s' = AList.delete ident (nodes s)" "map_of (nodes s) ident \<noteq> None \<Longrightarrow> err = None"
proof -
  have "node_store_ok s' \<and> map_of (nodes s') ident = None \<and> (err = None \<longrightarrow> nodes s' = AList.delete ident (nodes s)) \<and>
    (map_of (nodes s) ident \<noteq> None \<longrightarrow> err = None)"
  proof (cases "map_of (nodes s) ident")
    case None
    with assms show ?thesis by (auto simp: Remove_node_def getNode_def)
  next
    case (Some node)
    with assms(2) have s': "s' = s\<lparr>nodes := AList.delete ident (nodes s),
        node_defaults := filter (\<lambda>(kind, defID). defID \<noteq> ident) (node_defaults s)\<rparr>" "err = None"
      by (auto simp: Remove_node_def getNode_def Let_def go_bind_Ret_iff)
    have "distinct (map fst (filter (\<lambda>(kind, defID). defID \<noteq> ident) (node_defaults s)))"
      using assms(1) by (auto simp: node_store_ok_def distinct_map_filter)
    moreover have "nodes_fit (map_of (nodes s')) (map_of (node_defaults s'))"
      using nodes_fit_remove [of "map_of (nodes s)" "map_of (node_defaults s)" ident] assms(1)
      by (simp add: s'(1) delete_conv' map_of_filter_snd node_store_ok_def)
    ultimately show ?thesis
      using assms(1) s' by (simp add: node_store_ok_def delete_conv') (simp add: AList.delete_eq distinct_map_filter)
  qed
  then show "node_store_ok s'" "map_of (nodes s') ident = None"
    "err = None \<Longrightarrow> nodes s' = AList.delete ident (nodes s)" "map_of (nodes s) ident \<noteq> None \<Longrightarrow> err = None" by auto
qed

lemma put_node_ok:
  "node_store_ok s \<Longrightarrow> map_of (nodes s) (GetId node) = Some old \<Longrightarrow> kind_of node = kind_of old \<Longrightarrow>
   node_store_ok (put_node s node)"
  using nodes_fit_put [of "map_of (nodes s)" "map_of (node_defaults s)" node old]
  by (simp add: node_store_ok_def put_node_def update_conv' distinct_update)

lemma store_step_ok: "store_step os s s' \<Longrightarrow> node_store_ok s \<Longrightarrow> node_store_ok s'"
  by (induction rule: store_step.induct) (auto intro: init_node_ok Remove_node_ok(1) put_node_ok)

lemma store_reachable_ok: "store_reachable os s \<Longrightarrow> node_store_ok s"
proof (induction rule: store_reachable.induct)
  case store_new
  then show ?case by (simp add: node_store_ok_def nodes_fit_def NewClusterNodeStore_def)
qed (rule store_step_ok)

section \<open>Properties\<close>

text \<open>In every store a program can reach, asking for the client gives the client node that is stored,
  if there is one, and the same for the server: the default of a kind is never a node of the other type
  nor one that is gone, no second node of a kind hides behind it, and the only error says that there is
  none.\<close>
theorem defaults_have_their_kind:
  assumes "store_reachable os s"
  shows "(GetClient s = Inr c \<longleftrightarrow> (\<exists>ident. map_of (nodes s) ident = Some (Client_node c))) \<and>
    (GetServer s = Inr sv \<longleftrightarrow> (\<exists>ident. map_of (nodes s) ident = Some (Server_node sv))) \<and>
    (GetClient s = Inl err \<or> GetServer s = Inl err \<longrightarrow> err = Errorf ''no id is found in the defaults node store'')"
proof -
  have fit: "nodes_fit (map_of (nodes s)) (map_of (node_defaults s))"
    using store_reachable_ok [OF assms] by (simp add: node_store_ok_def)
  have kind: "getKindNode s k = (case map_of (node_defaults s) k of
      None \<Rightarrow> Inl (Errorf ''no id is found in the defaults node store'')
    | Some i \<Rightarrow> Inr (the (map_of (nodes s) i)))" for k
    using nodes_fitD(3) [OF fit, of k] by (auto simp: getKindNode_def getNode_def split: option.split)
  have stored: "map_of (node_defaults s) k = Some i \<and> map_of (nodes s) i = Some n \<longleftrightarrow>
      map_of (nodes s) i = Some n \<and> kind_of n = k" for k i n
    using nodes_fitD(2) [OF fit, of i n] nodes_fitD(3) [OF fit, of k i] by auto
  show ?thesis
  proof (intro conjI)
    show "GetClient s = Inr c \<longleftrightarrow> (\<exists>ident. map_of (nodes s) ident = Some (Client_node c))"
    proof (cases "map_of (node_defaults s) NodeKindClient")
      case None
      then show ?thesis using stored [of NodeKindClient _ "Client_node c"] by (auto simp: GetClient_def kind)
    next
      case (Some i)
      then obtain n where n: "map_of (nodes s) i = Some n" "kind_of n = NodeKindClient"
        using nodes_fitD(3) [OF fit Some] by blast
      then obtain c' where c': "n = Client_node c'" by (cases n) auto
      with Some n have "GetClient s = Inr c'" by (simp add: GetClient_def kind)
      moreover have "ident = i" if "map_of (nodes s) ident = Some (Client_node c)" for ident
        using stored [of NodeKindClient ident "Client_node c"] that Some by auto
      ultimately show ?thesis using n c' by auto
    qed
    show "GetServer s = Inr sv \<longleftrightarrow> (\<exists>ident. map_of (nodes s) ident = Some (Server_node sv))"
    proof (cases "map_of (node_defaults s) NodeKindServer")
      case None
      then show ?thesis using stored [of NodeKindServer _ "Server_node sv"] by (auto simp: GetServer_def kind)
    next
      case (Some i)
      then obtain n where n: "map_of (nodes s) i = Some n" "kind_of n = NodeKindServer"
        using nodes_fitD(3) [OF fit Some] by blast
      then obtain sv' where sv': "n = Server_node sv'" by (cases n) auto
      with Some n have "GetServer s = Inr sv'" by (simp add: GetServer_def kind)
      moreover have "ident = i" if "map_of (nodes s) ident = Some (Server_node sv)" for ident
        using stored [of NodeKindServer ident "Server_node sv"] that Some by auto
      ultimately show ?thesis using n sv' by auto
    qed
    have "kind_of (the (map_of (nodes s) i)) = k" if "map_of (node_defaults s) k = Some i" for k i
      using nodes_fitD(3) [OF fit that] by auto
    from this [of NodeKindClient] this [of NodeKindServer]
    show "GetClient s = Inl err \<or> GetServer s = Inl err \<longrightarrow> err = Errorf ''no id is found in the defaults node store''"
      by (auto simp: GetClient_def GetServer_def kind split: option.splits node.splits)
  qed
qed

text \<open>The program's store with a server and a client of it, created by the commands.\<close>

type_synonym small_store =
  "(log_info list app_value JsonPayload, PeerMetadata \<times> log_info list app_value, string) ClusterNodeStore"

definition small_store :: small_store where
  "small_store = fst (CreateNewClient value_json Inr None
     (fst (CreateNewServer value_json Inr None NewClusterNodeStore peer0)) peer0 peer1)"

lemma small_store_reachable: "store_reachable calm_os small_store"
proof -
  let ?sv = "Server_node (CreateNewClusterServer value_json Inr peer0) :: (log_info list app_value JsonPayload,
    PeerMetadata \<times> log_info list app_value, string) node"
  let ?c = "Client_node (CreateNewClusterClient value_json Inr peer0 peer1) :: (log_info list app_value JsonPayload,
    PeerMetadata \<times> log_info list app_value, string) node"
  have "store_reachable calm_os (fst (init_node NewClusterNodeStore None ?sv NodeKindServer))"
    by (rule store_next [OF store_new create [of _ None ?sv NodeKindServer _ "snd (init_node NewClusterNodeStore None ?sv NodeKindServer)"]]) simp_all
  then have "store_reachable calm_os
      (fst (init_node (fst (init_node NewClusterNodeStore None ?sv NodeKindServer)) None ?c NodeKindClient))"
    by (rule store_next [OF _ create [of _ None ?c NodeKindClient _
          "snd (init_node (fst (init_node NewClusterNodeStore None ?sv NodeKindServer)) None ?c NodeKindClient)"]]) simp_all
  then show ?thesis by (simp add: small_store_def CreateNewClient_def CreateNewServer_def)
qed

theorem defaults_have_their_kind_witness:
  "GetClient small_store = Inr small_client"
proof -
  have "map_of (nodes small_store) peer1 = Some (Client_node small_client)"
    by (simp add: small_store_def CreateNewClient_def CreateNewServer_def init_node_def Let_def
        NewClusterNodeStore_def CreateNewClusterClient_def CreateNewClusterServer_def Create_module_def
        CreateFromArgs_def AppNodeModule.defs NetworkModule.defs initModule_def small_client_def
        peer0_def peer1_def CreateNewHostInfo_def)
  with defaults_have_their_kind [OF small_store_reachable] show ?thesis by blast
qed

lemma remove_nodes_ok:
  assumes "remove_nodes os w s idents = Ret (w', s', errs)" "node_store_ok s" "set idents \<subseteq> fst ` set (nodes s)" "distinct idents"
  shows "errs = [] \<and> node_store_ok s' \<and> fst ` set (nodes s') = fst ` set (nodes s) - set idents"
  using assms
proof (induction idents arbitrary: w s errs)
  case (Cons ident idents)
  from Cons.prems(1) obtain w1 s1 err errs1 where r: "Remove_node os w s ident = Ret (w1, s1, err)"
    "remove_nodes os w1 s1 idents = Ret (w', s', errs1)" "errs = (case err of None \<Rightarrow> errs1 | Some e \<Rightarrow> e # errs1)"
    by (auto simp: go_bind_Ret_iff)
  have "map_of (nodes s) ident \<noteq> None" using Cons.prems(3) by (auto simp: map_of_eq_None_iff)
  with Remove_node_ok [OF Cons.prems(2) r(1)] have s1: "node_store_ok s1" "err = None" "nodes s1 = AList.delete ident (nodes s)"
    by auto
  then have "fst ` set (nodes s1) = fst ` set (nodes s) - {ident}" by (auto simp: AList.delete_eq)
  moreover have "set idents \<subseteq> fst ` set (nodes s) - {ident}" "distinct idents" using Cons.prems(3,4) by auto
  ultimately show ?case using Cons.IH [OF r(2) s1(1)] r(3) s1(2) by auto
qed simp

text \<open>Closing the store shuts every node down without an error and leaves nothing behind, neither a
  node nor a default.\<close>
lemma Close_empties_store:
  assumes "store_reachable os s" "Close_nodes os w s = Ret (w', s', errs)"
  shows "errs = [] \<and> nodes s' = [] \<and> node_defaults s' = []"
proof -
  have ok: "node_store_ok s" using assms(1) by (rule store_reachable_ok)
  then have "errs = [] \<and> node_store_ok s' \<and> fst ` set (nodes s') = {}"
    using remove_nodes_ok [OF assms(2) [unfolded Close_nodes_def] ok] by (auto simp: node_store_ok_def)
  moreover have "node_defaults s' = []" if "node_store_ok s'" "nodes s' = []"
    using that nodes_fitD(3) [of "map_of (nodes s')" "map_of (node_defaults s')" "fst (hd (node_defaults s'))"
        "snd (hd (node_defaults s'))"] by (cases "node_defaults s'") (auto simp: node_store_ok_def)
  ultimately show ?thesis by auto
qed

end
