(* ===== verification/Commands.thy ===== *)
theory Commands
  imports Nodes
begin

text \<open>
  The commands, \<open>command/command.go\<close>, \<open>command/commandsA.go\<close>, \<open>command/context.go\<close> and the loop of
  \<open>command/loop.go\<close>.  A command is a function of the store of nodes and its arguments; what it replies
  is the list of the results it sends, in order.  The environment of a command is a record of what the
  rest of the model takes from outside.
\<close>

section \<open>Results\<close>

datatype Status = Success | Error

record ResultMessage =
  Status :: Status
  Message :: string
  result_Payload :: "string option"

definition empty_result :: ResultMessage where
  "empty_result = \<lparr>Status = Success, Message = '''', result_Payload = None\<rparr>"

definition FromError :: "go_error \<Rightarrow> ResultMessage" where
  "FromError err = \<lparr>Status = Error, Message = error_msg err, result_Payload = None\<rparr>"

text \<open>The formatted text is the argument of the model.\<close>

definition FromErrStr :: "string \<Rightarrow> ResultMessage" where
  "FromErrStr str = FromError (Errorf str)"

definition FromSuccess :: "string \<Rightarrow> string option \<Rightarrow> ResultMessage" where
  "FromSuccess msg payload = \<lparr>Status = Success, Message = msg, result_Payload = payload\<rparr>"

text \<open>The loop of \<open>ConcatResultMessages\<close>.\<close>

fun concat_loop :: "Status \<Rightarrow> string option \<Rightarrow> string list \<Rightarrow> ResultMessage list \<Rightarrow>
    Status \<times> string option \<times> string list" where
  "concat_loop status payload messages [] = (status, payload, messages)"
| "concat_loop status payload messages (r # rs) =
     (if r = empty_result then concat_loop status payload messages rs
      else concat_loop (if Status r = Error then Error else status)
        (if result_Payload r \<noteq> None then result_Payload r else payload)
        (if Message r \<noteq> '''' then messages @ [Message r] else messages) rs)"

definition ConcatResultMessages :: "ResultMessage list \<Rightarrow> ResultMessage" where
  "ConcatResultMessages results = (let (status, payload, messages) = concat_loop Success None [] results
     in \<lparr>Status = status, Message = str_join ([CHR 0x0A, CHR 0x09]) messages, result_Payload = payload\<rparr>)"

section \<open>Parsing\<close>

text \<open>\<open>strconv.Atoi\<close> of a decimal numeral.\<close>

definition is_digit :: "char \<Rightarrow> bool" where
  "is_digit c = (48 \<le> (of_char c :: nat) \<and> (of_char c :: nat) < 58)"

definition Atoi :: "string \<Rightarrow> int option" where
  "Atoi s =
     (let neg = (s \<noteq> [] \<and> hd s = CHR ''-'');
          digits = (if s \<noteq> [] \<and> (hd s = CHR ''-'' \<or> hd s = CHR ''+'') then tl s else s);
          n = (if neg then - int (dec_value digits) else int (dec_value digits))
      in if digits = [] \<or> \<not> list_all is_digit digits \<or> n < - (2 ^ 63) \<or> 2 ^ 63 \<le> n then None else Some n)"

text \<open>\<open>strings.Fields\<close>, with the spaces that ASCII has.\<close>

definition is_space :: "char \<Rightarrow> bool" where
  "is_space c = (c = CHR '' '' \<or> (9 \<le> (of_char c :: nat) \<and> (of_char c :: nat) \<le> 13))"

fun Fields_from :: "string \<Rightarrow> string \<Rightarrow> string list" where
  "Fields_from word [] = (if word = [] then [] else [word])"
| "Fields_from word (c # cs) =
     (if is_space c then (if word = [] then Fields_from [] cs else word # Fields_from [] cs)
      else Fields_from (word @ [c]) cs)"

definition Fields :: "string \<Rightarrow> string list" where
  "Fields s = Fields_from [] s"

text \<open>\<open>expandEnv\<close>, with \<open>os.ExpandEnv\<close> as a parameter, makes at most \<open>maxPasses\<close> passes.\<close>

fun expandEnv :: "(string \<Rightarrow> string) \<Rightarrow> nat \<Rightarrow> string \<Rightarrow> string" where
  "expandEnv ExpandEnv 0 input = input"
| "expandEnv ExpandEnv (Suc n) input =
     (let expanded = ExpandEnv input in if expanded = input then input else expandEnv ExpandEnv n expanded)"

record 'c ParsedCommand =
  Command :: 'c
  Args :: "string list"

definition Parse :: "(string \<Rightarrow> string) \<Rightarrow> (string \<times> 'c) list \<Rightarrow> string \<Rightarrow> go_error + 'c ParsedCommand" where
  "Parse ExpandEnv commands input =
     (case Fields (expandEnv ExpandEnv 3 input) of
        [] \<Rightarrow> Inl (Errorf ''empty command'')
      | commandName # args \<Rightarrow> (case map_of commands commandName of
            None \<Rightarrow> Inl (Errorf (''command not found: '' @ commandName))
          | Some command \<Rightarrow> Inr \<lparr>Command = command, Args = args\<rparr>))"

definition Register :: "(string \<times> 'c) list \<Rightarrow> string \<Rightarrow> 'c \<Rightarrow> (string \<times> 'c) list" where
  "Register commands name command = AList.update name command commands"

section \<open>The environment of a command\<close>

record ('w, 'r, 'b, 'f) env =
  env_os :: "('w, 'f) os"
  env_json :: "('r, 'b) json_lib"
  env_marshal :: "log_info list app_value \<Rightarrow> go_error + 'r"
  env_world :: "('r JsonPayload, 'b, 'f) world"
  env_dial :: "PeerHostInfo \<Rightarrow> dial_outcome"
  env_peer_writes :: "nat \<Rightarrow> go_error option"
  env_listened :: "go_error option"
  env_Atoi_error :: "string \<Rightarrow> string"

type_synonym ('w, 'r, 'b, 'f) outcome =
  "('w \<times> ('r JsonPayload, 'b, 'f) ClusterNodeStore \<times> ResultMessage list) go"

type_synonym ('w, 'r, 'b, 'f) command =
  "('w, 'r, 'b, 'f) env \<Rightarrow> 'w \<Rightarrow> ('r JsonPayload, 'b, 'f) ClusterNodeStore \<Rightarrow> string list \<Rightarrow> ('w, 'r, 'b, 'f) outcome"

text \<open>One reply, without a change of anything.\<close>

abbreviation Reply :: "'w \<Rightarrow> ('r JsonPayload, 'b, 'f) ClusterNodeStore \<Rightarrow> ResultMessage \<Rightarrow> ('w, 'r, 'b, 'f) outcome" where
  "Reply w s r \<equiv> Ret (w, s, [r])"

definition put_client :: "('p, 'b, 'f) ClusterNodeStore \<Rightarrow> ('p, 'b, 'f) ClusterClient \<Rightarrow> ('p, 'b, 'f) ClusterNodeStore" where
  "put_client s c = put_node s (Client_node c)"

section \<open>The commands\<close>

definition cmd_edit :: "('w, 'r, 'b, 'f) command" where
  "cmd_edit e w s args =
     (if length args < 3 then Reply w s (FromErrStr ''Command should have at least 3 arguments'')
      else let opType = args ! 0; filepath = args ! 1
        in case Atoi (args ! 2) of
            None \<Rightarrow> Reply w s (FromErrStr ''Position should be an integer'')
          | Some pos \<Rightarrow>
              (if opType = ''insert'' \<and> length args < 4
               then Reply w s (FromErrStr (''Command edit should also provide '' @ [CHR 0x27] @ ''content'' @
                 [CHR 0x27] @ '' parameter with insertion''))
               else let content = (if opType = ''insert'' then args ! 3 else '''')
                 in case GetClient s of
                     Inl err \<Rightarrow> Reply w s (FromErrStr (''No working client was set: '' @ error_msg err))
                   | Inr client \<Rightarrow>
                       go_bind (CreateNewLocalOperation (env_os e) w client filepath opType content pos)
                         (\<lambda>(w', client', wasFileCreated, err). let s' = put_client s client' in case err of
                            Some er \<Rightarrow> Reply w' s' (ConcatResultMessages
                              [FromErrStr (''Fail to edit operation '' @ opType @ '' for file '' @ filepath),
                               FromErrStr ((if wasFileCreated then ''An error occured when trying to create file ''
                                 else ''An error occured when trying to update file '') @ filepath @ '': '' @ error_msg er)])
                          | None \<Rightarrow> Reply w' s' (FromSuccess
                              (''Edit operation for '' @ filepath @ '' file context was a success'') None))))"

definition cmd_push :: "('w, 'r, 'b, 'f) command" where
  "cmd_push e w s args = (case GetClient s of
       Inl err \<Rightarrow> Reply w s (FromErrStr (''No working client was set: '' @ error_msg err))
     | Inr client \<Rightarrow>
         go_bind (DiffuseData (env_world e) (env_dial e) (env_peer_writes e) client) (\<lambda>(client', err).
           let s' = put_client s client' in case err of
             Some er \<Rightarrow> Reply w s' (FromErrStr (''Push broadcasting failure: '' @ error_msg er))
           | None \<Rightarrow> Reply w s' (FromSuccess ''Push broadcasting successfull!'' None)))"

definition cmd_read :: "('w, 'r, 'b, 'f) command" where
  "cmd_read e w s args = (case args of
       [] \<Rightarrow> Reply w s (FromErrStr ''File context <filepath> argument should be supplied'')
     | filepath # _ \<Rightarrow> (case GetClient s of
           Inl err \<Rightarrow> Reply w s (FromErrStr (''No working client was set: '' @ error_msg err))
         | Inr client \<Rightarrow> go_bind (DisplayData client ContentVisual filepath 0) (\<lambda>(client', res).
             let s' = put_client s client' in case res of
               Inl err \<Rightarrow> Reply w s' (FromErrStr (''error when trying to display visual content for '' @ filepath @
                 '': '' @ error_msg err))
             | Inr content \<Rightarrow> Reply w s' (FromSuccess (''File '' @ filepath @ '' was read with success'') (Some content)))))"

definition cmd_history :: "('w, 'r, 'b, 'f) command" where
  "cmd_history e w s args = (case args of
       [] \<Rightarrow> Reply w s (FromErrStr ''Should specify file context <pathfile>'')
     | filepath # rest \<Rightarrow>
         (case (case rest of [] \<Rightarrow> Some (0, LinearVisual) | d # _ \<Rightarrow> map_option (\<lambda>deep. (deep, DagVisual)) (Atoi d)) of
            None \<Rightarrow> Reply w s (FromErrStr ''Argument <deep> should be specified as an integer'')
          | Some (deep, mode) \<Rightarrow> (case GetClient s of
                Inl err \<Rightarrow> Reply w s (FromErrStr (''No working client was set: '' @ error_msg err))
              | Inr client \<Rightarrow> go_bind (DisplayData client mode filepath deep) (\<lambda>(client', res).
                  let s' = put_client s client' in case res of
                    Inl err \<Rightarrow> Reply w s' (FromErrStr (''History for file '' @ filepath @
                      '' could not be correctly visualized: '' @ error_msg err))
                  | Inr text \<Rightarrow> Reply w s' (FromSuccess (''Visualizing '' @ filepath @ '' history:'') (Some text))))))"

definition cmd_create_cluster_client :: "('w, 'r, 'b, 'f) command" where
  "cmd_create_cluster_client e w s args =
     (if args = [] then Reply w s (FromErrStr ''First argument should specify client info <name>_<address>'')
      else case ParseHostInfoFromStr (args ! 0) CLUSTER_CLIENT_ID of
          Inl err \<Rightarrow> Reply w s (FromError err)
        | Inr clientInfo \<Rightarrow>
            (if length args < 2
             then Reply w s (FromErrStr ''Second argument should specify server info <domain>_<address>'')
             else case ParseHostInfoFromStr (args ! 1) CLUSTER_SERVER_ID of
                 Inl err \<Rightarrow> Reply w s (FromError err)
               | Inr serverInfo \<Rightarrow>
                   (case CreateNewClient (env_json e) (env_marshal e) (env_listened e) s serverInfo clientInfo of
                      (s', Some err) \<Rightarrow> Reply w s' (FromErrStr (''Cannot create a new Client: '' @ error_msg err))
                    | (s', None) \<Rightarrow> Reply w s' (FromSuccess
                        (''Cluster Client '' @ Format clientInfo @ '' was created'') None))))"

definition cmd_create_cluster_server :: "('w, 'r, 'b, 'f) command" where
  "cmd_create_cluster_server e w s args =
     (if args = [] then Reply w s (FromErrStr ''Argument needs to be provided as <domain>_<address>'')
      else case ParseHostInfoFromStr (args ! 0) CLUSTER_SERVER_ID of
          Inl err \<Rightarrow> Reply w s (FromError err)
        | Inr serverInfo \<Rightarrow>
            (case CreateNewServer (env_json e) (env_marshal e) (env_listened e) s serverInfo of
               (s', Some err) \<Rightarrow> Reply w s' (FromErrStr (''Cannot create a new Server: '' @ error_msg err))
             | (s', None) \<Rightarrow> Reply w s' (FromSuccess (''Cluster Server '' @ Format serverInfo @ '' was created'') None)))"

definition cmd_connect_to_cluster :: "('w, 'r, 'b, 'f) command" where
  "cmd_connect_to_cluster e w s args = (case args of
       [] \<Rightarrow> Reply w s (FromErrStr ''A new peer address should be provided to connect to cluster'')
     | peerAddress # _ \<Rightarrow> (case GetClient s of
           Inl err \<Rightarrow> Reply w s (FromErrStr (''No working client was set: '' @ error_msg err))
         | Inr client \<Rightarrow>
             go_bind (ConnectToCluster (env_json e) (env_marshal e) (env_world e) (env_dial e) (env_listened e)
               client peerAddress) (\<lambda>(client', err). let s' = put_client s client' in case err of
                 Some er \<Rightarrow> Reply w s' (FromErrStr (''Cluster client fail to connect to cluster server: '' @ error_msg er))
               | None \<Rightarrow> Reply w s' (FromSuccess ''Connection to cluster server successfull'' None))))"

text \<open>The reply of \<open>wait\<close> to a bad argument quotes the error text of \<open>strconv\<close>, a parameter.\<close>

definition cmd_wait :: "('w, 'r, 'b, 'f) command" where
  "cmd_wait e w s args = (case args of
       [] \<Rightarrow> Reply w s (FromErrStr ''A time to wait should be supplied in ms'')
     | timeStr # _ \<Rightarrow> (case Atoi timeStr of
           None \<Rightarrow> Reply w s (FromErrStr (''Time supplied should be an integer: '' @ env_Atoi_error e timeStr))
         | Some timeToWait \<Rightarrow>
             (if timeToWait < 0 then Reply w s (FromErrStr ''Time supplied should be greater than 0'')
              else Reply w s (FromSuccess (''Successfully waited '' @ dec_int timeToWait @ '' ms'') None))))"

definition cmd_shutdown :: "('w, 'r, 'b, 'f) command" where
  "cmd_shutdown e w s args =
     (if args = [] \<or> (args ! 0 \<noteq> ''client'' \<and> args ! 0 \<noteq> ''server'')
      then Reply w s (FromErrStr ''First argument should specify <client> or <server>'')
      else if args ! 0 = ''client'' then
        (case GetClient s of
           Inl err \<Rightarrow> Reply w s (FromErrStr (''No default client was set: '' @ error_msg err))
         | Inr client \<Rightarrow> go_bind (Remove_node (env_os e) w s (node_Id client)) (\<lambda>(w', s', err).
             Reply w' s' (FromSuccess (''Client '' @ Format (node_Id client) @ '' was shut down'') None)))
      else (case GetServer s of
           Inl err \<Rightarrow> Reply w s (FromErrStr (''No default server was set: '' @ error_msg err))
         | Inr server \<Rightarrow> go_bind (Remove_node (env_os e) w s (node_Id server)) (\<lambda>(w', s', err).
             Reply w' s' (FromSuccess (''Server '' @ Format (node_Id server) @ '' was shut down'') None))))"

definition CommandRegistry :: "(string \<times> ('w, 'r, 'b, 'f) command) list" where
  "CommandRegistry =
     Register (Register (Register (Register (Register (Register (Register (Register (Register []
       ''edit'' cmd_edit) ''push'' cmd_push) ''read'' cmd_read) ''history'' cmd_history)
       ''create_cluster_client'' cmd_create_cluster_client) ''create_cluster_server'' cmd_create_cluster_server)
       ''connect_to_cluster'' cmd_connect_to_cluster) ''wait'' cmd_wait) ''shutdown'' cmd_shutdown"

section \<open>The loop\<close>

definition TERMINATION_COMMAND :: string where "TERMINATION_COMMAND = ''shutdown_app''"

text \<open>What the loop logs for the first reply.  A command that replies nothing leaves it waiting.\<close>

definition report :: "ResultMessage \<Rightarrow> string" where
  "report result = (if Status result = Error then ''Command Failure: '' else ''Command Success: '') @ Message result @
     (case result_Payload result of None \<Rightarrow> '''' | Some payload \<Rightarrow> CHR 0x0A # payload)"

text \<open>\<open>startLoop\<close> on the lines of its reader, without an interrupt; the lines it logs, and the store
  after its deferred \<open>Close\<close>.\<close>

fun loop_lines :: "(string \<Rightarrow> string) \<Rightarrow> ('w, 'r, 'b, 'f) env \<Rightarrow> 'w \<Rightarrow> ('r JsonPayload, 'b, 'f) ClusterNodeStore \<Rightarrow>
    string list \<Rightarrow> ('w \<times> ('r JsonPayload, 'b, 'f) ClusterNodeStore \<times> string list) go" where
  "loop_lines ExpandEnv e w s [] = Ret (w, s, [])"
| "loop_lines ExpandEnv e w s (line # lines) =
     (if line = TERMINATION_COMMAND then Ret (w, s, [''App termination command received''])
      else case Parse ExpandEnv CommandRegistry line of
          Inl err \<Rightarrow> go_bind (loop_lines ExpandEnv e w s lines) (\<lambda>(w', s', out).
            Ret (w', s', (''Command error: '' @ error_msg err) # out))
        | Inr command \<Rightarrow> go_bind (Command command e w s (Args command)) (\<lambda>(w', s', replies). case replies of
              [] \<Rightarrow> Hang
            | result # _ \<Rightarrow> go_bind (loop_lines ExpandEnv e w' s' lines) (\<lambda>(w'', s'', out).
                Ret (w'', s'', report result # out))))"

definition startLoop :: "(string \<Rightarrow> string) \<Rightarrow> ('w, 'r, 'b, 'f) env \<Rightarrow> 'w \<Rightarrow>
    ('r JsonPayload, 'b, 'f) ClusterNodeStore \<Rightarrow> string list \<Rightarrow>
    ('w \<times> ('r JsonPayload, 'b, 'f) ClusterNodeStore \<times> string list) go" where
  "startLoop ExpandEnv e w s lines =
     go_bind (loop_lines ExpandEnv e w s lines) (\<lambda>(w', s', out).
       go_bind (Close_nodes (env_os e) w' s') (\<lambda>(w'', s'', errs).
         Ret (w'', s'', out @ [''App termination...''] @
           (if errs = [] then [] else [''App termination error: '' @ str_join [CHR 0x0A] (map error_msg errs)]))))"


section \<open>Replies\<close>

definition one_reply :: "('w, 'r, 'b, 'f) outcome \<Rightarrow> bool" where
  "one_reply result \<longleftrightarrow> (\<forall>w s replies. result = Ret (w, s, replies) \<longrightarrow> length replies = 1)"

lemma one_reply_Reply [simp]: "one_reply (Reply w s r)"
  by (simp add: one_reply_def)

lemma one_reply_bind: "(\<And>x. one_reply (f x)) \<Longrightarrow> one_reply (go_bind m f)"
  by (cases m) (simp_all add: one_reply_def)

lemma one_reply_commands:
  "one_reply (cmd_edit e w s args)" "one_reply (cmd_push e w s args)" "one_reply (cmd_read e w s args)"
  "one_reply (cmd_history e w s args)" "one_reply (cmd_create_cluster_client e w s args)"
  "one_reply (cmd_create_cluster_server e w s args)" "one_reply (cmd_connect_to_cluster e w s args)"
  "one_reply (cmd_wait e w s args)" "one_reply (cmd_shutdown e w s args)"
  by (auto simp: cmd_edit_def cmd_push_def cmd_read_def cmd_history_def cmd_create_cluster_client_def
      cmd_create_cluster_server_def cmd_connect_to_cluster_def cmd_wait_def cmd_shutdown_def Let_def
      intro!: one_reply_bind split: option.split sum.split list.split prod.split)

text \<open>The commands by their names.\<close>

lemma registry_cases:
  assumes "map_of CommandRegistry name = Some command"
  shows "command \<in> {cmd_edit, cmd_push, cmd_read, cmd_history, cmd_create_cluster_client,
    cmd_create_cluster_server, cmd_connect_to_cluster, cmd_wait, cmd_shutdown}"
  using assms by (auto simp: CommandRegistry_def Register_def split: if_splits)

text \<open>Every command that returns has sent exactly one reply, on every branch: the loop, which waits for
  one, always goes on, and the reply channel with room for one never blocks a command.\<close>
theorem every_command_replies_once:
  assumes "map_of CommandRegistry name = Some command" "command e w s args = Ret (w', s', replies)"
  shows "length replies = 1"
proof -
  have "one_reply (command e w s args)"
    using registry_cases [OF assms(1)] by (auto simp: one_reply_commands)
  with assms(2) show ?thesis by (simp add: one_reply_def)
qed

definition calm_env :: "(string list, log_info list app_value, PeerMetadata \<times> log_info list app_value, string) env" where
  "calm_env = \<lparr>env_os = calm_os, env_json = value_json, env_marshal = Inr, env_world = silence,
     env_dial = (\<lambda>v. Inr (Inr v)), env_peer_writes = (\<lambda>c. None), env_listened = None,
     env_Atoi_error = (\<lambda>s. ''invalid syntax'')\<rparr>"

theorem every_command_replies_once_witness:
  "\<exists>w s r. cmd_edit calm_env [] small_store [''insert'', ''f'', ''0'', ''x''] = Ret (w, s, [r])"
proof -
  let ?run = "cmd_edit calm_env [] small_store [''insert'', ''f'', ''0'', ''x'']"
  have "case ?run of Ret x \<Rightarrow> True | _ \<Rightarrow> False" by code_simp
  then obtain w s replies where run: "?run = Ret (w, s, replies)" by (auto split: go.splits)
  have "map_of CommandRegistry ''edit'' = Some (cmd_edit :: (string list, log_info list app_value,
      PeerMetadata \<times> log_info list app_value, string) command)"
    by (simp add: CommandRegistry_def Register_def)
  from every_command_replies_once [OF this run] run show ?thesis by (auto simp: length_Suc_conv)
qed


section \<open>The store under the commands\<close>

text \<open>The operations of a client keep its identity, as long as the rest of the program does.\<close>

definition keeps_identity :: "('p, 'b, 'f) world \<Rightarrow> bool" where
  "keeps_identity u \<longleftrightarrow> (\<forall>c. node_Id (fst (meanwhile u c)) = node_Id c)"

definition same_Id :: "PeerHostInfo \<Rightarrow> (('p, 'b, 'f) ClusterClient \<times> 'r) go \<Rightarrow> bool" where
  "same_Id ident result \<longleftrightarrow> (\<forall>c r. result = Ret (c, r) \<longrightarrow> node_Id c = ident)"

lemma same_Id_Ret [simp]: "same_Id ident (Ret (c, r)) \<longleftrightarrow> node_Id c = ident"
  by (simp add: same_Id_def)

lemma same_Id_bind:
  assumes "same_Id ident m" "\<And>c r. node_Id c = ident \<Longrightarrow> same_Id ident (f (c, r))"
  shows "same_Id ident (go_bind m f)"
proof (cases m)
  case (Ret x)
  obtain c r where x: "x = (c, r)" by (cases x)
  with Ret assms(1) have "node_Id c = ident" by simp
  from assms(2) [OF this] show ?thesis by (simp add: Ret x)
qed (simp_all add: same_Id_def)

lemma same_Id_bind_other: "(\<And>x. same_Id ident (f x)) \<Longrightarrow> same_Id ident (go_bind m f)"
  by (cases m) (auto simp: same_Id_def)

lemma same_Id_stuck [simp]: "same_Id ident Panic" "same_Id ident Hang"
  by (simp_all add: same_Id_def)

lemma module_Broadcast_Id: "node_Id m = ident \<Longrightarrow> same_Id ident (module_Broadcast written m i data)"
  by (auto simp: module_Broadcast_def intro!: same_Id_bind_other split: sum.split prod.split)

lemma ping_Id:
  assumes "keeps_identity u" "node_Id cc = ident"
  shows "same_Id ident (pingClusterServer u cc topic sender payload)"
proof -
  have m: "node_Id c2 = node_Id c1" if "meanwhile u c1 = (c2, err)" for c1 c2 err
    using assms(1) that by (metis fst_conv keeps_identity_def)
  show ?thesis
    using assms(2) unfolding pingClusterServer_def
    by (auto simp: Let_def split: sum.split option.split prod.split
        intro!: same_Id_bind [OF same_Id_bind [OF module_Broadcast_Id]]
          same_Id_bind_other [where m = "session_Close mb i" for mb i]) (metis m)+
qed

lemma CreateNewLocalOperation_Id:
  "CreateNewLocalOperation os w cc f o' t pos = Ret (w', cc', created, err) \<Longrightarrow> node_Id cc' = node_Id cc"
  by (auto simp: CreateNewLocalOperation_def go_bind_Ret_iff split: if_splits option.splits)

lemma DisplayData_Id: "DisplayData cc mode f d = Ret (cc', res) \<Longrightarrow> node_Id cc' = node_Id cc"
  by (auto simp: DisplayData_def go_bind_Ret_iff split: option.splits if_splits)

lemma DiffuseData_Id:
  assumes "DiffuseData u dial pw cc = Ret (cc', err)" "keeps_identity u"
  shows "node_Id cc' = node_Id cc"
proof -
  have "same_Id (node_Id cc) (DiffuseData u dial pw cc)"
    by (auto simp: DiffuseData_def intro!: same_Id_bind [OF ping_Id [OF assms(2)]]
        same_Id_bind_other [where m = "BroadcastRegistryOverTransport pw i c" for i c]
        split: sum.split option.split prod.split)
  with assms(1) show ?thesis by (simp add: same_Id_def)
qed

lemma ConnectToCluster_Id:
  assumes "ConnectToCluster lib marshal u dial listened cc a = Ret (cc', err)" "keeps_identity u"
  shows "node_Id cc' = node_Id cc"
proof -
  have "same_Id (node_Id cc) (ConnectToCluster lib marshal u dial listened cc a)"
    by (auto simp: ConnectToCluster_def Let_def intro!: same_Id_bind [OF ping_Id [OF assms(2)]]
        split: sum.split option.split prod.split list.split)
  with assms(1) show ?thesis by (simp add: same_Id_def)
qed

lemmas client_Ids = DisplayData_Id CreateNewLocalOperation_Id DiffuseData_Id ConnectToCluster_Id

definition good_store :: "('w, 'r, 'b, 'f) env \<Rightarrow> ('w, 'r, 'b, 'f) outcome \<Rightarrow> bool" where
  "good_store e result \<longleftrightarrow> (\<forall>w s replies. result = Ret (w, s, replies) \<longrightarrow> store_reachable (env_os e) s)"

lemma good_Reply [simp]: "good_store e (Reply w s r) \<longleftrightarrow> store_reachable (env_os e) s"
  by (simp add: good_store_def)

lemma good_bind: "(\<And>x. m = Ret x \<Longrightarrow> good_store e (f x)) \<Longrightarrow> good_store e (go_bind m f)"
  by (cases m) (simp_all add: good_store_def)

lemma put_client_reachable:
  assumes "store_reachable os s" "GetClient s = Inr client" "node_Id client' = node_Id client"
  shows "store_reachable os (put_client s client')"
proof -
  have "node_store_ok s" using assms(1) by (rule store_reachable_ok)
  then have fit: "nodes_fit (map_of (nodes s)) (map_of (node_defaults s))" by (simp add: node_store_ok_def)
  obtain i where "map_of (nodes s) i = Some (Client_node client)"
    using assms(2) by (auto simp: GetClient_def getKindNode_def getNode_def split: option.splits node.splits)
  moreover from nodes_fitD(1) [OF fit this] have "i = node_Id client'" using assms(3) by simp
  ultimately show ?thesis
    using store_next [OF assms(1) work [of s "Client_node client'" "Client_node client"]] by (simp add: put_client_def)
qed

lemma put_reachable:
  assumes "store_reachable os s" "GetClient s = Inr client"
  shows "DisplayData client mode f d = Ret (c', res) \<Longrightarrow> store_reachable os (put_client s c')"
    "CreateNewLocalOperation os' w client f op t pos = Ret (w', c', created, err) \<Longrightarrow> store_reachable os (put_client s c')"
    "DiffuseData u dial pw client = Ret (c', err) \<Longrightarrow> keeps_identity u \<Longrightarrow> store_reachable os (put_client s c')"
    "ConnectToCluster lib marshal u dial listened client a = Ret (c', err) \<Longrightarrow> keeps_identity u \<Longrightarrow>
     store_reachable os (put_client s c')"
  by (rule put_client_reachable [OF assms], simp add: client_Ids)+

lemma created_reachable:
  assumes "store_reachable os s"
  shows "CreateNewClient lib marshal listened s info ident = (s', err) \<Longrightarrow> store_reachable os s'"
    "CreateNewServer lib marshal listened s ident = (s', err) \<Longrightarrow> store_reachable os s'"
    "Remove_node os w s i = Ret (w', s', err) \<Longrightarrow> store_reachable os s'"
  by (auto simp: CreateNewClient_def CreateNewServer_def intro: store_next [OF assms create] store_next [OF assms remove])

lemma good_commands:
  assumes "store_reachable (env_os e) s" "keeps_identity (env_world e)"
  shows "good_store e (cmd_edit e w s args)" "good_store e (cmd_push e w s args)" "good_store e (cmd_read e w s args)"
    "good_store e (cmd_history e w s args)" "good_store e (cmd_create_cluster_client e w s args)"
    "good_store e (cmd_create_cluster_server e w s args)" "good_store e (cmd_connect_to_cluster e w s args)"
    "good_store e (cmd_wait e w s args)" "good_store e (cmd_shutdown e w s args)"
  using assms
  by (auto simp: cmd_edit_def cmd_push_def cmd_read_def cmd_history_def cmd_create_cluster_client_def
      cmd_create_cluster_server_def cmd_connect_to_cluster_def cmd_wait_def cmd_shutdown_def Let_def
      intro!: good_bind intro: put_reachable created_reachable
      split: option.split sum.split list.split prod.split)

lemma command_good:
  assumes "map_of CommandRegistry name = Some command" "store_reachable (env_os e) s" "keeps_identity (env_world e)"
  shows "good_store e (command e w s args)" "one_reply (command e w s args)"
  using registry_cases [OF assms(1)] good_commands [OF assms(2,3)] by (auto simp: one_reply_commands)

lemma loop_lines_good:
  fixes e :: "('w, 'r, 'b, 'f) env"
  assumes "loop_lines ExpandEnv e w s lines = Ret (w', s', out)" "store_reachable (env_os e) s"
    "keeps_identity (env_world e)"
  shows "store_reachable (env_os e) s' \<and> length out = length (takeWhile (\<lambda>line. line \<noteq> TERMINATION_COMMAND) lines) +
    (if TERMINATION_COMMAND \<in> set lines then 1 else 0)"
  using assms(1,2)
proof (induction lines arbitrary: w s out)
  case (Cons line lines)
  show ?case
  proof (cases "line = TERMINATION_COMMAND")
    case True
    with Cons.prems show ?thesis by auto
  next
    case False
    show ?thesis
    proof (cases "Parse ExpandEnv (CommandRegistry :: (string \<times> ('w, 'r, 'b, 'f) command) list) line")
      case (Inl err)
      with Cons.prems(1) False obtain out1 where "loop_lines ExpandEnv e w s lines = Ret (w', s', out1)"
        "out = (''Command error: '' @ error_msg err) # out1" by (auto simp: go_bind_Ret_iff)
      with Cons.IH [OF this(1) Cons.prems(2)] False show ?thesis by auto
    next
      case (Inr command)
      with Cons.prems(1) False obtain w1 s1 replies where run: "Command command e w s (Args command) = Ret (w1, s1, replies)"
        and rest: "(case replies of [] \<Rightarrow> Hang | result # _ \<Rightarrow> go_bind (loop_lines ExpandEnv e w1 s1 lines)
          (\<lambda>(w'', s'', out). Ret (w'', s'', report result # out))) = Ret (w', s', out)"
        by (auto simp: go_bind_Ret_iff simp del: list.case)
      then obtain result out1 where out1: "loop_lines ExpandEnv e w1 s1 lines = Ret (w', s', out1)" "out = report result # out1"
        by (auto simp: go_bind_Ret_iff split: list.splits)
      from Inr obtain name where "map_of CommandRegistry name = Some (Command command)"
        by (auto simp: Parse_def split: list.splits option.splits)
      from command_good(1) [OF this Cons.prems(2) assms(3)] run have "store_reachable (env_os e) s1"
        unfolding good_store_def by blast
      from Cons.IH [OF out1(1) this] out1(2) False show ?thesis by auto
    qed
  qed
qed simp

text \<open>What \<open>startLoop\<close> logs and leaves when it starts on a new store and returns; the property of the loop with
  its goroutines is in \<open>Runs\<close>.\<close>

lemma startLoop_serves:
  assumes "startLoop ExpandEnv e w NewClusterNodeStore lines = Ret (w', s', out)" "keeps_identity (env_world e)"
  shows "nodes s' = [] \<and> node_defaults s' = [] \<and>
    (\<exists>reports. out = reports @ [''App termination...''] \<and>
      length reports = length (takeWhile (\<lambda>line. line \<noteq> TERMINATION_COMMAND) lines) +
        (if TERMINATION_COMMAND \<in> set lines then 1 else 0))"
proof -
  from assms(1) obtain w1 s1 reports errs where run:
    "loop_lines ExpandEnv e w NewClusterNodeStore lines = Ret (w1, s1, reports)"
    "Close_nodes (env_os e) w1 s1 = Ret (w', s', errs)"
    "out = reports @ [''App termination...''] @
      (if errs = [] then [] else [''App termination error: '' @ str_join [CHR 0x0A] (map error_msg errs)])"
    unfolding startLoop_def by (auto simp: go_bind_Ret_iff)
  note good = loop_lines_good [OF run(1) store_new assms(2)]
  with Close_empties_store [OF _ run(2)] run(3) show ?thesis by auto
qed

end
