(* ===== verification/Runs.thy ===== *)
theory Runs
  imports Commands
begin

text \<open>
  The application loop with interrupts, \<open>Run\<close> and \<open>startLoop\<close> of \<open>command/loop.go\<close> with the goroutine of the
  signal and the goroutine of the command, and \<open>WithTimeoutCommand\<close> of \<open>command/command.go\<close>.  A command
  takes effect in one step, at any time after it was started, also after the loop has stopped waiting for
  it.  Without an interrupt this is the function \<open>startLoop\<close> of \<open>Commands\<close>.
\<close>

section \<open>Timeouts\<close>

definition DeadlineExceeded :: go_error where "DeadlineExceeded = Errorf ''context deadline exceeded''"
definition Canceled :: go_error where "Canceled = Errorf ''context canceled''"

text \<open>\<open>expired\<close> says that the context ends before the command has replied: its error is the first reply, and
  the command goes on.  A command that never returns is taken to change nothing.\<close>

definition WithTimeoutCommand :: "bool \<Rightarrow> ('w, 'r, 'b, 'f) command \<Rightarrow> ('w, 'r, 'b, 'f) command" where
  "WithTimeoutCommand expired base e w s args =
     (if expired then (case base e w s args of
          Ret (w', s', replies) \<Rightarrow> Ret (w', s', FromError DeadlineExceeded # replies)
        | Panic \<Rightarrow> Panic
        | Hang \<Rightarrow> Ret (w, s, [FromError DeadlineExceeded]))
      else base e w s args)"

section \<open>The steps of a run\<close>

text \<open>Scanning the rest of the input, waiting for the reply of a command, ending with an error or none,
  closed, and after the last line of \<open>Run\<close>.\<close>

datatype run_phase = Scanning "string list" | Awaiting "string list" | Ending "go_error option" |
  Closed_down "go_error option" | Run_over

record ('w, 'r, 'b, 'f) app_run =
  run_world :: 'w
  run_store :: "('r JsonPayload, 'b, 'f) ClusterNodeStore"
  run_job :: "(('w, 'r, 'b, 'f) command \<times> string list) option"
  run_replies :: "ResultMessage list"
  interrupted :: bool
  shown :: "string list"
  run_phase :: run_phase

definition run_init :: "'w \<Rightarrow> ('r JsonPayload, 'b, 'f) ClusterNodeStore \<Rightarrow> string list \<Rightarrow> ('w, 'r, 'b, 'f) app_run" where
  "run_init w s lines = \<lparr>run_world = w, run_store = s, run_job = None, run_replies = [], interrupted = False,
     shown = [], run_phase = Scanning lines\<rparr>"

text \<open>The deferred lines of \<open>startLoop\<close>, and the error as \<open>%v\<close> prints it.\<close>

definition ending_lines :: "go_error list \<Rightarrow> string list" where
  "ending_lines errs = [''App termination...''] @
     (if errs = [] then [] else [''App termination error: '' @ str_join [CHR 0x0A] (map error_msg errs)])"

definition show_error :: "go_error option \<Rightarrow> string" where
  "show_error err = (case err of None \<Rightarrow> ''<nil>'' | Some e \<Rightarrow> error_msg e)"

inductive run_step :: "(string \<Rightarrow> string) \<Rightarrow> ('w, 'r, 'b, 'f) env \<Rightarrow> ('w, 'r, 'b, 'f) app_run \<Rightarrow>
    ('w, 'r, 'b, 'f) app_run \<Rightarrow> bool" for ExpandEnv e where
  run_signal: "run_step ExpandEnv e s (s\<lparr>interrupted := True\<rparr>)"
| scan_last: "run_phase s = Scanning (TERMINATION_COMMAND # lines) \<Longrightarrow>
     run_step ExpandEnv e s (s\<lparr>shown := shown s @ [''App termination command received''], run_phase := Ending None\<rparr>)"
| scan_bad: "run_phase s = Scanning (line # lines) \<Longrightarrow> line \<noteq> TERMINATION_COMMAND \<Longrightarrow>
     Parse ExpandEnv (CommandRegistry :: (string \<times> ('w, 'r, 'b, 'f) command) list) line = Inl err \<Longrightarrow>
     run_step ExpandEnv e s (s\<lparr>shown := shown s @ [''Command error: '' @ error_msg err], run_phase := Scanning lines\<rparr>)"
| scan_command: "run_phase s = Scanning (line # lines) \<Longrightarrow> line \<noteq> TERMINATION_COMMAND \<Longrightarrow>
     Parse ExpandEnv CommandRegistry line = Inr c \<Longrightarrow>
     run_step ExpandEnv e s (s\<lparr>run_job := Some (Command c, Args c), run_replies := [], run_phase := Awaiting lines\<rparr>)"
| scan_end: "run_phase s = Scanning [] \<Longrightarrow> run_step ExpandEnv e s (s\<lparr>run_phase := Ending None\<rparr>)"
| scan_cancelled: "run_phase s = Scanning lines \<Longrightarrow> interrupted s \<Longrightarrow>
     run_step ExpandEnv e s (s\<lparr>run_phase := Ending None\<rparr>)"
| run_command: "run_job s = Some (c, args) \<Longrightarrow> c e (run_world s) (run_store s) args = Ret (w', st', replies) \<Longrightarrow>
     run_step ExpandEnv e s (s\<lparr>run_world := w', run_store := st', run_job := None, run_replies := replies\<rparr>)"
| take_reply: "run_phase s = Awaiting lines \<Longrightarrow> run_job s = None \<Longrightarrow> run_replies s = result # results \<Longrightarrow>
     run_step ExpandEnv e s (s\<lparr>shown := shown s @ [report result], run_phase := Scanning lines\<rparr>)"
| await_cancelled: "run_phase s = Awaiting lines \<Longrightarrow> interrupted s \<Longrightarrow>
     run_step ExpandEnv e s (s\<lparr>run_phase := Ending (Some Canceled)\<rparr>)"
| run_close: "run_phase s = Ending err \<Longrightarrow> Close_nodes (env_os e) (run_world s) (run_store s) = Ret (w', st', errs) \<Longrightarrow>
     run_step ExpandEnv e s (s\<lparr>run_world := w', run_store := st', shown := shown s @ ending_lines errs,
       run_phase := Closed_down err\<rparr>)"
| run_return: "run_phase s = Closed_down err \<Longrightarrow>
     run_step ExpandEnv e s (s\<lparr>shown := shown s @ [''Shutdown command loop with error: '' @ show_error err],
       run_phase := Run_over\<rparr>)"

inductive run_reachable :: "(string \<Rightarrow> string) \<Rightarrow> ('w, 'r, 'b, 'f) env \<Rightarrow> ('w, 'r, 'b, 'f) app_run \<Rightarrow>
    ('w, 'r, 'b, 'f) app_run \<Rightarrow> bool" for ExpandEnv e s where
  run_new: "run_reachable ExpandEnv e s s"
| run_next: "run_reachable ExpandEnv e s s' \<Longrightarrow> run_step ExpandEnv e s' s'' \<Longrightarrow> run_reachable ExpandEnv e s s''"

section \<open>Without an interrupt\<close>

text \<open>What \<open>startLoop\<close> still has to do in a state of a run.\<close>

definition close_after :: "('w, 'r, 'b, 'f) env \<Rightarrow> string list \<Rightarrow>
    ('w \<times> ('r JsonPayload, 'b, 'f) ClusterNodeStore \<times> string list) go \<Rightarrow>
    ('w \<times> ('r JsonPayload, 'b, 'f) ClusterNodeStore \<times> string list) go" where
  "close_after e out0 m = go_bind m (\<lambda>(w', s', out). go_bind (Close_nodes (env_os e) w' s') (\<lambda>(w'', s'', errs).
     Ret (w'', s'', out0 @ out @ ending_lines errs)))"

definition answer_then :: "(string \<Rightarrow> string) \<Rightarrow> ('w, 'r, 'b, 'f) env \<Rightarrow> string list \<Rightarrow> ('w, 'r, 'b, 'f) outcome \<Rightarrow>
    ('w \<times> ('r JsonPayload, 'b, 'f) ClusterNodeStore \<times> string list) go" where
  "answer_then ExpandEnv e lines m = go_bind m (\<lambda>(w', s', replies). case replies of
     [] \<Rightarrow> Hang
   | result # _ \<Rightarrow> go_bind (loop_lines ExpandEnv e w' s' lines) (\<lambda>(w'', s'', out). Ret (w'', s'', report result # out)))"

fun rest_of_run :: "(string \<Rightarrow> string) \<Rightarrow> ('w, 'r, 'b, 'f) env \<Rightarrow> ('w, 'r, 'b, 'f) app_run \<Rightarrow> run_phase \<Rightarrow>
    ('w \<times> ('r JsonPayload, 'b, 'f) ClusterNodeStore \<times> string list) go" where
  "rest_of_run ExpandEnv e s (Scanning lines) =
     close_after e (shown s) (loop_lines ExpandEnv e (run_world s) (run_store s) lines)"
| "rest_of_run ExpandEnv e s (Awaiting lines) = close_after e (shown s) (answer_then ExpandEnv e lines
     (case run_job s of None \<Rightarrow> Ret (run_world s, run_store s, run_replies s)
      | Some (c, args) \<Rightarrow> c e (run_world s) (run_store s) args))"
| "rest_of_run ExpandEnv e s (Ending err) = close_after e (shown s) (Ret (run_world s, run_store s, []))"
| "rest_of_run ExpandEnv e s (Closed_down err) = Ret (run_world s, run_store s, shown s)"
| "rest_of_run ExpandEnv e s Run_over = Ret (run_world s, run_store s, butlast (shown s))"

lemma startLoop_rest: "startLoop ExpandEnv e w st lines = rest_of_run ExpandEnv e (run_init w st lines) (Scanning lines)"
  by (simp add: startLoop_def close_after_def run_init_def ending_lines_def)

definition quiet :: "('w, 'r, 'b, 'f) app_run \<Rightarrow> bool" where
  "quiet s \<longleftrightarrow> (case run_phase s of Awaiting lines \<Rightarrow> True | _ \<Rightarrow> run_job s = None) \<and>
     (case run_phase s of Ending err \<Rightarrow> err = None | Closed_down err \<Rightarrow> err = None
      | Run_over \<Rightarrow> \<exists>out. shown s = out @ [''Shutdown command loop with error: <nil>''] | _ \<Rightarrow> True)"

text \<open>No step forgets an interrupt, and every other step leaves the rest of the run as it is.\<close>

lemma step_interrupted: "run_step ExpandEnv e s s' \<Longrightarrow> interrupted s \<Longrightarrow> interrupted s'"
  by (induction rule: run_step.induct) simp_all

lemma close_after_more: "close_after e out0 (go_bind m (\<lambda>(w, s, out). Ret (w, s, line # out))) = close_after e (out0 @ [line]) m"
  by (cases m) (simp_all add: close_after_def split: prod.split)

lemma step_rest:
  assumes "run_step ExpandEnv e s s'" "\<not> interrupted s'" "quiet s"
  shows "rest_of_run ExpandEnv e s' (run_phase s') = rest_of_run ExpandEnv e s (run_phase s)" "quiet s'"
proof -
  have "rest_of_run ExpandEnv e s' (run_phase s') = rest_of_run ExpandEnv e s (run_phase s) \<and> quiet s'"
    using assms
  proof (induction rule: run_step.induct)
    case (scan_last s lines)
    then show ?case by (simp add: close_after_def quiet_def)
  next
    case (scan_bad s line lines err)
    then show ?case by (simp add: close_after_more quiet_def)
  next
    case (scan_command s line lines c)
    then show ?case by (simp add: answer_then_def quiet_def)
  next
    case (run_command s c args w' st' replies)
    then obtain lines where "run_phase s = Awaiting lines" by (auto simp: quiet_def split: run_phase.splits)
    with run_command show ?case by (simp add: quiet_def)
  next
    case (take_reply s lines result results)
    then show ?case by (simp add: answer_then_def close_after_more quiet_def)
  next
    case (run_close s err w' st' errs)
    then show ?case by (simp add: close_after_def quiet_def)
  next
    case (run_return s err)
    then show ?case by (simp add: quiet_def show_error_def)
  qed (simp_all add: quiet_def)
  then show "rest_of_run ExpandEnv e s' (run_phase s') = rest_of_run ExpandEnv e s (run_phase s)" "quiet s'" by blast+
qed

lemma reachable_rest:
  assumes "run_reachable ExpandEnv e (run_init w st lines) s" "\<not> interrupted s"
  shows "rest_of_run ExpandEnv e s (run_phase s) = startLoop ExpandEnv e w st lines \<and> quiet s"
  using assms
proof (induction rule: run_reachable.induct)
  case run_new
  then show ?case by (simp add: startLoop_rest quiet_def) (simp add: run_init_def)
next
  case (run_next s' s'')
  then have "\<not> interrupted s'" using step_interrupted by blast
  with run_next step_rest [OF run_next.hyps(2) run_next.prems] show ?case by simp
qed

lemma timeout_replies:
  assumes "base e w s args \<noteq> Panic"
  shows "\<exists>w' s' replies. WithTimeoutCommand True base e w s args = Ret (w', s', FromError DeadlineExceeded # replies)"
  using assms by (cases "base e w s args") (auto simp: WithTimeoutCommand_def split: prod.split)

section \<open>Properties\<close>

text \<open>C18. Without an interrupt a run that is over did what \<open>startLoop\<close> does, whenever its commands took effect:
  the same world, the same store and the same lines, and a last line without an error.\<close>
theorem uninterrupted_run:
  assumes "run_reachable ExpandEnv e (run_init w st lines) s" "run_phase s = Run_over" "\<not> interrupted s"
  shows "\<exists>out. startLoop ExpandEnv e w st lines = Ret (run_world s, run_store s, out) \<and>
    shown s = out @ [''Shutdown command loop with error: <nil>'']"
proof -
  have r: "startLoop ExpandEnv e w st lines = Ret (run_world s, run_store s, butlast (shown s))" "quiet s"
    using reachable_rest [OF assms(1,3)] assms(2) by simp_all
  then obtain out where "shown s = out @ [''Shutdown command loop with error: <nil>'']"
    using assms(2) by (auto simp: quiet_def)
  with r(1) show ?thesis by simp
qed

lemma close_new: "Close_nodes os w NewClusterNodeStore = Ret (w, NewClusterNodeStore, [])"
  by (simp add: Close_nodes_def NewClusterNodeStore_def)

text \<open>A short run for the examples: a command without its argument, an unknown command, the end.\<close>

type_synonym calm_run = "(string list, log_info list app_value, PeerMetadata \<times> log_info list app_value, string) app_run"

definition three_lines :: "string list" where
  "three_lines = [''wait'', ''dance'', ''shutdown_app'']"

definition three_reports :: "string list" where
  "three_reports = [''Command Failure: A time to wait should be supplied in ms'', ''Command error: command not found: dance'',
     ''App termination command received'']"

definition over_run :: calm_run where
  "over_run = (run_init [] NewClusterNodeStore three_lines)\<lparr>
     run_replies := [FromErrStr ''A time to wait should be supplied in ms''], run_phase := Run_over,
     shown := three_reports @ [''App termination...'', ''Shutdown command loop with error: <nil>'']\<rparr>"

lemma over_run_reachable: "run_reachable (\<lambda>s. s) calm_env (run_init [] NewClusterNodeStore three_lines) over_run"
proof -
  let ?cmd = "cmd_wait :: (string list, log_info list app_value, PeerMetadata \<times> log_info list app_value, string) command"
  let ?reg = "CommandRegistry :: (string \<times> (string list, log_info list app_value, PeerMetadata \<times> log_info list app_value, string) command) list"
  let ?s = "run_init [] NewClusterNodeStore three_lines :: calm_run"
  let ?reach = "run_reachable (\<lambda>s. s) calm_env ?s"
  let ?r = "FromErrStr ''A time to wait should be supplied in ms''"
  let ?s1 = "?s\<lparr>run_job := Some (?cmd, []), run_replies := [], run_phase := Awaiting [''dance'', ''shutdown_app'']\<rparr>"
  let ?s2 = "?s\<lparr>run_replies := [?r], run_phase := Awaiting [''dance'', ''shutdown_app'']\<rparr>"
  let ?s3 = "?s\<lparr>run_replies := [?r], shown := take 1 three_reports, run_phase := Scanning [''dance'', ''shutdown_app'']\<rparr>"
  let ?s4 = "?s3\<lparr>shown := take 2 three_reports, run_phase := Scanning [''shutdown_app'']\<rparr>"
  let ?s5 = "?s3\<lparr>shown := three_reports, run_phase := Ending None\<rparr>"
  let ?s6 = "?s3\<lparr>shown := three_reports @ [''App termination...''], run_phase := Closed_down None\<rparr>"
  have fields: "Fields (expandEnv (\<lambda>s. s) 3 ''wait'') = [''wait'']" "Fields (expandEnv (\<lambda>s. s) 3 ''dance'') = [''dance'']"
    by code_simp+
  have parse: "Parse (\<lambda>s. s) ?reg ''wait'' = Inr \<lparr>Command = ?cmd, Args = []\<rparr>"
    "Parse (\<lambda>s. s) ?reg ''dance'' = Inl (Errorf ''command not found: dance'')"
    unfolding Parse_def fields by (simp_all add: CommandRegistry_def Register_def)
  have logged: "report ?r = three_reports ! 0" "''Command error: '' @ error_msg (Errorf ''command not found: dance'') = three_reports ! 1"
    by (simp_all add: report_def FromErrStr_def FromError_def three_reports_def)
  have "run_step (\<lambda>s. s) calm_env ?s ?s1"
    using run_step.scan_command [of ?s "''wait''" "[''dance'', ''shutdown_app'']" "\<lambda>s. s" _ calm_env, OF _ _ parse(1)]
    by (simp add: run_init_def three_lines_def TERMINATION_COMMAND_def)
  from run_next [OF run_new this] have 1: "?reach ?s1" .
  have "run_step (\<lambda>s. s) calm_env ?s1 ?s2"
    using run_step.run_command [of ?s1 ?cmd "[]" calm_env "[]" NewClusterNodeStore "[?r]" "\<lambda>s. s"]
    by (simp add: run_init_def cmd_wait_def)
  from run_next [OF 1 this] have 2: "?reach ?s2" .
  have "run_step (\<lambda>s. s) calm_env ?s2 ?s3"
    using run_step.take_reply [of ?s2 "[''dance'', ''shutdown_app'']" ?r "[]" "\<lambda>s. s" calm_env]
    unfolding logged by (simp add: run_init_def three_reports_def)
  from run_next [OF 2 this] have 3: "?reach ?s3" .
  have "run_step (\<lambda>s. s) calm_env ?s3 ?s4"
    using run_step.scan_bad [of ?s3 "''dance''" "[''shutdown_app'']" "\<lambda>s. s" _ calm_env, OF _ _ parse(2)]
    unfolding logged by (simp add: run_init_def TERMINATION_COMMAND_def three_reports_def)
  from run_next [OF 3 this] have 4: "?reach ?s4" .
  have "run_step (\<lambda>s. s) calm_env ?s4 ?s5"
    using run_step.scan_last [of ?s4 "[]" "\<lambda>s. s" calm_env]
    by (simp add: run_init_def TERMINATION_COMMAND_def three_reports_def)
  from run_next [OF 4 this] have 5: "?reach ?s5" .
  have "run_step (\<lambda>s. s) calm_env ?s5 ?s6"
    using run_step.run_close [of ?s5 None calm_env "[]" NewClusterNodeStore "[]"]
    by (simp add: run_init_def close_new ending_lines_def)
  from run_next [OF 5 this] have 6: "?reach ?s6" .
  have "run_step (\<lambda>s. s) calm_env ?s6 over_run"
    using run_step.run_return [of ?s6 None] by (simp add: run_init_def over_run_def show_error_def)
  from run_next [OF 6 this] show ?thesis .
qed

theorem uninterrupted_run_witness:
  "startLoop (\<lambda>s. s) calm_env [] NewClusterNodeStore three_lines =
    Ret ([], NewClusterNodeStore, three_reports @ [''App termination...''])"
  using uninterrupted_run [OF over_run_reachable] by (simp add: over_run_def run_init_def)

text \<open>C17. A run that starts on a new store, is not interrupted and comes to its end, so every command it started
  has returned, has logged exactly one line for each line it read up to and including the first \<open>shutdown_app\<close>, whatever the commands answered, has
  then announced the end, and leaves a store without nodes; closing it did not fail.  What happens while a
  client waits may change the client but keeps its identity.\<close>
theorem loop_serves_and_closes:
  assumes "run_reachable ExpandEnv e (run_init w NewClusterNodeStore lines) s" "run_phase s = Run_over" "\<not> interrupted s"
    and "keeps_identity (env_world e)"
  shows "nodes (run_store s) = [] \<and> node_defaults (run_store s) = [] \<and>
    (\<exists>reports. shown s = reports @ [''App termination...'', ''Shutdown command loop with error: <nil>''] \<and>
      length reports = length (takeWhile (\<lambda>line. line \<noteq> TERMINATION_COMMAND) lines) +
        (if TERMINATION_COMMAND \<in> set lines then 1 else 0))"
proof -
  have r: "startLoop ExpandEnv e w NewClusterNodeStore lines = Ret (run_world s, run_store s, butlast (shown s))" "quiet s"
    using reachable_rest [OF assms(1,3)] assms(2) by simp_all
  obtain out where "shown s = out @ [''Shutdown command loop with error: <nil>'']"
    using r(2) assms(2) by (auto simp: quiet_def)
  with startLoop_serves [OF r(1) assms(4)] show ?thesis by auto
qed

theorem loop_serves_and_closes_witness:
  "\<exists>r1 r2 r3. shown over_run = [r1, r2, r3, ''App termination...'', ''Shutdown command loop with error: <nil>''] \<and>
    nodes (run_store over_run) = []"
proof -
  have keeps: "keeps_identity (env_world calm_env)" by (simp add: keeps_identity_def calm_env_def silence_def)
  have over: "run_phase over_run = Run_over" "\<not> interrupted over_run" by (simp_all add: over_run_def run_init_def)
  have three: "length (takeWhile (\<lambda>line. line \<noteq> TERMINATION_COMMAND) three_lines) = 2" "TERMINATION_COMMAND \<in> set three_lines"
    by (simp_all add: three_lines_def TERMINATION_COMMAND_def)
  obtain reports where "shown over_run = reports @ [''App termination...'', ''Shutdown command loop with error: <nil>'']"
    "length reports = 3" "nodes (run_store over_run) = []"
    using loop_serves_and_closes [OF over_run_reachable over keeps] three by auto
  then show ?thesis by (auto simp: length_Suc_conv eval_nat_numeral)
qed

text \<open>C23. An interrupt always ends the loop: from every interrupted state, also while a command runs that
  never returns, the run can come to its end, provided the nodes can be closed.\<close>
theorem interrupt_ends_run:
  assumes "interrupted s" "Close_nodes (env_os e) (run_world s) (run_store s) = Ret (w', st', errs)"
  shows "\<exists>s'. run_reachable ExpandEnv e s s' \<and> run_phase s' = Run_over"
proof -
  have closed: "\<exists>t'. run_reachable ExpandEnv e s t' \<and> run_phase t' = Run_over"
    if "run_reachable ExpandEnv e s t" "run_phase t = Closed_down err" for t err
    using run_next [OF that(1) run_step.run_return [OF that(2)]] by auto
  have ending: "\<exists>t'. run_reachable ExpandEnv e s t' \<and> run_phase t' = Run_over"
    if "run_reachable ExpandEnv e s t" "run_phase t = Ending err" "run_world t = run_world s" "run_store t = run_store s"
    for t err
    by (rule closed [OF run_next [OF that(1) run_step.run_close [OF that(2), of e w' st' errs]]])
      (simp_all add: that(3,4) assms(2))
  show ?thesis
  proof (cases "run_phase s")
    case (Scanning lines)
    show ?thesis
      by (rule ending [OF run_next [OF run_new run_step.scan_cancelled [OF Scanning assms(1)]]]) simp_all
  next
    case (Awaiting lines)
    show ?thesis
      by (rule ending [OF run_next [OF run_new run_step.await_cancelled [OF Awaiting assms(1)]]]) simp_all
  next
    case (Ending err)
    then show ?thesis by (rule ending [OF run_new]) simp_all
  next
    case (Closed_down err)
    then show ?thesis by (rule closed [OF run_new])
  next
    case Run_over
    then show ?thesis using run_new by blast
  qed
qed

definition stuck_run :: "(string list, log_info list app_value, PeerMetadata \<times> log_info list app_value, string) app_run" where
  "stuck_run = (run_init [] NewClusterNodeStore [])\<lparr>run_phase := Awaiting [], interrupted := True,
     run_job := Some (\<lambda>e w s args. Hang, [])\<rparr>"

theorem interrupt_ends_run_witness:
  "\<exists>s'. run_reachable (\<lambda>s. s) calm_env stuck_run s' \<and> run_phase s' = Run_over"
proof -
  have "interrupted stuck_run" "Close_nodes (env_os calm_env) (run_world stuck_run) (run_store stuck_run) =
      Ret ([], NewClusterNodeStore, [])" by (simp_all add: stuck_run_def run_init_def close_new)
  then show ?thesis by (rule interrupt_ends_run)
qed

text \<open>C36. After an interrupt the loop does not wait for the command that runs: it closes the store, and the
  command, which takes effect afterwards, leaves a started server in a store that is taken to be closed.\<close>
theorem command_outlives_close:
  "\<exists>s. run_reachable (\<lambda>s. s) calm_env (run_init [] NewClusterNodeStore [''create_cluster_server s_addr2'']) s \<and>
     run_phase s = Run_over \<and> nodes (run_store s) \<noteq> []"
proof -
  let ?line = "''create_cluster_server s_addr2''"
  let ?cmd = "cmd_create_cluster_server :: (string list, log_info list app_value, PeerMetadata \<times> log_info list app_value, string) command"
  let ?s = "run_init [] NewClusterNodeStore [?line] :: (string list, log_info list app_value, PeerMetadata \<times> log_info list app_value, string) app_run"
  let ?wait = "?s\<lparr>run_job := Some (?cmd, [''s_addr2'']), run_replies := [], run_phase := Awaiting []\<rparr>"
  let ?cut = "?wait\<lparr>interrupted := True\<rparr>"
  let ?ending = "?cut\<lparr>run_phase := Ending (Some Canceled)\<rparr>"
  let ?closed = "?ending\<lparr>shown := [''App termination...''], run_phase := Closed_down (Some Canceled)\<rparr>"
  let ?over = "?closed\<lparr>shown := shown ?closed @ [''Shutdown command loop with error: '' @ show_error (Some Canceled)], run_phase := Run_over\<rparr>"
  have fields: "Fields (expandEnv (\<lambda>s. s) 3 ?line) = [''create_cluster_server'', ''s_addr2'']" by code_simp
  have parse: "Parse (\<lambda>s. s) CommandRegistry ?line = Inr \<lparr>Command = ?cmd, Args = [''s_addr2'']\<rparr>"
    unfolding Parse_def fields by (simp add: CommandRegistry_def Register_def)
  have "run_step (\<lambda>s. s) calm_env ?s ?wait"
    using run_step.scan_command [of ?s ?line "[]" "\<lambda>s. s" _ calm_env, OF _ _ parse]
    by (simp add: run_init_def TERMINATION_COMMAND_def)
  from run_next [OF run_new this] have "run_reachable (\<lambda>s. s) calm_env ?s ?wait" .
  from run_next [OF this run_step.run_signal] have "run_reachable (\<lambda>s. s) calm_env ?s ?cut" .
  from run_next [OF this run_step.await_cancelled [of ?cut "[]"]] have "run_reachable (\<lambda>s. s) calm_env ?s ?ending" by simp
  moreover have "run_step (\<lambda>s. s) calm_env ?ending ?closed"
    using run_step.run_close [of ?ending "Some Canceled" calm_env "[]" NewClusterNodeStore "[]"]
    by (simp add: run_init_def close_new ending_lines_def)
  ultimately have "run_reachable (\<lambda>s. s) calm_env ?s ?closed" by (rule run_next)
  from run_next [OF this run_step.run_return [of ?closed "Some Canceled"]]
  have over: "run_reachable (\<lambda>s. s) calm_env ?s ?over" by simp
  have "case ?cmd calm_env [] NewClusterNodeStore [''s_addr2''] of Ret (w, st, rs) \<Rightarrow> nodes st \<noteq> [] | _ \<Rightarrow> False"
    by code_simp
  then obtain w st rs where run: "?cmd calm_env [] NewClusterNodeStore [''s_addr2''] = Ret (w, st, rs)" "nodes st \<noteq> []"
    by (auto split: go.splits)
  have "run_step (\<lambda>s. s) calm_env ?over (?over\<lparr>run_world := w, run_store := st, run_job := None, run_replies := rs\<rparr>)"
    using run_step.run_command [of ?over ?cmd "[''s_addr2'']" calm_env w st rs "\<lambda>s. s"] run(1)
    by (simp add: run_init_def)
  from run_next [OF over this] run(2) show ?thesis by (intro exI conjI) auto
qed

end
