(* ===== verification/Logs.thy ===== *)
theory Logs
  imports Commands
begin

text \<open>
  Logging, \<open>log/mutex.go\<close> and \<open>log/formatted.go\<close>: one mutex per writer, handed out under the lock of the
  logger, and lines formatted by \<open>fmt.Sprintf\<close> with a prefix.  The first part is what is written, the second
  the goroutines that write at the same time.
\<close>

section \<open>Formatting\<close>

text \<open>\<open>fmt.Sprintf\<close> as the logger uses it: arguments are strings and errors, given as their texts.  What
  follows a percent sign may be any text, as the content of a file is part of a format: flags, width,
  precision and the verb.  \<open>None\<close> stands for what is not modelled: a verb other than \<open>s\<close> and \<open>v\<close> or one with
  flags that still has an argument, too many arguments, argument indices, a width taken from an
  argument, numbers of more than six digits and verbs outside ASCII.\<close>

definition is_flag :: "char \<Rightarrow> bool" where
  "is_flag c \<longleftrightarrow> c \<in> set ''#0+- ''"

definition skip_number :: "string \<Rightarrow> string option" where
  "skip_number cs = (let n = length (takeWhile (\<lambda>c. c \<in> set ''0123456789'') cs) in
     if n \<le> 6 then Some (drop n cs) else None)"

definition to_verb :: "string \<Rightarrow> string option" where
  "to_verb cs = (case skip_number (dropWhile is_flag cs) of
       None \<Rightarrow> None
     | Some r \<Rightarrow> if r \<noteq> [] \<and> hd r = CHR ''.'' then skip_number (tl r) else Some r)"

lemma skip_number_length: "skip_number cs = Some r \<Longrightarrow> length r \<le> length cs"
  by (auto simp: skip_number_def Let_def split: if_splits)

lemma to_verb_length: "to_verb cs = Some r \<Longrightarrow> length r \<le> length cs"
  using length_dropWhile_le [of is_flag cs]
  by (auto simp: to_verb_def split: option.splits if_splits dest!: skip_number_length)

function go_sprintf :: "string \<Rightarrow> string list \<Rightarrow> string option" where
  "go_sprintf [] args = (if args = [] then Some [] else None)"
| "go_sprintf (c # cs) args =
     (if c \<noteq> CHR ''%'' then map_option (Cons c) (go_sprintf cs args)
      else case to_verb cs of
          None \<Rightarrow> None
        | Some [] \<Rightarrow> if args = [] then Some ''%!(NOVERB)'' else None
        | Some (v # vs) \<Rightarrow>
            (if v = CHR ''%'' then map_option (Cons v) (go_sprintf vs args)
             else if v \<in> set ''[*!'' \<or> 128 \<le> (of_char v :: nat) then None
             else case args of
                 [] \<Rightarrow> map_option (\<lambda>s. ''%!'' @ v # ''(MISSING)'' @ s) (go_sprintf vs [])
               | a # more_args \<Rightarrow>
                   (if cs = v # vs \<and> v \<in> set ''sv'' then map_option (\<lambda>s. a @ s) (go_sprintf vs more_args) else None)))"
  by pat_completeness auto
termination
  by (relation "measure (\<lambda>(cs, args). length cs)") (auto dest: to_verb_length)

lemma sprintf_plain:
  assumes "CHR ''%'' \<notin> set s"
  shows "go_sprintf (s @ t) args = map_option (\<lambda>r. s @ r) (go_sprintf t args)"
  using assms by (induction s; cases "go_sprintf t args") auto

definition FORMAT_PREFIX :: string where "FORMAT_PREFIX = ''[%s] ''"

definition NlLog :: "string \<Rightarrow> string list \<Rightarrow> string option" where
  "NlLog content args = map_option (\<lambda>s. s @ [CHR 0x0A]) (go_sprintf content args)"

definition PrefNlog :: "string \<Rightarrow> string \<Rightarrow> string list \<Rightarrow> string option" where
  "PrefNlog pref content args = NlLog (FORMAT_PREFIX @ content @ '' '') (pref # args)"

section \<open>Loggers\<close>

text \<open>The streams of the configuration are a type \<open>'o\<close> with the cast of a value to it.\<close>

definition LoggerDefaultConfig :: "('v \<Rightarrow> 'o option) \<Rightarrow> 'o \<Rightarrow> (string \<times> 'v) list \<Rightarrow> 'o" where
  "LoggerDefaultConfig as_stream stdout args = GetOrDefault as_stream args ''outStream'' stdout"

record 'o FormattedMutexLogger =
  out_stream :: 'o
  idPrefix :: string

definition logger_CreateFromArgs ::
  "('v \<Rightarrow> 'o option) \<Rightarrow> 'o \<Rightarrow> string \<Rightarrow> (string \<times> 'v) list \<Rightarrow> 'o FormattedMutexLogger" where
  "logger_CreateFromArgs as_stream stdout pref args =
     \<lparr>out_stream = LoggerDefaultConfig as_stream stdout args, idPrefix = pref\<rparr>"

definition logger_Create :: "('v \<Rightarrow> 'o option) \<Rightarrow> 'o \<Rightarrow> string \<Rightarrow> 'o FormattedMutexLogger" where
  "logger_Create as_stream stdout pref =
     \<lparr>out_stream = LoggerDefaultConfig as_stream stdout [], idPrefix = pref\<rparr>"

text \<open>\<open>Log\<close> as the call of the mutex logger: the writer and the text for it.\<close>

definition formatted_Log :: "'o FormattedMutexLogger \<Rightarrow> string \<Rightarrow> string list \<Rightarrow> 'o \<times> string option" where
  "formatted_Log l content args = (out_stream l, PrefNlog (idPrefix l) content args)"

section \<open>Writing at the same time\<close>

record 'o MutexLogger =
  writerLocks :: "('o \<times> nat) list"
  next_mutex :: nat

definition NewMutexLogger :: "'o MutexLogger" where
  "NewMutexLogger = \<lparr>writerLocks = [], next_mutex = 0\<rparr>"

text \<open>\<open>getMutex\<close>, in the critical section of the logger; a new mutex is the next number.\<close>

definition getMutex :: "'o MutexLogger \<Rightarrow> 'o \<Rightarrow> 'o MutexLogger \<times> nat" where
  "getMutex l w = (case map_of (writerLocks l) w of
       Some m \<Rightarrow> (l, m)
     | None \<Rightarrow> (l\<lparr>writerLocks := (w, next_mutex l) # writerLocks l, next_mutex := next_mutex l + 1\<rparr>, next_mutex l))"

text \<open>A goroutine in \<open>Log\<close>: before \<open>getMutex\<close>, waiting for the mutex, in the function with what it has still
  to write, or returned.\<close>

datatype log_phase = Calling | Locking nat | Writing nat "string list" | Returned

record ('o, 'g) logging =
  mutex_logger :: "'o MutexLogger"
  holder :: "nat \<Rightarrow> 'g option"
  written :: "'o \<Rightarrow> string list"
  phase :: "'g \<Rightarrow> log_phase"

definition logging_init :: "('o, 'g) logging" where
  "logging_init = \<lparr>mutex_logger = NewMutexLogger, holder = (\<lambda>m. None), written = (\<lambda>w. []), phase = (\<lambda>g. Calling)\<rparr>"

text \<open>\<open>to g\<close> is the writer of goroutine \<open>g\<close>, \<open>texts g\<close> what its function writes to it.\<close>

inductive log_step :: "('g \<Rightarrow> 'o) \<Rightarrow> ('g \<Rightarrow> string list) \<Rightarrow> ('o, 'g) logging \<Rightarrow> ('o, 'g) logging \<Rightarrow> bool" for to texts where
  get_mutex: "phase s g = Calling \<Longrightarrow> getMutex (mutex_logger s) (to g) = (l, m) \<Longrightarrow>
     log_step to texts s (s\<lparr>mutex_logger := l, phase := (phase s)(g := Locking m)\<rparr>)"
| lock_mutex: "phase s g = Locking m \<Longrightarrow> holder s m = None \<Longrightarrow>
     log_step to texts s (s\<lparr>holder := (holder s)(m := Some g), phase := (phase s)(g := Writing m (texts g))\<rparr>)"
| write_text: "phase s g = Writing m (t # ts) \<Longrightarrow>
     log_step to texts s (s\<lparr>written := (written s)(to g := written s (to g) @ [t]),
       phase := (phase s)(g := Writing m ts)\<rparr>)"
| unlock_mutex: "phase s g = Writing m [] \<Longrightarrow>
     log_step to texts s (s\<lparr>holder := (holder s)(m := None), phase := (phase s)(g := Returned)\<rparr>)"

inductive log_reachable :: "('g \<Rightarrow> 'o) \<Rightarrow> ('g \<Rightarrow> string list) \<Rightarrow> ('o, 'g) logging \<Rightarrow> bool" for to texts where
  log_new: "log_reachable to texts logging_init"
| log_next: "log_reachable to texts s \<Longrightarrow> log_step to texts s s' \<Longrightarrow> log_reachable to texts s'"

section \<open>The invariant\<close>

definition writing :: "('g \<Rightarrow> 'o) \<Rightarrow> ('o, 'g) logging \<Rightarrow> 'o \<Rightarrow> bool" where
  "writing to s w \<longleftrightarrow> (\<exists>g m ts. to g = w \<and> phase s g = Writing m ts)"

text \<open>What is on a writer: the texts of the goroutines that returned, one after the other, and the part
  that the one in the function has written.\<close>

definition whole_calls :: "('g \<Rightarrow> 'o) \<Rightarrow> ('g \<Rightarrow> string list) \<Rightarrow> ('o, 'g) logging \<Rightarrow> 'o \<Rightarrow> 'g list \<Rightarrow> bool" where
  "whole_calls to texts s w order \<longleftrightarrow>
     distinct order \<and> set order = {g. to g = w \<and> phase s g = Returned} \<and>
     (\<not> writing to s w \<longrightarrow> written s w = concat (map texts order)) \<and>
     (\<forall>g m ts. to g = w \<longrightarrow> phase s g = Writing m ts \<longrightarrow>
        (\<exists>pre. texts g = pre @ ts \<and> written s w = concat (map texts order) @ pre))"

lemma whole_calls_cong:
  assumes "\<And>g m ts. to g = w \<Longrightarrow> phase s' g = Writing m ts \<longleftrightarrow> phase s g = Writing m ts"
    "\<And>g. to g = w \<Longrightarrow> phase s' g = Returned \<longleftrightarrow> phase s g = Returned" "written s' w = written s w"
  shows "whole_calls to texts s' w order \<longleftrightarrow> whole_calls to texts s w order"
proof -
  have "{g. to g = w \<and> phase s' g = Returned} = {g. to g = w \<and> phase s g = Returned}" using assms(2) by blast
  moreover have "writing to s' w \<longleftrightarrow> writing to s w" using assms(1) by (auto simp: writing_def)
  moreover have "(to g = w \<longrightarrow> phase s' g = Writing m ts \<longrightarrow> P) \<longleftrightarrow> (to g = w \<longrightarrow> phase s g = Writing m ts \<longrightarrow> P)" for g m ts P
    using assms(1) by blast
  ultimately show ?thesis unfolding whole_calls_def assms(3) by simp
qed

definition log_ok :: "('g \<Rightarrow> 'o) \<Rightarrow> ('g \<Rightarrow> string list) \<Rightarrow> ('o, 'g) logging \<Rightarrow> bool" where
  "log_ok to texts s \<longleftrightarrow>
     (\<forall>w m. map_of (writerLocks (mutex_logger s)) w = Some m \<longrightarrow> m < next_mutex (mutex_logger s)) \<and>
     (\<forall>w w' m. map_of (writerLocks (mutex_logger s)) w = Some m \<longrightarrow>
        map_of (writerLocks (mutex_logger s)) w' = Some m \<longrightarrow> w = w') \<and>
     (\<forall>g m. phase s g = Locking m \<or> (\<exists>ts. phase s g = Writing m ts) \<longrightarrow>
        map_of (writerLocks (mutex_logger s)) (to g) = Some m) \<and>
     (\<forall>g m. holder s m = Some g \<longleftrightarrow> (\<exists>ts. phase s g = Writing m ts)) \<and>
     (\<forall>w. \<exists>order. whole_calls to texts s w order)"

lemma log_okD:
  assumes "log_ok to texts s"
  shows "map_of (writerLocks (mutex_logger s)) w = Some m \<Longrightarrow> m < next_mutex (mutex_logger s)"
    and "map_of (writerLocks (mutex_logger s)) w = Some m \<Longrightarrow> map_of (writerLocks (mutex_logger s)) w' = Some m \<Longrightarrow> w = w'"
    and "phase s g = Locking m \<Longrightarrow> map_of (writerLocks (mutex_logger s)) (to g) = Some m"
    and "phase s g = Writing m ts \<Longrightarrow> map_of (writerLocks (mutex_logger s)) (to g) = Some m"
    and "holder s m = Some g \<longleftrightarrow> (\<exists>ts. phase s g = Writing m ts)"
    and "\<exists>order. whole_calls to texts s w order"
  using assms unfolding log_ok_def by blast+

lemma log_okI:
  assumes "\<And>w m. map_of (writerLocks (mutex_logger s)) w = Some m \<Longrightarrow> m < next_mutex (mutex_logger s)"
    and "\<And>w w' m. map_of (writerLocks (mutex_logger s)) w = Some m \<Longrightarrow>
      map_of (writerLocks (mutex_logger s)) w' = Some m \<Longrightarrow> w = w'"
    and "\<And>g m. phase s g = Locking m \<or> (\<exists>ts. phase s g = Writing m ts) \<Longrightarrow>
      map_of (writerLocks (mutex_logger s)) (to g) = Some m"
    and "\<And>g m. holder s m = Some g \<longleftrightarrow> (\<exists>ts. phase s g = Writing m ts)"
    and "\<And>w. \<exists>order. whole_calls to texts s w order"
  shows "log_ok to texts s"
  unfolding log_ok_def using assms by blast

text \<open>The mutex keeps a second goroutine from writing to the same writer.\<close>

lemma one_writer:
  assumes "log_ok to texts s" "to g = to g'" "phase s g = Writing m ts" "phase s g' = Writing m' ts'"
  shows "g = g'"
proof -
  have "m = m'" using log_okD(4) [OF assms(1,3)] log_okD(4) [OF assms(1,4)] assms(2) by simp
  with assms(3,4) have "holder s m = Some g" "holder s m = Some g'" using log_okD(5) [OF assms(1)] by blast+
  then show ?thesis by simp
qed

lemma free_not_writing:
  assumes "log_ok to texts s" "phase s g = Locking m" "holder s m = None"
  shows "\<not> writing to s (to g)"
proof
  assume "writing to s (to g)"
  then obtain g' m' ts where w: "to g' = to g" "phase s g' = Writing m' ts" by (auto simp: writing_def)
  then have "m' = m" using log_okD(4) [OF assms(1) w(2)] log_okD(3) [OF assms(1,2)] by simp
  with w have "holder s m = Some g'" using log_okD(5) [OF assms(1)] by blast
  with assms(3) show False by simp
qed

lemma log_ok_init: "log_ok to texts logging_init"
  by (auto simp: log_ok_def logging_init_def NewMutexLogger_def whole_calls_def writing_def intro: exI [of _ "[]"])

lemma log_ok_step:
  assumes "log_step to texts s s'" and ok: "log_ok to texts s"
  shows "log_ok to texts s'"
  using assms(1)
proof cases
  case (get_mutex g l m)
  have keep: "map_of (writerLocks l) w = Some m'" if "map_of (writerLocks (mutex_logger s)) w = Some m'" for w m'
    using get_mutex(3) that by (auto simp: getMutex_def split: option.splits)
  have new: "map_of (writerLocks l) (to g) = Some m" using get_mutex(3) by (auto simp: getMutex_def split: option.splits)
  have "phase s' g' = Writing m' ts \<longleftrightarrow> phase s g' = Writing m' ts" "phase s' g' = Returned \<longleftrightarrow> phase s g' = Returned"
    "written s' w = written s w" for g' m' ts w
    using get_mutex(1,2) by auto
  then have same: "whole_calls to texts s' w order \<longleftrightarrow> whole_calls to texts s w order" for w order
    by (intro whole_calls_cong)
  have "map_of (writerLocks l) w = Some m' \<Longrightarrow> m' < next_mutex l" for w m'
    using get_mutex(3) log_okD(1) [OF ok, of w m'] by (auto simp: getMutex_def split: option.splits if_splits)
  moreover have "map_of (writerLocks l) w = Some m' \<Longrightarrow> map_of (writerLocks l) w' = Some m' \<Longrightarrow> w = w'" for w w' m'
    using get_mutex(3) log_okD(1) [OF ok, of _ m'] log_okD(2) [OF ok, of w m' w']
    by (auto simp: getMutex_def split: option.splits if_splits)
  ultimately show ?thesis
    unfolding log_ok_def same using get_mutex(1,2) keep new log_okD(3-6) [OF ok] by auto
next
  case (lock_mutex g m)
  note free = free_not_writing [OF ok lock_mutex(2,3)]
  have unheld: "phase s g' \<noteq> Writing m ts" for g' ts using log_okD(5) [OF ok, of m g'] lock_mutex(3) by auto
  have "\<exists>order. whole_calls to texts s' w order" for w
  proof -
    obtain order where "whole_calls to texts s w order" using log_okD(6) [OF ok] by blast
    with lock_mutex free have "whole_calls to texts s' w order" by (auto simp: whole_calls_def writing_def)
    then show ?thesis ..
  qed
  then show ?thesis
    unfolding log_ok_def using lock_mutex unheld log_okD(1-5) [OF ok] by auto
next
  case (write_text g m t ts)
  have phases: "phase s' g' = (if g' = g then Writing m ts else phase s g')" for g' using write_text(1) by simp
  have "\<exists>order. whole_calls to texts s' w order" for w
  proof -
    obtain order where o: "whole_calls to texts s w order" using log_okD(6) [OF ok] by blast
    show ?thesis
    proof (cases "w = to g")
      case True
      with o write_text(2) obtain pre where pre: "texts g = pre @ t # ts" "written s w = concat (map texts order) @ pre"
        unfolding whole_calls_def by metis
      have "\<exists>pre. texts g' = pre @ ts' \<and> written s' w = concat (map texts order) @ pre"
        if "to g' = w" "phase s' g' = Writing m' ts'" for g' m' ts'
      proof -
        have "g' = g" using one_writer [OF ok _ _ write_text(2), of g'] that True phases [of g'] by (metis (full_types))
        with that(2) pre write_text(1) True show ?thesis by (intro exI [of _ "pre @ [t]"]) simp
      qed
      moreover have "{g'. to g' = w \<and> phase s' g' = Returned} = {g'. to g' = w \<and> phase s g' = Returned}"
        using write_text(2) by (auto simp: phases)
      moreover have "writing to s' w" using True phases [of g] by (auto simp: writing_def)
      ultimately have "whole_calls to texts s' w order" using o by (simp add: whole_calls_def)
      then show ?thesis ..
    next
      case False
      then have "whole_calls to texts s' w order \<longleftrightarrow> whole_calls to texts s w order"
        using write_text(1) by (intro whole_calls_cong) auto
      with o have "whole_calls to texts s' w order" by blast
      then show ?thesis ..
    qed
  qed
  then show ?thesis
    unfolding log_ok_def using write_text log_okD(1-5) [OF ok] by auto
next
  case (unlock_mutex g m)
  have mine: "holder s m' = Some g \<Longrightarrow> m' = m" for m' using log_okD(5) [OF ok] unlock_mutex(2) by auto
  have "\<exists>order. whole_calls to texts s' w order" for w
  proof -
    obtain order where o: "whole_calls to texts s w order" using log_okD(6) [OF ok] by blast
    show ?thesis
    proof (cases "w = to g")
      case True
      have all: "written s w = concat (map texts (order @ [g]))" "g \<notin> set order"
        using o unlock_mutex(2) True by (auto simp: whole_calls_def)
      have none: "phase s g' \<noteq> Writing m' ts'" if "g' \<noteq> g" "to g' = w" for g' m' ts'
        using one_writer [OF ok _ _ unlock_mutex(2)] that True by metis
      have free: "phase s' g' \<noteq> Writing m' ts'" if "to g' = w" for g' m' ts'
        using none [OF _ that, of m' ts'] unlock_mutex(1) by (cases "g' = g") simp_all
      then have "\<not> writing to s' w" by (auto simp: writing_def)
      moreover have "{g'. to g' = w \<and> phase s' g' = Returned} = insert g {g'. to g' = w \<and> phase s g' = Returned}"
        using unlock_mutex(1) True by auto
      moreover have "written s' w = concat (map texts (order @ [g]))" using all(1) unlock_mutex(1) by simp
      ultimately have "whole_calls to texts s' w (order @ [g])"
        using o all(2) free by (simp add: whole_calls_def)
      then show ?thesis ..
    next
      case False
      then have "whole_calls to texts s' w order \<longleftrightarrow> whole_calls to texts s w order"
        using unlock_mutex(1) by (intro whole_calls_cong) auto
      with o have "whole_calls to texts s' w order" by blast
      then show ?thesis ..
    qed
  qed
  note orders = this
  have same: "mutex_logger s' = mutex_logger s" using unlock_mutex(1) by simp
  show ?thesis
  proof (rule log_okI)
    show "holder s' m' = Some g' \<longleftrightarrow> (\<exists>ts. phase s' g' = Writing m' ts)" for g' m'
    proof (cases "g' = g")
      case True
      have "holder s' m' \<noteq> Some g" using unlock_mutex(1) mine [of m'] by (cases "m' = m") auto
      then show ?thesis using True unlock_mutex(1) by simp
    next
      case False
      have "holder s m = Some g" using log_okD(5) [OF ok, of m g] unlock_mutex(2) by blast
      with False have "holder s' m' = Some g' \<longleftrightarrow> holder s m' = Some g'" using unlock_mutex(1) by auto
      with False show ?thesis using log_okD(5) [OF ok, of m' g'] unlock_mutex(1) by simp
    qed
    show "map_of (writerLocks (mutex_logger s')) (to g') = Some m'"
      if "phase s' g' = Locking m' \<or> (\<exists>ts. phase s' g' = Writing m' ts)" for g' m'
      using log_okD(3,4) [OF ok, of g' m'] unlock_mutex(1) that by (cases "g' = g") auto
    show "\<exists>order. whole_calls to texts s' w order" for w by (rule orders)
  qed (unfold same, fact log_okD(1) [OF ok], fact log_okD(2) [OF ok])
qed

lemma log_reachable_ok: "log_reachable to texts s \<Longrightarrow> log_ok to texts s"
  by (induction rule: log_reachable.induct) (auto intro: log_ok_init log_ok_step)

text \<open>The holder of a mutex can always go on, and a call that has not returned has a next step or waits for
  one that has.\<close>

lemma writer_goes_on:
  assumes "phase s g = Writing m ts"
  shows "\<exists>s'. log_step to texts s s'"
proof (cases ts)
  case Nil
  then show ?thesis using log_step.unlock_mutex [of s g m to texts] assms by auto
next
  case (Cons t ts')
  then show ?thesis using log_step.write_text [of s g m t ts' to texts] assms by auto
qed

lemma log_goes_on:
  assumes "log_reachable to texts s" "phase s g \<noteq> Returned"
  shows "\<exists>s'. log_step to texts s s'"
proof (cases "phase s g")
  case Calling
  then show ?thesis using log_step.get_mutex by (metis prod.collapse)
next
  case (Locking m)
  show ?thesis
  proof (cases "holder s m")
    case None
    then show ?thesis using log_step.lock_mutex [OF Locking] by blast
  next
    case (Some g')
    then obtain ts where "phase s g' = Writing m ts" using log_okD(5) [OF log_reachable_ok [OF assms(1)]] by blast
    then show ?thesis by (rule writer_goes_on)
  qed
next
  case (Writing m ts)
  then show ?thesis by (rule writer_goes_on)
qed (use assms(2) in simp)

section \<open>Properties\<close>

text \<open>C22. Lines do not mix: whatever the goroutines do, a writer that none of them is writing to holds the texts
  of the calls that have returned, each whole and once, in some order.\<close>
theorem log_calls_are_whole:
  assumes "log_reachable to texts s" "\<forall>g m ts. to g = w \<longrightarrow> phase s g \<noteq> Writing m ts"
  shows "\<exists>order. distinct order \<and> set order = {g. to g = w \<and> phase s g = Returned} \<and>
    written s w = concat (map texts order)"
proof -
  obtain order where o: "whole_calls to texts s w order" using log_okD(6) [OF log_reachable_ok [OF assms(1)]] by blast
  have "\<not> writing to s w" using assms(2) by (auto simp: writing_def)
  with o show ?thesis by (auto simp: whole_calls_def)
qed

definition one_call :: "(nat, nat) logging" where
  "one_call = \<lparr>mutex_logger = \<lparr>writerLocks = [(0, 0)], next_mutex = 1\<rparr>, holder = (\<lambda>m. None),
     written = (\<lambda>w. if w = 0 then [''hello''] else []), phase = (\<lambda>g. if g = 7 then Returned else Calling)\<rparr>"

lemma one_call_reachable: "log_reachable (\<lambda>g. 0) (\<lambda>g. [''hello'']) one_call"
proof -
  let ?run = "log_reachable (\<lambda>g::nat. 0::nat) (\<lambda>g. [''hello''])"
  let ?l = "\<lparr>writerLocks = [(0, 0)], next_mutex = 1\<rparr> :: nat MutexLogger"
  from log_next [OF log_new log_step.get_mutex [of _ 7 "\<lambda>g. 0" ?l 0]]
  have "?run (logging_init\<lparr>mutex_logger := ?l, phase := (phase logging_init)(7 := Locking 0)\<rparr>)"
    by (simp add: logging_init_def getMutex_def NewMutexLogger_def)
  from log_next [OF this log_step.lock_mutex [of _ 7 0]]
  have "?run \<lparr>mutex_logger = ?l, holder = (\<lambda>m. None)(0 := Some 7), written = (\<lambda>w. []),
      phase = (\<lambda>g. Calling)(7 := Writing 0 [''hello''])\<rparr>" by (simp add: logging_init_def)
  from log_next [OF this log_step.write_text [of _ 7 0]]
  have "?run \<lparr>mutex_logger = ?l, holder = (\<lambda>m. None)(0 := Some 7), written = (\<lambda>w. [])(0 := [''hello'']),
      phase = (\<lambda>g. Calling)(7 := Writing 0 [])\<rparr>" by simp
  from log_next [OF this log_step.unlock_mutex [of _ 7 0]]
  have "?run \<lparr>mutex_logger = ?l, holder = (\<lambda>m. None), written = (\<lambda>w. [])(0 := [''hello'']),
      phase = (\<lambda>g. Calling)(7 := Returned)\<rparr>" by (simp add: fun_upd_def cong: if_cong)
  moreover have "one_call = \<lparr>mutex_logger = ?l, holder = (\<lambda>m. None), written = (\<lambda>w. [])(0 := [''hello'']),
      phase = (\<lambda>g. Calling)(7 := Returned)\<rparr>" by (simp add: one_call_def fun_eq_iff)
  ultimately show ?thesis by simp
qed

theorem log_calls_are_whole_witness:
  "\<exists>order. set order = {7::nat} \<and> [''hello''] = concat (map (\<lambda>g. [''hello'']) order)"
proof -
  have call: "{g. phase one_call g = Returned} = {7}" "written one_call 0 = [''hello'']"
    "\<forall>g m ts. phase one_call g \<noteq> Writing m ts" by (auto simp: one_call_def)
  obtain order where "set order = {g. phase one_call g = Returned}"
    "written one_call 0 = concat (map (\<lambda>g. [''hello'']) order)"
    using log_calls_are_whole [OF one_call_reachable, of 0] call(3) by auto
  with call(1,2) show ?thesis by metis
qed

text \<open>C35. The loop hands the text of a reply to the logger as the format of a line.  A text without a percent sign
  is shown as it is; one that holds, say, \<open>100%d\<close> is not: what follows the sign is taken for a verb whose
  argument is missing.\<close>
theorem reply_as_format:
  "(CHR ''%'' \<notin> set (report result) \<longrightarrow>
     snd (formatted_Log (logger_Create as_stream stdout ''COMMAND'') (report result) []) =
       Some (''[COMMAND] '' @ report result @ '' '' @ [CHR 0x0A])) \<and>
   (report result = pre @ CHR ''%'' # verb # post \<and> CHR ''%'' \<notin> set (pre @ post) \<and> verb \<in> set ''dsvxqt'' \<longrightarrow>
     snd (formatted_Log (logger_Create as_stream stdout ''COMMAND'') (report result) []) =
       Some (''[COMMAND] '' @ pre @ ''%!'' @ verb # ''(MISSING)'' @ post @ '' '' @ [CHR 0x0A]))"
proof -
  have start: "PrefNlog ''COMMAND'' content [] = map_option (\<lambda>r. ''[COMMAND] '' @ r @ [CHR 0x0A]) (go_sprintf (content @ '' '') [])"
    for content
    by (cases "go_sprintf (content @ '' '') []")
      (simp_all add: PrefNlog_def NlLog_def FORMAT_PREFIX_def to_verb_def skip_number_def is_flag_def Let_def)
  have plain: "go_sprintf (content @ '' '') [] = Some (content @ '' '')" if "CHR ''%'' \<notin> set content" for content
    using sprintf_plain [of "content @ '' ''" "[]" "[]"] that by simp
  have verb: "to_verb (verb # r) = Some (verb # r)" "verb \<noteq> CHR ''%''" "verb \<notin> set ''[*!''" "\<not> 128 \<le> (of_char verb :: nat)"
    if "verb \<in> set ''dsvxqt''" for r
  proof -
    from that have "verb = CHR ''d'' \<or> verb = CHR ''s'' \<or> verb = CHR ''v'' \<or> verb = CHR ''x'' \<or> verb = CHR ''q'' \<or> verb = CHR ''t''"
      by simp
    then show "to_verb (verb # r) = Some (verb # r)" "verb \<noteq> CHR ''%''" "verb \<notin> set ''[*!''" "\<not> 128 \<le> (of_char verb :: nat)"
      by (elim disjE; simp add: to_verb_def skip_number_def is_flag_def Let_def)+
  qed
  have bad: "go_sprintf ((pre @ CHR ''%'' # verb # post) @ '' '') [] = Some (pre @ ''%!'' @ verb # ''(MISSING)'' @ post @ '' '')"
    if "CHR ''%'' \<notin> set (pre @ post)" "verb \<in> set ''dsvxqt''"
  proof -
    have "CHR ''%'' \<notin> set pre" "CHR ''%'' \<notin> set post" using that(1) by simp_all
    then show ?thesis
      unfolding append_assoc append_Cons sprintf_plain [OF \<open>CHR ''%'' \<notin> set pre\<close>]
      using plain [of post] verb(1) [OF that(2)] verb(2-4) [OF that(2)] by simp
  qed
  show ?thesis
  proof (intro conjI impI)
    assume "CHR ''%'' \<notin> set (report result)"
    then show "snd (formatted_Log (logger_Create as_stream stdout ''COMMAND'') (report result) []) =
       Some (''[COMMAND] '' @ report result @ '' '' @ [CHR 0x0A])"
      by (simp add: formatted_Log_def logger_Create_def start plain)
  next
    assume a: "report result = pre @ CHR ''%'' # verb # post \<and> CHR ''%'' \<notin> set (pre @ post) \<and> verb \<in> set ''dsvxqt''"
    then have "go_sprintf (report result @ '' '') [] = Some (pre @ ''%!'' @ verb # ''(MISSING)'' @ post @ '' '')"
      using bad by metis
    then show "snd (formatted_Log (logger_Create as_stream stdout ''COMMAND'') (report result) []) =
       Some (''[COMMAND] '' @ pre @ ''%!'' @ verb # ''(MISSING)'' @ post @ '' '' @ [CHR 0x0A])"
      by (simp add: formatted_Log_def logger_Create_def start)
  qed
qed

theorem reply_as_format_witness:
  "snd (formatted_Log (logger_Create Some (0::nat) ''COMMAND'')
     (report (FromSuccess ''read'' (Some ''100%done''))) []) =
   Some (''[COMMAND] Command Success: read'' @ CHR 0x0A # ''100%!d(MISSING)one '' @ [CHR 0x0A])"
proof -
  have shown: "report (FromSuccess ''read'' (Some ''100%done'')) =
      (''Command Success: read'' @ CHR 0x0A # ''100'') @ CHR ''%'' # CHR ''d'' # ''one''"
    by (simp add: report_def FromSuccess_def)
  show ?thesis
    using reply_as_format [of "FromSuccess ''read'' (Some ''100%done'')" Some "0::nat"
        "''Command Success: read'' @ CHR 0x0A # ''100''" "CHR ''d''" "''one''"]
    unfolding shown by simp
qed

end
