(* ===== verification/Spec2Isabelle.thy ===== *)
theory Spec2Isabelle
  imports Replication Sharing History Runs Logs
begin

text \<open>
  ConverGO: replicated text files over a cluster of peers.

  A user types commands (\<open>command/\<close>).  They act on a store of nodes (\<open>cluster/clusters.go\<close>): one client
  and one server.  The client (\<open>cluster/client.go\<close>) asks the server (\<open>cluster/server.go\<close>,
  \<open>cluster/store.go\<close>) for an identity and for the members of the cluster, and runs a peer
  (\<open>cluster/cvrdtpeer.go\<close>) that holds a repository of files (\<open>file/\<close>).  Each file is a state-based
  replicated text (\<open>cvrdt/\<close>): a WOOT site with the log of the operations it has processed.  Peers push
  their logs to each other over TCP (\<open>p2p/\<close>): connections with framed messages and a handshake, a
  transport that keeps one connection per peer, and a broker of sessions.  \<open>history/\<close> draws the causal
  order of a log.

  \<^bold>\<open>The theories, bottom up.\<close>
  \<^item> \<open>Prelude\<close>: outcomes of a Go call (\<open>Ret\<close>, \<open>Panic\<close>, \<open>Hang\<close>), errors as values, decimal numerals,
    64-bit integers, association lists for maps.
  \<^item> \<open>Clock\<close> (\<open>cvrdt/clock.go\<close>), \<open>Characters\<close> (\<open>character.go\<close>), \<open>WStrings\<close> (\<open>string.go\<close>), \<open>Operations\<close>
    (\<open>operations.go\<close>), \<open>Sites\<close> (\<open>site.go\<close>), \<open>OpStates\<close> and \<open>Replica\<close> (\<open>state.go\<close>): the replicated text.
    \<open>Keys\<close>, \<open>Convergence\<close> and \<open>SiteSpec\<close> hold the specification of a site: sort keys for cells, the
    invariant of a string, and the refinement of a string to the set of the applied operations.
  \<^item> \<open>Network\<close>: any number of sites that deliver operations in causal order.  \<open>Replication\<close>: two replicas
    that push their logs, which refine it.  \<open>Disks\<close>: what the repositories rely on in package \<open>os\<close>, as laws that
    a tree of directories and files satisfies.  \<open>Sharing\<close>: the repositories of two peers, disks included, each
    file of which is such a pair of replicas.
  \<^item> \<open>Dag\<close> and \<open>History\<close> (\<open>history/\<close>): the graph of a log, its layers and its renderings.
  \<^item> \<open>Edits\<close>, \<open>Registry\<close> and \<open>Repository\<close> (\<open>file/\<close>, \<open>file/repository/\<close>): what an edit does to a log, the
    contexts of files with their dumpers, and the repository.
  \<^item> \<open>Messages\<close> (\<open>p2p/message.go\<close>, \<open>encdec.go\<close>), \<open>Wire\<close> and \<open>Receivers\<close> (\<open>peer.go\<close>), \<open>Handshake\<close>
    (\<open>hostexhanger.go\<close>, \<open>handshake.go\<close>), \<open>Broker\<close> (\<open>session.go\<close>), \<open>Transport\<close> (\<open>communication.go\<close>,
    \<open>utils/ch.go\<close>, \<open>utils/errors.go\<close>), \<open>Modules\<close> (\<open>json.go\<close>, \<open>factory.go\<close>, \<open>config/\<close>,
    \<open>cluster/nodemodule.go\<close>): the network.
  \<^item> \<open>Cluster\<close> (\<open>store.go\<close>, \<open>server.go\<close>, \<open>topics.go\<close>), \<open>Peers\<close> (\<open>cvrdtpeer.go\<close>, \<open>client.go\<close>), \<open>Nodes\<close>
    (\<open>clusters.go\<close>) and \<open>Commands\<close> (\<open>command/\<close>): the application.  \<open>startLoop\<close> there is the loop without an
    interrupt; \<open>Runs\<close> holds the whole loop with the interrupt and its goroutines.  \<open>Logs\<close> (\<open>log/\<close>): what the
    loop shows, and goroutines that log at the same time.

  \<^bold>\<open>How code becomes definitions.\<close>  A struct is a record, a pointer to a struct that is shared is kept in the
  record that owns it and written back, a method that changes its receiver returns it.  A map is an
  association list whose order stands for the unspecified order of Go's iteration; lemmas speak of
  lookup.  A result with an error is a sum, or a pair with an optional error where the code uses both
  parts.  A panic is \<open>Panic\<close>, a call that never returns is \<open>Hang\<close>.  Integers are \<open>int\<close> with the wrap-around
  of 64 bits where it matters (\<open>wrap64\<close>), lengths on the wire are 32-bit words, identifiers of the server
  64-bit words.  The recursions without a bound (\<open>integrate_ins\<close>, \<open>try_pendings\<close>) are partial functions
  into \<open>option\<close>, so that not returning is a value; that they return is proved where it holds, and that
  one of them does not is proved, too.  Every other loop is total, structural or with a measure; no fuel
  is used.

  \<^bold>\<open>Concurrency.\<close>  Goroutines are steps of relations (receive sessions, the two sides of a handshake, the
  goroutines of a transport, the safe channel, the logger, network and replicas) or events of a run.  Code under one
  lock is one step.  Handlers of a message and the start of a node run to their end when they are
  reached; what the rest of the program does while a client waits for an answer is a parameter.

  \<^bold>\<open>Parameters.\<close>  The operating system with its files (\<open>os\<close>), \<open>encoding/json\<close> (\<open>json_lib\<close> and the
  marshallers), the bytes of a codec, the outcome of a write, of dialling and of a handshake on a
  connection, random identifiers, the expiry of contexts, and \<open>os.ExpandEnv\<close>.  What a property asks of
  them is a hypothesis, and its witness shows a function that satisfies it.

  \<^bold>\<open>Edits within the text.\<close>  The runs of \<open>Network\<close>, \<open>Replication\<close> and \<open>Sharing\<close> take the edits that are made
  as a parameter; the code accepts every edit (\<open>\<lambda>s l. True\<close>).  Convergence, refinement and progress are
  proved for \<open>within_text\<close>: an insertion is not past the end of the text and the counter is below that of
  the end marker.  Without this they are false of the code, which takes the end marker for both neighbours of
  an insertion past the end: \<open>past_end_diverges\<close> is a run of two replicas that hold the same operations and
  show different texts, \<open>past_end_hangs\<close> one whose merge never returns.

  \<^bold>\<open>What is proved.\<close>
  \<^item> Replication: two replicas that edit within their texts refine the causal network whatever happens to
    their pushes, no push fails, and one exchange of logs makes them agree; so do two repositories, file by
    file, through the push handler, on disks that satisfy \<open>disk_laws\<close>; sites of any number converge under
    causal delivery; edits do what they say at a position; the log of two sites is a semilattice searched by
    bisection.  Three replicas break bisection, and there are runs that hang or crash; both are
    proved of the code.
  \<^item> History: the graph is the covering relation of causality, its topological sort is correct and never
    panics on a causal log, and rendering returns.
  \<^item> Network: framing and envelopes survive a round trip; receive sessions never panic; the
    handshake agrees on both names, with its exact possible outcomes; the transport's map is
    the set of open connections; a broadcast reaches what its error says; a session carries one reply.
  \<^item> Application: the server never assigns an identifier twice and answers an accepted join; a peer's
    alignment reaches the membership; the node store keeps one node of each kind; commands reply once,
    and a run of the loop that is not interrupted and ends serves every line and closes every node; an
    interrupt ends it, and may leave a command behind; lines of the log never mix,
    and a reply with a percent sign is not shown as it is.

  \<^bold>\<open>Not modelled.\<close>  \<open>main.go\<close>; the interfaces and aliases without code (\<open>utils/interface.go\<close>,
  \<open>config/configurable.go\<close>, \<open>cluster/peerimport.go\<close>); \<open>JsonEncoder\<close> and \<open>JsonDecoder\<close>, which only call
  \<open>encoding/json\<close>; the inside of a command, whose effect is one step even when an interrupt or a timeout cuts
  the waiting for it; percent signs of a text that is passed on as a format string, except in the replies
  the loop shows; and data races, such as the dumper's unlocked read.
\<close>

end
